(* ===== verification/Prelude.thy ===== *)
theory Prelude
  imports Main "HOL-Library.Word" "HOL-Library.Finite_Map" "HOL-Library.List_Lexorder"
    "HOL-Library.Char_ord" "HOL-Library.Multiset"
begin

text \<open>
  Shared vocabulary of the development: the Go integer types, the errors the repository creates
  and wraps, the result of a Go call (a value, an error or a panic), calls that thread a state,
  and the generic lemmas on lists and finite maps the component theories use.

  Go's \<open>uint64\<close> and \<open>int64\<close> are 64-bit words (\<open>int64\<close> read with \<open>sint\<close>); Go's \<open>int\<close> (64 bits on
  the supported platforms) is an \<open>int\<close> that every parser and conversion below keeps in range;
  a Go string is its list of bytes; \<open>[]byte\<close> is a list of 8-bit words.
\<close>

type_synonym u64 = "64 word"
type_synonym i64 = "64 word"
type_synonym u8 = "8 word"
type_synonym bytes = "u8 list"
type_synonym fields = "(string, string) fmap"

named_theorems call_simps \<open>evaluation of calls: sequencing, wrapping, lifting\<close>

section \<open>Errors\<close>

text \<open>
  The sentinels of \<open>pkg/bloom\<close> and \<open>internal/service\<close>, the two kinds of \<open>strconv.NumError\<close>, an
  error made from a text (\<open>errors.New\<close> or \<open>fmt.Errorf\<close> without \<open>%w\<close>, also what a store client
  reports), and \<open>fmt.Errorf\<close> with a prefix and \<open>%w\<close>.
\<close>

datatype error =
    ErrEmptyName | ErrFilterExists | ErrNotFound
  | ErrInvalidN | ErrInvalidP | ErrInvalidStage | ErrSizeOverflow | ErrInvalidRatio
  | ErrTooManyArgs
  | ServiceErrInvalidArgument | ServiceErrNotFound | ServiceErrAlreadyExists
  | NumErrSyntax string string
  | NumErrRange string string
  | ErrorText string
  | Errorf string error

text \<open>\<open>errors.Is\<close>: the error itself or, through \<open>%w\<close>, what it wraps.\<close>

fun errors_is :: "error \<Rightarrow> error \<Rightarrow> bool" where
  "errors_is (Errorf p e) t = (Errorf p e = t \<or> errors_is e t)"
| "errors_is e t = (e = t)"

text \<open>The error a chain of \<open>%w\<close> wraps in the end.\<close>

fun error_root :: "error \<Rightarrow> error" where
  "error_root (Errorf p e) = error_root e"
| "error_root e = e"

fun wraps :: "error \<Rightarrow> bool" where
  "wraps (Errorf p e) = True"
| "wraps e = False"

lemma errors_is_root: "\<not> wraps t \<Longrightarrow> errors_is e t = (error_root e = t)"
  by (induction e t rule: errors_is.induct) auto

section \<open>Results and calls\<close>

datatype 'a res = Ok 'a | Err error | Panic string

type_synonym ('s, 'a) call = "'s \<Rightarrow> 'a res \<times> 's"

definition bindR :: "'a res \<Rightarrow> ('a \<Rightarrow> 'b res) \<Rightarrow> 'b res" where
  "bindR r f = (case r of Ok x \<Rightarrow> f x | Err e \<Rightarrow> Err e | Panic p \<Rightarrow> Panic p)"

definition wrapR :: "string \<Rightarrow> 'a res \<Rightarrow> 'a res" where
  "wrapR p r = (case r of Ok x \<Rightarrow> Ok x | Err e \<Rightarrow> Err (Errorf p e) | Panic q \<Rightarrow> Panic q)"

text \<open>
  A call runs on a state. After an error or a panic the rest of the body is skipped and the state
  stays as it was at that point.
\<close>

definition returnC :: "'a \<Rightarrow> ('s, 'a) call" where
  "returnC x = (\<lambda>s. (Ok x, s))"

definition resC :: "'a res \<Rightarrow> ('s, 'a) call" where
  "resC r = (\<lambda>s. (r, s))"

definition bindC :: "('s, 'a) call \<Rightarrow> ('a \<Rightarrow> ('s, 'b) call) \<Rightarrow> ('s, 'b) call" where
  "bindC c f = (\<lambda>s. case c s of (Ok x, s') \<Rightarrow> f x s'
     | (Err e, s') \<Rightarrow> (Err e, s') | (Panic p, s') \<Rightarrow> (Panic p, s'))"

definition wrapC :: "string \<Rightarrow> ('s, 'a) call \<Rightarrow> ('s, 'a) call" where
  "wrapC p c = (\<lambda>s. case c s of (r, s') \<Rightarrow> (wrapR p r, s'))"

text \<open>\<open>if err != nil\<close> with a handler that goes on: an error is handled, a panic is not.\<close>

definition catchC :: "('s, 'a) call \<Rightarrow> (error \<Rightarrow> ('s, 'a) call) \<Rightarrow> ('s, 'a) call" where
  "catchC c h = (\<lambda>s. case c s of (Ok x, s') \<Rightarrow> (Ok x, s')
     | (Err e, s') \<Rightarrow> h e s' | (Panic p, s') \<Rightarrow> (Panic p, s'))"

text \<open>A call on the store part of a larger state (a method of a value that owns more state).\<close>

definition onStore :: "('s, 'a) call \<Rightarrow> ('f \<times> 's, 'a) call" where
  "onStore c = (\<lambda>(f, s). case c s of (r, s') \<Rightarrow> (r, (f, s')))"

definition getF :: "('f \<times> 's, 'f) call" where
  "getF = (\<lambda>(f, s). (Ok f, (f, s)))"

definition putF :: "'f \<Rightarrow> ('f \<times> 's, unit) call" where
  "putF f' = (\<lambda>(f, s). (Ok (), (f', s)))"

lemma bindR_simps [simp, call_simps]:
  "bindR (Ok x) f = f x" "bindR (Err e) f = Err e" "bindR (Panic p) f = Panic p"
  by (simp_all add: bindR_def)

lemma wrapR_simps [simp, call_simps]:
  "wrapR p (Ok x) = Ok x" "wrapR p (Err e) = Err (Errorf p e)" "wrapR p (Panic q) = Panic q"
  by (simp_all add: wrapR_def)

lemma bindR_Ok_iff: "bindR r f = Ok y \<longleftrightarrow> (\<exists>x. r = Ok x \<and> f x = Ok y)"
  by (cases r) simp_all

lemma bindR_Err_iff:
  "bindR r f = Err e \<longleftrightarrow> r = Err e \<or> (\<exists>x. r = Ok x \<and> f x = Err e)"
  by (cases r) simp_all

lemma bindR_Panic_iff:
  "bindR r f = Panic p \<longleftrightarrow> r = Panic p \<or> (\<exists>x. r = Ok x \<and> f x = Panic p)"
  by (cases r) simp_all

lemma wrapR_iffs [simp]:
  "wrapR p r = Ok x \<longleftrightarrow> r = Ok x"
  "wrapR p r = Panic q \<longleftrightarrow> r = Panic q"
  "wrapR p r = Err e \<longleftrightarrow> (\<exists>e'. r = Err e' \<and> e = Errorf p e')"
  by (cases r; auto)+

lemma returnC_apply [simp, call_simps]: "returnC x s = (Ok x, s)"
  by (simp add: returnC_def)

lemma resC_apply [simp, call_simps]: "resC r s = (r, s)"
  by (simp add: resC_def)

lemma getF_apply [simp, call_simps]: "getF (f, s) = (Ok f, (f, s))"
  by (simp add: getF_def)

lemma putF_apply [simp, call_simps]: "putF f' (f, s) = (Ok (), (f', s))"
  by (simp add: putF_def)

lemma bindC_step [simp, call_simps]:
  "c s = (Ok x, s') \<Longrightarrow> bindC c f s = f x s'"
  "c s = (Err e, s') \<Longrightarrow> bindC c f s = (Err e, s')"
  "c s = (Panic p, s') \<Longrightarrow> bindC c f s = (Panic p, s')"
  by (simp_all add: bindC_def)

lemma wrapC_step [simp, call_simps]: "c s = (r, s') \<Longrightarrow> wrapC p c s = (wrapR p r, s')"
  by (simp add: wrapC_def)

lemma catchC_step [simp, call_simps]:
  "c s = (Ok x, s') \<Longrightarrow> catchC c h s = (Ok x, s')"
  "c s = (Err e, s') \<Longrightarrow> catchC c h s = h e s'"
  "c s = (Panic p, s') \<Longrightarrow> catchC c h s = (Panic p, s')"
  by (simp_all add: catchC_def)

lemma onStore_step [simp, call_simps]: "c s = (r, s') \<Longrightarrow> onStore c (f, s) = (r, (f, s'))"
  by (simp add: onStore_def)

text \<open>Inversion of calls: how a sequence, a wrapped or a lifted call can have ended.\<close>

lemma bindC_cases:
  assumes "bindC c f s = (r, t)"
  obtains (ok) x u where "c s = (Ok x, u)" "f x u = (r, t)"
    | (err) e where "c s = (Err e, t)" "r = Err e"
    | (panic) p where "c s = (Panic p, t)" "r = Panic p"
  using assms by (auto simp: bindC_def split: prod.splits res.splits)

lemma bindC_OkE:
  assumes "bindC c f s = (Ok y, t)"
  obtains x u where "c s = (Ok x, u)" "f x u = (Ok y, t)"
  using assms by (auto elim: bindC_cases)

lemma wrapC_cases:
  assumes "wrapC p c s = (r, t)"
  obtains r' where "c s = (r', t)" "r = wrapR p r'"
  using assms by (auto simp: wrapC_def split: prod.splits)

lemma catchC_cases:
  assumes "catchC c h s = (r, t)"
  obtains (ok) x where "c s = (Ok x, t)" "r = Ok x"
    | (err) e u where "c s = (Err e, u)" "h e u = (r, t)"
    | (panic) p where "c s = (Panic p, t)" "r = Panic p"
  using assms by (auto simp: catchC_def split: prod.splits res.splits)

lemma onStore_cases:
  assumes "onStore c (f, s) = (r, ft)"
  obtains t where "c s = (r, t)" "ft = (f, t)"
  using assms by (auto simp: onStore_def split: prod.splits)

text \<open>
  \<open>make([]T, n)\<close> for elements of \<open>sz\<close> bytes: the runtime panics when the length is negative or the
  slice would exceed the 48-bit address space. (Memory that runs out below that limit is not
  modelled.)
\<close>

definition makeslice :: "int \<Rightarrow> int \<Rightarrow> unit res" where
  "makeslice sz n = (if n < 0 \<or> 2 ^ 48 < sz * n
     then Panic ''runtime error: makeslice: len out of range'' else Ok ())"

lemma makeslice_iffs [simp]:
  "makeslice sz n = Ok u \<longleftrightarrow> 0 \<le> n \<and> sz * n \<le> 2 ^ 48"
  "makeslice sz n \<noteq> Err e"
  by (auto simp: makeslice_def)

section \<open>Lists\<close>

text \<open>
  The order in which \<open>range\<close> visits a Go map is unspecified. An operation that ranges over a map
  takes the order as an argument \<open>ord\<close> and visits the sorted entries as \<open>visit ord\<close> rearranges them:
  a proposal that is no rearrangement counts as the sorted order, and every rearrangement is
  proposed by some \<open>ord\<close>.
\<close>

definition visit :: "('a list \<Rightarrow> 'a list) \<Rightarrow> 'a list \<Rightarrow> 'a list" where
  "visit ord xs = (if mset (ord xs) = mset xs then ord xs else xs)"

lemma visit_mset [simp]: "mset (visit ord xs) = mset xs"
  by (simp add: visit_def)

lemma visit_set [simp]: "set (visit ord xs) = set xs"
  by (metis set_mset_mset visit_mset)

lemma visit_distinct [simp]: "distinct (visit ord xs) = distinct xs"
  by (metis mset_eq_imp_distinct_iff visit_mset)

lemma visit_all: "mset ys = mset xs \<Longrightarrow> visit (\<lambda>_. ys) xs = ys"
  by (simp add: visit_def)

text \<open>A list splits in at most one way at the first separator.\<close>

lemma split_at_sep:
  assumes "a \<notin> set xs" "a \<notin> set ys" "xs @ a # us = ys @ a # vs"
  shows "xs = ys \<and> us = vs"
  using assms
proof (induction xs arbitrary: ys)
  case Nil
  then show ?case by (cases ys) auto
next
  case (Cons x xs)
  then show ?case by (cases ys) auto
qed

lemma mset_buckets:
  "distinct shs \<Longrightarrow> mset (concat (map (\<lambda>sh. filter (\<lambda>p. g p = sh) ps) shs))
     = mset (filter (\<lambda>p. g p \<in> set shs) ps)"
proof (induction shs)
  case (Cons sh shs)
  have "mset (filter (\<lambda>p. g p = sh) qs) + mset (filter (\<lambda>p. g p \<in> set shs) qs)
      = mset (filter (\<lambda>p. g p = sh \<or> g p \<in> set shs) qs)" for qs
    using Cons.prems by (induction qs) auto
  then show ?case using Cons by simp
qed simp

lemma mset_concat_cong: "mset xss = mset yss \<Longrightarrow> mset (concat xss) = mset (concat yss)"
  by (metis mset_concat mset_map sum_mset_sum_list)

lemma distinct_keys_visit: "distinct (map fst xs) \<Longrightarrow> distinct (map fst (visit ord xs))"
  by (metis mset_eq_imp_distinct_iff mset_map visit_mset)

lemma ceil_div_less_iff: "q < n div d + (if n mod d \<noteq> 0 then 1 else 0) \<longleftrightarrow> q * d < n"
  if "0 < d" for q n d :: nat
proof -
  have n: "n = n div d * d + n mod d" "n mod d < d" using that by simp_all
  show ?thesis
  proof
    assume "q < n div d + (if n mod d \<noteq> 0 then 1 else 0)"
    then consider "q + 1 \<le> n div d" | "q = n div d" "n mod d \<noteq> 0" by (force split: if_splits)
    then show "q * d < n"
    proof cases
      case 1
      then have "(q + 1) * d \<le> n" by (metis n(1) le_add1 le_trans mult_le_mono1)
      then show ?thesis using that by simp
    next
      case 2
      then have "n div d * d < n" using n(1) by linarith
      then show ?thesis by (simp only: 2(1))
    qed
  next
    assume "q * d < n"
    have "q < n div d + (if n mod d \<noteq> 0 then 1 else 0)" if "n div d \<le> q"
    proof (cases "n mod d = 0")
      case True
      then have "n \<le> q * d" using mult_le_mono1 [OF that, of d] n(1) by linarith
      then show ?thesis using \<open>q * d < n\<close> by simp
    next
      case False
      have "n < (n div d + 1) * d" using n by (simp only: distrib_right)
      then have "q * d < (n div d + 1) * d" using \<open>q * d < n\<close> by linarith
      then have "q < n div d + 1" using mult_less_cancel2 by blast
      then show ?thesis using False by simp
    qed
    then show "q < n div d + (if n mod d \<noteq> 0 then 1 else 0)" by fastforce
  qed
qed

end
