(* ===== verification/Float64.thy ===== *)
theory Float64
  imports Prelude
begin

text \<open>
  Go's \<open>float64\<close>: IEEE 754 binary64 with round-to-nearest-even, computed on integers. A finite
  value is a mantissa and an exponent, \<open>Fin m e\<close> for \<open>m * 2^e\<close>, in the one canonical form
  \<open>f64_ok\<close> describes (53-bit mantissa, or exponent -1074 for the subnormals and zero). The sign of
  zero is not represented: the program never divides by a float that can be zero and prints no
  zero, so it cannot observe it.
\<close>

datatype f64 = NaN | Inf bool | Fin int int

fun f64_ok :: "f64 \<Rightarrow> bool" where
  "f64_ok (Fin m e) = (2 ^ 52 \<le> \<bar>m\<bar> \<and> \<bar>m\<bar> < 2 ^ 53 \<and> -1074 \<le> e \<and> e \<le> 971
     \<or> \<bar>m\<bar> < 2 ^ 52 \<and> e = -1074)"
| "f64_ok x = True"

fun finite64 :: "f64 \<Rightarrow> bool" where
  "finite64 (Fin m e) = True"
| "finite64 x = False"

section \<open>Rounding\<close>

definition pow2 :: "int \<Rightarrow> int" where
  "pow2 k = 2 ^ nat k"

function bitlen :: "int \<Rightarrow> int" where
  "bitlen n = (if n \<le> 0 then 0 else 1 + bitlen (n div 2))"
  by pat_completeness auto
termination
  by (relation "measure nat") auto

declare bitlen.simps [simp del]

text \<open>Round \<open>a / b\<close> (\<open>b > 0\<close>) to an integer, ties to even.\<close>

definition round_even :: "int \<Rightarrow> int \<Rightarrow> int" where
  "round_even a b = (let q = a div b; r = a mod b
     in if 2 * r < b \<or> 2 * r = b \<and> even q then q else q + 1)"

text \<open>The exponent of the binade of \<open>a / b\<close> (\<open>a, b > 0\<close>), not below the subnormal exponent.\<close>

definition scale_of :: "int \<Rightarrow> int \<Rightarrow> int" where
  "scale_of a b = (let k = bitlen a - bitlen b - 53
     in max (-1074) (if 2 ^ 53 * (b * pow2 k) \<le> a * pow2 (- k) then k + 1 else k))"

definition pack64 :: "int \<Rightarrow> int \<Rightarrow> f64" where
  "pack64 q e = (let (m, e') = (if \<bar>q\<bar> = 2 ^ 53 then (sgn q * 2 ^ 52, e + 1) else (q, e))
     in if 971 < e' then Inf (q < 0) else Fin m e')"

definition rnd :: "int \<Rightarrow> int \<Rightarrow> f64" where
  "rnd a b = (if a = 0 then Fin 0 (-1074)
     else (let e = scale_of \<bar>a\<bar> b in pack64 (round_even (a * pow2 (- e)) (b * pow2 e)) e))"

definition rnd_dyadic :: "int \<Rightarrow> int \<Rightarrow> f64" where
  "rnd_dyadic m e = rnd (m * pow2 e) (pow2 (- e))"

section \<open>Arithmetic, comparison and conversion\<close>

instantiation f64 :: "{plus, minus, uminus, times, inverse, zero, one, ord}"
begin

definition zero_f64 :: f64 where "zero_f64 = Fin 0 (-1074)"

definition one_f64 :: f64 where "one_f64 = Fin (2 ^ 52) (-52)"

fun uminus_f64 :: "f64 \<Rightarrow> f64" where
  "uminus_f64 NaN = NaN"
| "uminus_f64 (Inf s) = Inf (\<not> s)"
| "uminus_f64 (Fin m e) = Fin (- m) e"

fun plus_f64 :: "f64 \<Rightarrow> f64 \<Rightarrow> f64" where
  "plus_f64 NaN y = NaN"
| "plus_f64 x NaN = NaN"
| "plus_f64 (Inf s) (Inf t) = (if s = t then Inf s else NaN)"
| "plus_f64 (Inf s) y = Inf s"
| "plus_f64 x (Inf t) = Inf t"
| "plus_f64 (Fin m d) (Fin n e) =
     (let k = min d e in rnd_dyadic (m * pow2 (d - k) + n * pow2 (e - k)) k)"

definition minus_f64 :: "f64 \<Rightarrow> f64 \<Rightarrow> f64" where
  "minus_f64 x y = x + - y"

fun times_f64 :: "f64 \<Rightarrow> f64 \<Rightarrow> f64" where
  "times_f64 NaN y = NaN"
| "times_f64 x NaN = NaN"
| "times_f64 (Inf s) (Inf t) = Inf (s \<noteq> t)"
| "times_f64 (Inf s) (Fin n e) = (if n = 0 then NaN else Inf (s \<noteq> (n < 0)))"
| "times_f64 (Fin m d) (Inf t) = (if m = 0 then NaN else Inf ((m < 0) \<noteq> t))"
| "times_f64 (Fin m d) (Fin n e) = rnd_dyadic (m * n) (d + e)"

fun divide_f64 :: "f64 \<Rightarrow> f64 \<Rightarrow> f64" where
  "divide_f64 NaN y = NaN"
| "divide_f64 x NaN = NaN"
| "divide_f64 (Inf s) (Inf t) = NaN"
| "divide_f64 (Inf s) (Fin n e) = Inf (s \<noteq> (n < 0))"
| "divide_f64 (Fin m d) (Inf t) = Fin 0 (-1074)"
| "divide_f64 (Fin m d) (Fin n e) =
     (if n = 0 then if m = 0 then NaN else Inf (m < 0)
      else rnd (m * sgn n * pow2 (d - e)) (\<bar>n\<bar> * pow2 (e - d)))"

definition inverse_f64 :: "f64 \<Rightarrow> f64" where
  "inverse_f64 x = divide 1 x"

text \<open>Go's \<open><\<close> and \<open><=\<close>: false when a NaN is involved.\<close>

fun less_f64 :: "f64 \<Rightarrow> f64 \<Rightarrow> bool" where
  "less_f64 NaN y = False"
| "less_f64 x NaN = False"
| "less_f64 (Inf s) (Inf t) = (s \<and> \<not> t)"
| "less_f64 (Inf s) (Fin n e) = s"
| "less_f64 (Fin m d) (Inf t) = (\<not> t)"
| "less_f64 (Fin m d) (Fin n e) = (m * pow2 (d - e) < n * pow2 (e - d))"

fun less_eq_f64 :: "f64 \<Rightarrow> f64 \<Rightarrow> bool" where
  "less_eq_f64 NaN y = False"
| "less_eq_f64 x NaN = False"
| "less_eq_f64 (Inf s) (Inf t) = (s \<or> \<not> t)"
| "less_eq_f64 (Inf s) (Fin n e) = s"
| "less_eq_f64 (Fin m d) (Inf t) = (\<not> t)"
| "less_eq_f64 (Fin m d) (Fin n e) = (m * pow2 (d - e) \<le> n * pow2 (e - d))"

instance ..

end

definition IsNaN :: "f64 \<Rightarrow> bool" where
  "IsNaN x \<longleftrightarrow> x = NaN"

text \<open>Go's conversions \<open>float64(x)\<close> of a \<open>uint64\<close> and of an \<open>int\<close>.\<close>

definition f64_of_u64 :: "u64 \<Rightarrow> f64" where
  "f64_of_u64 w = rnd (uint w) 1"

definition f64_of_int :: "int \<Rightarrow> f64" where
  "f64_of_int i = rnd i 1"

text \<open>\<open>math.Ceil\<close> and \<open>math.Round\<close> (half away from zero).\<close>

fun Ceil :: "f64 \<Rightarrow> f64" where
  "Ceil (Fin m e) = (if 0 \<le> e then Fin m e else rnd (- ((- m) div pow2 (- e))) 1)"
| "Ceil x = x"

fun Round :: "f64 \<Rightarrow> f64" where
  "Round (Fin m e) = (if 0 \<le> e then Fin m e
     else rnd (sgn m * ((2 * \<bar>m\<bar> + pow2 (- e)) div (2 * pow2 (- e)))) 1)"
| "Round x = x"

text \<open>The integer a finite float truncates to.\<close>

fun trunc64 :: "f64 \<Rightarrow> int" where
  "trunc64 (Fin m e) = sgn m * ((\<bar>m\<bar> * pow2 e) div pow2 (- e))"
| "trunc64 x = 0"

text \<open>
  Conversions \<open>uint64(x)\<close> and \<open>int(x)\<close>: truncation when the result fits. When it does not, the
  language leaves the result to the implementation, which is the argument \<open>big\<close> here.
\<close>

definition u64_of_f64 :: "(f64 \<Rightarrow> u64) \<Rightarrow> f64 \<Rightarrow> u64" where
  "u64_of_f64 big x = (let t = trunc64 x
     in if finite64 x \<and> 0 \<le> t \<and> t < 2 ^ 64 then word_of_int t else big x)"

definition int_of_f64 :: "(f64 \<Rightarrow> i64) \<Rightarrow> f64 \<Rightarrow> int" where
  "int_of_f64 big x = (let t = trunc64 x
     in if finite64 x \<and> - (2 ^ 63) \<le> t \<and> t < 2 ^ 63 then t else sint (big x))"

section \<open>Execution\<close>

lemma pow2_code [code]:
  "pow2 k = (if k \<le> 0 then 1 else if even k then (let h = pow2 (k div 2) in h * h)
     else 2 * pow2 (k - 1))"
proof (cases "k \<le> 0")
  case False
  show ?thesis
  proof (cases "even k")
    case True
    then have "nat k = nat (k div 2) + nat (k div 2)"
      using False by (simp flip: nat_add_distrib)
    then show ?thesis using False True by (simp add: pow2_def Let_def flip: power_add)
  next
    case odd: False
    have "nat k = Suc (nat (k - 1))" using False by simp
    then show ?thesis using False odd by (simp add: pow2_def)
  qed
qed (simp add: pow2_def)

end
