(* ===== verification/GoMath.thy ===== *)
theory GoMath
  imports Float64
begin

text \<open>
  What the repository calls outside its own sources: the \<open>platform\<close>. Its fields are the third-party
  hash \<open>xxhash.Sum64\<close>, the functions of package \<open>math\<close> whose last bits depend on the architecture
  (\<open>Log\<close>, \<open>Exp\<close>, \<open>Pow\<close>), the conversions the language leaves to the implementation when the value
  does not fit, and \<open>strconv\<close>'s float formatting and parsing. Every operation that needs one takes
  the platform as an argument, and every theorem holds for all platforms, with the documented law
  it needs as a hypothesis.

  The second half gives the portable algorithms of Go's \<open>math.Log\<close> and of \<open>math.Pow\<close> at
  non-negative integral exponents (the only ones the program uses), as the concrete platform the
  witnesses run on.
\<close>

record platform =
  Sum64 :: "bytes \<Rightarrow> u64"
  Log :: "f64 \<Rightarrow> f64"
  Exp :: "f64 \<Rightarrow> f64"
  Pow :: "f64 \<Rightarrow> f64 \<Rightarrow> f64"
  u64_big :: "f64 \<Rightarrow> u64"
  int_big :: "f64 \<Rightarrow> i64"
  FormatFloat :: "f64 \<Rightarrow> string"
  ParseFloat :: "string \<Rightarrow> f64 res"

text \<open>Documented: \<open>Pow(x, 0) = 1\<close> and \<open>Pow(x, 1) = x\<close> for any \<open>x\<close>.\<close>

definition pow_documented :: "platform \<Rightarrow> bool" where
  "pow_documented P \<longleftrightarrow> (\<forall>x. Pow P x 0 = 1 \<and> Pow P x 1 = x)"

text \<open>
  Documented for \<open>FormatFloat\<close> with precision -1: the shortest text from which \<open>ParseFloat\<close> gives
  back the value exactly.
\<close>

definition float_text_exact :: "platform \<Rightarrow> bool" where
  "float_text_exact P \<longleftrightarrow> (\<forall>x. finite64 x \<longrightarrow> f64_ok x \<longrightarrow> ParseFloat P (FormatFloat P x) = Ok x)"

section \<open>The portable algorithms\<close>

fun Frexp :: "f64 \<Rightarrow> f64 \<times> int" where
  "Frexp (Fin m e) = (if m = 0 then (Fin m e, 0)
     else (rnd_dyadic m (- bitlen \<bar>m\<bar>), e + bitlen \<bar>m\<bar>))"
| "Frexp x = (x, 0)"

fun Ldexp :: "f64 \<Rightarrow> int \<Rightarrow> f64" where
  "Ldexp (Fin m e) k = rnd_dyadic m (e + k)"
| "Ldexp x k = x"

definition portable_Log :: "f64 \<Rightarrow> f64" where
  "portable_Log x =
    (if IsNaN x \<or> x = Inf False then x
     else if x < 0 then NaN
     else if x = 0 then Inf True
     else let (g, j) = Frexp x;
       small = (g < Fin 6369051672525773 (-53));
       f1 = (if small then g + g else g);
       ki = (if small then j - 1 else j);
       f = f1 - 1;
       k = f64_of_int ki;
       s = f / (1 + 1 + f);
       s2 = s * s;
       s4 = s2 * s2;
       t1 = s2 * (Fin 6004799503160723 (-53) + s4 * (Fin 5146971033736025 (-54)
              + s4 * (Fin 6551322304906206 (-55) + s4 * Fin 5331612937900612 (-55))));
       t2 = s4 * (Fin 7205759403686404 (-54) + s4 * (Fin 8006390766270639 (-55)
              + s4 * Fin 5517391500461727 (-55)));
       R = t1 + t2;
       hfsq = Fin (2 ^ 52) (-53) * f * f
     in k * Fin 6243314766446592 (-53)
        - ((hfsq - (s * (hfsq + R) + k * Fin 7382048951581814 (-85))) - f))"

text \<open>The squaring loop of \<open>math.Pow\<close>: fraction and exponent are kept apart.\<close>

function pow_loop :: "int \<Rightarrow> f64 \<Rightarrow> int \<Rightarrow> f64 \<Rightarrow> int \<Rightarrow> f64 \<times> int" where
  "pow_loop i a1 ae x1 xe =
    (if i \<le> 0 then (a1, ae)
     else if xe < - 4096 \<or> 4096 < xe then (a1, ae + xe)
     else let b1 = (if odd i then a1 * x1 else a1);
       be = (if odd i then ae + xe else ae);
       y1 = x1 * x1
     in if y1 < Fin (2 ^ 52) (-53) then pow_loop (i div 2) b1 be (y1 + y1) (2 * xe - 1)
        else pow_loop (i div 2) b1 be y1 (2 * xe))"
  by pat_completeness auto
termination
  by (relation "measure (\<lambda>(i, a1, ae, x1, xe). nat i)") auto

declare pow_loop.simps [simp del]

definition portable_Pow :: "f64 \<Rightarrow> f64 \<Rightarrow> f64" where
  "portable_Pow x y =
    (if y = 0 \<or> x = 1 then 1
     else if y = 1 then x
     else if IsNaN x \<or> IsNaN y then NaN
     else if x = 0 \<or> x = Inf False then x
     else case Frexp x of (x1, xe) \<Rightarrow>
       (case pow_loop (trunc64 y) 1 0 x1 xe of (a1, ae) \<Rightarrow> Ldexp a1 ae))"

end
