(* ===== verification/Sizing.thy ===== *)
theory Sizing
  imports GoMath
begin

text \<open>
  \<open>pkg/bloom/sizing.go\<close>: the number of bits and hash functions of a stage, the error budget and the
  capacity of stage \<open>i\<close>. The constants are Go's untyped constants, rounded once to \<open>float64\<close>.
\<close>

definition ln2_num :: int where
  "ln2_num = 693147180559945309417232121458176568075500134360255254120680009"

definition ln2 :: f64 where
  "ln2 = rnd ln2_num (10 ^ 63)"

definition ln2Squared :: f64 where
  "ln2Squared = rnd (ln2_num * ln2_num) (10 ^ 126)"

definition DefaultR :: f64 where
  "DefaultR = rnd 9 10"

definition DefaultS :: f64 where
  "DefaultS = rnd 2 1"

definition MaxUint64f :: f64 where
  "MaxUint64f = rnd (2 ^ 64 - 1) 1"

fun optionalRatio :: "f64 \<Rightarrow> f64 list \<Rightarrow> f64 res" where
  "optionalRatio def [] = Ok def"
| "optionalRatio def [x] = Ok x"
| "optionalRatio def _ = Err ErrTooManyArgs"

definition OptimalM :: "platform \<Rightarrow> u64 \<Rightarrow> f64 \<Rightarrow> u64 res" where
  "OptimalM P n p =
    (if n = 0 then Err ErrInvalidN
     else if IsNaN p \<or> p \<le> 0 \<or> 1 \<le> p then Err ErrInvalidP
     else let m = Ceil (- f64_of_u64 n * Log P p / ln2Squared)
       in if MaxUint64f < m then Err ErrSizeOverflow else Ok (u64_of_f64 (u64_big P) m))"

definition OptimalK :: "platform \<Rightarrow> u64 \<Rightarrow> u64 \<Rightarrow> int res" where
  "OptimalK P n m =
    (if n = 0 then Err ErrInvalidN
     else let k = Round (f64_of_u64 m / f64_of_u64 n * ln2);
       k = (if k < 1 then 1 else k)
     in Ok (int_of_f64 (int_big P) k))"

definition StageError :: "platform \<Rightarrow> f64 \<Rightarrow> int \<Rightarrow> f64 list \<Rightarrow> f64 res" where
  "StageError P p i r =
    (if IsNaN p \<or> p \<le> 0 \<or> 1 \<le> p then Err ErrInvalidP
     else if i < 0 then Err ErrInvalidStage
     else bindR (optionalRatio DefaultR r) (\<lambda>ratio.
       if IsNaN ratio \<or> ratio \<le> 0 \<or> 1 \<le> ratio then Err ErrInvalidRatio
       else let p0 = p * (1 - ratio) in Ok (p0 * Pow P ratio (f64_of_int i))))"

definition StageCapacity :: "platform \<Rightarrow> u64 \<Rightarrow> int \<Rightarrow> f64 list \<Rightarrow> u64 res" where
  "StageCapacity P n i s =
    (if n = 0 then Err ErrInvalidN
     else if i < 0 then Err ErrInvalidStage
     else bindR (optionalRatio DefaultS s) (\<lambda>ratio.
       if IsNaN ratio \<or> ratio \<le> 1 then Err ErrInvalidRatio
       else let c = f64_of_u64 n * Pow P ratio (f64_of_int i)
         in if MaxUint64f < c then Err ErrSizeOverflow else Ok (u64_of_f64 (u64_big P) c)))"

end
