(* ===== verification/Hash.thy ===== *)
theory Hash
  imports GoMath
begin

text \<open>
  \<open>pkg/bloom/hash.go\<close>: the two hash values of an item and the \<open>k\<close> bit positions of double hashing.
\<close>

text \<open>\<open>binary.LittleEndian.PutUint64\<close>\<close>

definition PutUint64 :: "u64 \<Rightarrow> bytes" where
  "PutUint64 w = map (\<lambda>i. ucast (drop_bit (8 * i) w)) [0..<8]"

definition ensureNonZero :: "u64 \<Rightarrow> u64" where
  "ensureNonZero x = (if x = 0 then 1 else x)"

definition hashParts :: "platform \<Rightarrow> bytes \<Rightarrow> u64 \<times> u64" where
  "hashParts P item = (let h1 = Sum64 P item; h2 = ensureNonZero (Sum64 P (PutUint64 h1))
     in (h1, h2))"

definition positions :: "u64 \<Rightarrow> u64 \<Rightarrow> u64 \<Rightarrow> int \<Rightarrow> u64 list res" where
  "positions h1 h2 m k =
    (if k \<le> 0 then Ok []
     else bindR (makeslice 8 k) (\<lambda>_.
       if m = 0 then Panic ''runtime error: integer divide by zero''
       else Ok (map (\<lambda>i. (h1 + word_of_nat i * h2) mod m) [0..<nat k])))"

section \<open>Lemmas\<close>

lemma ensureNonZero_nonzero [simp]: "ensureNonZero x \<noteq> 0"
  by (simp add: ensureNonZero_def)

lemma ensureNonZero_id: "x \<noteq> 0 \<Longrightarrow> ensureNonZero x = x"
  by (simp add: ensureNonZero_def)

lemma positions_not_Err [simp]: "positions h1 h2 m k \<noteq> Err e"
  by (auto simp: positions_def bindR_Err_iff)

lemma positions_Ok_iff:
  "positions h1 h2 m k = Ok ps \<longleftrightarrow>
     (k \<le> 0 \<and> ps = [] \<or> 0 < k \<and> 8 * k \<le> 2 ^ 48 \<and> m \<noteq> 0
       \<and> ps = map (\<lambda>i. (h1 + word_of_nat i * h2) mod m) [0..<nat k])"
  by (auto simp: positions_def bindR_Ok_iff)

lemma positions_Panic_iff:
  "(\<exists>p. positions h1 h2 m k = Panic p) \<longleftrightarrow> 0 < k \<and> (2 ^ 48 < 8 * k \<or> m = 0)"
  by (auto simp: positions_def makeslice_def bindR_def)

lemma positions_length: "positions h1 h2 m k = Ok ps \<Longrightarrow> length ps = nat k"
  by (auto simp: positions_Ok_iff)

lemma word_mod_less: "m \<noteq> 0 \<Longrightarrow> (x :: u64) mod m < m"
  by (simp add: word_mod_less_divisor word_neq_0_conv)

lemma positions_less: "positions h1 h2 m k = Ok ps \<Longrightarrow> x \<in> set ps \<Longrightarrow> x < m"
  by (auto simp: positions_Ok_iff word_mod_less)

text \<open>The step \<open>h2\<close> a multiple of \<open>m\<close> without wrap-around: all positions are the same bit.\<close>

lemma uint_step_no_wrap:
  assumes "uint h1 + int i * uint h2 < 2 ^ 64"
  shows "uint ((h1 :: u64) + word_of_nat i * h2) = uint h1 + int i * uint h2"
proof -
  have "uint (h1 + word_of_nat i * h2) = (uint h1 + int i * uint h2) mod 2 ^ 64"
    by (simp add: uint_word_ariths unsigned_of_nat take_bit_eq_mod mod_simps zmod_int)
  moreover have "0 \<le> uint h1 + int i * uint h2" by simp
  ultimately show ?thesis using assms by simp
qed

section \<open>Properties\<close>

text \<open>
  C28 Positions. With \<open>m > 0\<close> bits and \<open>k > 0\<close> hash functions that fit in memory there are exactly
  \<open>k\<close> positions, the \<open>i\<close>-th is \<open>(h1 + i * h2) mod 2^64 mod m\<close>, and all are below \<open>m\<close>.
\<close>

theorem positions_spec:
  assumes "m \<noteq> 0" "0 < k" "8 * k \<le> 2 ^ 48"
  shows "\<exists>ps. positions h1 h2 m k = Ok ps \<and> int (length ps) = k
    \<and> (\<forall>i < length ps. uint (ps ! i) = (uint h1 + int i * uint h2) mod 2 ^ 64 mod uint m \<and> ps ! i < m)"
proof -
  let ?ps = "map (\<lambda>i. (h1 + word_of_nat i * h2) mod m) [0..<nat k]"
  have "uint (h1 + word_of_nat i * h2) = (uint h1 + int i * uint h2) mod 2 ^ 64" for i
    by (simp add: uint_word_ariths unsigned_of_nat take_bit_eq_mod mod_simps zmod_int)
  then have "\<forall>i < length ?ps. uint (?ps ! i) = (uint h1 + int i * uint h2) mod 2 ^ 64 mod uint m
      \<and> ?ps ! i < m"
    using assms(1) by (simp add: uint_mod_distrib word_mod_less)
  moreover have "positions h1 h2 m k = Ok ?ps" using assms by (simp add: positions_Ok_iff)
  ultimately show ?thesis using assms(2) by (intro exI [of _ ?ps]) simp
qed

theorem positions_spec_witness:
  "\<exists>ps. positions (2 ^ 64 - 1) 3 10 4 = Ok ps \<and> int (length ps) = 4"
  using positions_spec [of 10 4 "2 ^ 64 - 1" 3] by auto

text \<open>
  The second hash value is never zero (the fix-up of \<open>ensureNonZero\<close>), which alone does not keep
  the positions apart: when it is a multiple of \<open>m\<close> and no sum wraps, all \<open>k\<close> positions are one bit.
\<close>

lemma positions_collapse:
  assumes "positions h1 h2 m k = Ok ps" "uint m dvd uint h2"
    and "uint h1 + k * uint h2 < 2 ^ 64" "p \<in> set ps"
  shows "p = h1 mod m"
proof -
  obtain i where i: "i < nat k" "p = (h1 + word_of_nat i * h2) mod m"
    using assms(1,4) by (auto simp: positions_Ok_iff split: if_splits)
  have "int i * uint h2 \<le> k * uint h2" using i(1) by (intro mult_right_mono) auto
  then have "uint (h1 + word_of_nat i * h2) = uint h1 + int i * uint h2"
    using assms(3) by (intro uint_step_no_wrap) simp
  then have "uint p = uint (h1 mod m)"
    using assms(2) i(2) by (auto simp: uint_mod_distrib dvd_def mod_simps algebra_simps)
      (metis mod_mult_self2 mult.assoc mult.commute)
  then show ?thesis by (simp add: word_uint_eq_iff)
qed

end
