(* ===== verification/Shard.thy ===== *)
theory Shard
  imports Hash
begin

text \<open>
  \<open>pkg/bloom/shard.go\<close>: the split of a bitmap into shards of \<open>2^25\<close> bits. The Go map
  \<open>map[uint64][]uint64\<close> is a finite map; ranging over it visits its entries in an order the caller
  is given.
\<close>

definition ShardBits :: u64 where
  "ShardBits = push_bit 25 1"

record ShardOffset =
  so_shard :: u64
  so_offset :: u64

definition shardFor :: "u64 \<Rightarrow> ShardOffset" where
  "shardFor bitIndex =
     \<lparr>so_shard = bitIndex div ShardBits, so_offset = bitIndex mod ShardBits\<rparr>"

definition group_step :: "u64 \<Rightarrow> (u64, u64 list) fmap \<Rightarrow> (u64, u64 list) fmap" where
  "group_step p groups = (let so = shardFor p;
     old = (case fmlookup groups (so_shard so) of None \<Rightarrow> [] | Some os \<Rightarrow> os)
   in fmupd (so_shard so) (old @ [so_offset so]) groups)"

definition groupByShard :: "u64 list \<Rightarrow> (u64, u64 list) fmap" where
  "groupByShard ps = fold group_step ps fmempty"

type_synonym shard_order = "(u64 \<times> u64 list) list \<Rightarrow> (u64 \<times> u64 list) list"

definition range_groups :: "shard_order \<Rightarrow> (u64, u64 list) fmap \<Rightarrow> (u64 \<times> u64 list) list" where
  "range_groups ord groups = visit ord (sorted_list_of_fmap groups)"

section \<open>Lemmas\<close>

lemma ShardBits_eq: "ShardBits = 2 ^ 25"
  by (simp add: ShardBits_def)

lemma ShardBits_val: "ShardBits = 33554432"
  by (simp add: ShardBits_def)

definition offsets_in :: "u64 \<Rightarrow> u64 list \<Rightarrow> u64 list" where
  "offsets_in sh ps = map (\<lambda>p. p mod ShardBits) (filter (\<lambda>p. p div ShardBits = sh) ps)"

lemma group_fold:
  "fmlookup (fold group_step ps g) sh =
     (case fmlookup g sh of
        None \<Rightarrow> if offsets_in sh ps = [] then None else Some (offsets_in sh ps)
      | Some os \<Rightarrow> Some (os @ offsets_in sh ps))"
proof (induction ps arbitrary: g)
  case Nil
  then show ?case by (simp add: offsets_in_def split: option.split)
next
  case (Cons p ps)
  show ?case
    by (simp only: fold.simps comp_apply Cons.IH)
      (auto simp: group_step_def shardFor_def offsets_in_def Let_def split: option.split)
qed

lemma groupByShard_lookup:
  "fmlookup (groupByShard ps) sh =
     (if offsets_in sh ps = [] then None else Some (offsets_in sh ps))"
  by (simp add: groupByShard_def group_fold)

lemma set_sorted_list_of_fmap:
  "set (sorted_list_of_fmap m) = {(k, v). fmlookup m k = Some v}"
  by (auto simp: sorted_list_of_fmap_def image_iff fmlookup_dom_iff)

lemma range_groups_set:
  "set (range_groups ord (groupByShard ps)) =
     {(sh, offsets_in sh ps) | sh. offsets_in sh ps \<noteq> []}"
  by (auto simp: range_groups_def set_sorted_list_of_fmap groupByShard_lookup
      split: if_splits)

text \<open>Every bit position is in exactly one group, and groups hold nothing else.\<close>

lemma ball_groups:
  "(\<forall>(sh, os) \<in> set (range_groups ord (groupByShard ps)). \<forall>o' \<in> set os. Q sh o')
     \<longleftrightarrow> (\<forall>p \<in> set ps. Q (p div ShardBits) (p mod ShardBits))"
  by (fastforce simp: range_groups_set offsets_in_def filter_empty_conv)

lemma groups_subset_iff:
  "(\<forall>(sh, os) \<in> set (range_groups ord (groupByShard ps)). set os \<subseteq> Q sh)
     \<longleftrightarrow> (\<forall>p \<in> set ps. p mod ShardBits \<in> Q (p div ShardBits))"
  using ball_groups [of ord ps "\<lambda>sh o'. o' \<in> Q sh"] by (simp only: subset_eq)

lemma shard_offset_less: "p mod ShardBits < ShardBits"
  by (rule word_mod_less_divisor) (simp add: ShardBits_val)

lemma shard_join: "p div ShardBits * ShardBits + p mod ShardBits = (p :: u64)"
  by (rule div_mult_mod_eq)

lemma unat_ShardBits: "unat ShardBits = 2 ^ 25"
  by (simp add: ShardBits_val)

lemma sorted_entries:
  "sorted_list_of_fmap m = map (\<lambda>k. (k, the (fmlookup m k))) (sorted_list_of_fset (fmdom m))"
  by (simp add: sorted_list_of_fmap_def)

lemma groupByShard_dom: "fset (fmdom (groupByShard ps)) = (\<lambda>p. p div ShardBits) ` set ps"
  by (auto simp: fmlookup_dom_iff groupByShard_lookup offsets_in_def filter_empty_conv image_iff
      split: if_splits)

lemma join_offsets:
  "map (\<lambda>o'. sh * ShardBits + o') (offsets_in sh ps) = filter (\<lambda>p. p div ShardBits = sh) ps"
  by (induction ps) (auto simp: offsets_in_def shard_join)

section \<open>Properties\<close>

text \<open>
  C27 Grouping loses and invents nothing: in whatever order the map is visited, the shards are
  distinct, no group is empty, a group holds the offsets of its shard's positions in their order, and
  the groups joined back are the positions with their multiplicities.
\<close>

theorem groups_partition:
  "distinct (map fst (range_groups ord (groupByShard ps)))
   \<and> (\<forall>(sh, os) \<in> set (range_groups ord (groupByShard ps)). os \<noteq> []
        \<and> os = map (\<lambda>p. p mod ShardBits) (filter (\<lambda>p. p div ShardBits = sh) ps))
   \<and> mset (concat (map (\<lambda>(sh, os). map (\<lambda>o'. sh * ShardBits + o') os)
        (range_groups ord (groupByShard ps)))) = mset ps"
proof (intro conjI)
  let ?gs = "range_groups ord (groupByShard ps)"
  let ?dom = "sorted_list_of_fset (fmdom (groupByShard ps))"
  have "distinct (map fst (sorted_list_of_fmap (groupByShard ps)))"
    by (simp add: sorted_entries comp_def sorted_list_of_fset.rep_eq)
  then show "distinct (map fst ?gs)" unfolding range_groups_def by (rule distinct_keys_visit)
  show groups: "\<forall>(sh, os) \<in> set ?gs. os \<noteq> []
      \<and> os = map (\<lambda>p. p mod ShardBits) (filter (\<lambda>p. p div ShardBits = sh) ps)"
    by (auto simp: range_groups_set offsets_in_def)
  have "mset (map (\<lambda>(sh, os). map (\<lambda>o'. sh * ShardBits + o') os) ?gs)
      = mset (map (\<lambda>(sh, os). map (\<lambda>o'. sh * ShardBits + o') os)
          (sorted_list_of_fmap (groupByShard ps)))"
    by (simp add: range_groups_def)
  then have "mset (concat (map (\<lambda>(sh, os). map (\<lambda>o'. sh * ShardBits + o') os) ?gs))
      = mset (concat (map (\<lambda>(sh, os). map (\<lambda>o'. sh * ShardBits + o') os)
          (sorted_list_of_fmap (groupByShard ps))))"
    by (rule mset_concat_cong)
  also have "map (\<lambda>(sh, os). map (\<lambda>o'. sh * ShardBits + o') os)
      (sorted_list_of_fmap (groupByShard ps))
    = map (\<lambda>sh. filter (\<lambda>p. p div ShardBits = sh) ps) ?dom"
    unfolding sorted_entries map_map
  proof (rule map_cong)
    fix sh
    assume "sh \<in> set ?dom"
    then have "fmlookup (groupByShard ps) sh = Some (offsets_in sh ps)"
      by (auto simp: sorted_list_of_fset.rep_eq fmlookup_dom_iff groupByShard_lookup split: if_splits)
    then show "((\<lambda>(sh, os). map (\<lambda>o'. sh * ShardBits + o') os)
        \<circ> (\<lambda>k. (k, the (fmlookup (groupByShard ps) k)))) sh = filter (\<lambda>p. p div ShardBits = sh) ps"
      by (simp add: join_offsets)
  qed simp
  also have "mset (concat \<dots>) = mset (filter (\<lambda>p. p div ShardBits \<in> set ?dom) ps)"
    by (rule mset_buckets) (simp add: sorted_list_of_fset.rep_eq)
  also have "filter (\<lambda>p. p div ShardBits \<in> set ?dom) ps = ps"
    using groupByShard_dom by (auto simp: filter_id_conv sorted_list_of_fset.rep_eq)
  finally show "mset (concat (map (\<lambda>(sh, os). map (\<lambda>o'. sh * ShardBits + o') os) ?gs)) = mset ps" .
qed

theorem groups_partition_witness:
  "mset (concat (map (\<lambda>(sh, os). map (\<lambda>o'. sh * ShardBits + o') os)
     (range_groups rev (groupByShard [1, 33554433, 2])))) = mset [1, 33554433, 2]"
  using groups_partition [of rev "[1, 33554433, 2]"] by blast

end
