(* ===== verification/Strconv.thy ===== *)
theory Strconv
  imports Prelude
begin

text \<open>
  The part of Go's \<open>strconv\<close> and \<open>fmt\<close> the repository stores and reads its metadata with: decimal
  formatting and parsing of \<open>uint64\<close>, \<open>int64\<close> and \<open>int\<close>, and the \<open>%d\<close> verb of \<open>Sscanf\<close>. Parsing is
  written as the library's left-to-right loop, with its syntax and range errors.
\<close>

section \<open>Decimal text\<close>

definition digit_char :: "int \<Rightarrow> char" where
  "digit_char d = char_of (48 + nat d)"

definition digit_of :: "char \<Rightarrow> int option" where
  "digit_of c = (let d = int (of_char c) - 48 in if 0 \<le> d \<and> d \<le> 9 then Some d else None)"

function dec :: "int \<Rightarrow> string" where
  "dec n = (if n < 10 then [digit_char n] else dec (n div 10) @ [digit_char (n mod 10)])"
  by pat_completeness auto
termination
  by (relation "measure nat") auto

declare dec.simps [simp del]

definition FormatUint :: "u64 \<Rightarrow> string" where
  "FormatUint w = dec (uint w)"

definition Itoa :: "int \<Rightarrow> string" where
  "Itoa i = (if i < 0 then CHR ''-'' # dec (- i) else dec i)"

definition FormatInt :: "i64 \<Rightarrow> string" where
  "FormatInt w = Itoa (sint w)"

section \<open>Parsing\<close>

datatype num_result = Num int | BadSyntax | BadRange

text \<open>The loop of \<open>ParseUint\<close> in base 10: stop at the first bad byte or at the first overflow.\<close>

fun uint_loop :: "int \<Rightarrow> string \<Rightarrow> num_result" where
  "uint_loop n [] = Num n"
| "uint_loop n (c # cs) = (case digit_of c of None \<Rightarrow> BadSyntax
     | Some d \<Rightarrow> if 2 ^ 64 \<le> 10 * n + d then BadRange else uint_loop (10 * n + d) cs)"

definition parse_uint :: "string \<Rightarrow> num_result" where
  "parse_uint s = (if s = [] then BadSyntax else uint_loop 0 s)"

definition ParseUint :: "string \<Rightarrow> u64 res" where
  "ParseUint s = (case parse_uint s of Num n \<Rightarrow> Ok (word_of_int n)
     | BadSyntax \<Rightarrow> Err (NumErrSyntax ''ParseUint'' s)
     | BadRange \<Rightarrow> Err (NumErrRange ''ParseUint'' s))"

text \<open>\<open>ParseInt\<close> and \<open>Atoi\<close>: an optional sign, then the digits, then the signed range.\<close>

definition signed_range :: "bool \<Rightarrow> num_result \<Rightarrow> num_result" where
  "signed_range neg r = (case r of
     Num n \<Rightarrow> if \<not> neg \<and> 2 ^ 63 \<le> n \<or> neg \<and> 2 ^ 63 < n then BadRange
             else Num (if neg then - n else n)
   | BadSyntax \<Rightarrow> BadSyntax | BadRange \<Rightarrow> BadRange)"

fun parse_int :: "string \<Rightarrow> num_result" where
  "parse_int [] = BadSyntax"
| "parse_int (c # cs) = (if c = CHR ''-'' then signed_range True (parse_uint cs)
     else if c = CHR ''+'' then signed_range False (parse_uint cs)
     else signed_range False (parse_uint (c # cs)))"

definition Atoi :: "string \<Rightarrow> int res" where
  "Atoi s = (case parse_int s of Num n \<Rightarrow> Ok n
     | BadSyntax \<Rightarrow> Err (NumErrSyntax ''Atoi'' s)
     | BadRange \<Rightarrow> Err (NumErrRange ''Atoi'' s))"

definition ParseInt :: "string \<Rightarrow> i64 res" where
  "ParseInt s = (case parse_int s of Num n \<Rightarrow> Ok (word_of_int n)
     | BadSyntax \<Rightarrow> Err (NumErrSyntax ''ParseInt'' s)
     | BadRange \<Rightarrow> Err (NumErrRange ''ParseInt'' s))"

text \<open>
  \<open>Sscanf(v, "%d", &x)\<close>: skip blanks, take an optional sign and the longest run of digits (at
  least one), parse that as an \<open>int64\<close>; what follows is not looked at.
\<close>

definition is_blank :: "char \<Rightarrow> bool" where
  "is_blank c \<longleftrightarrow> of_char c \<in> {9, 11, 12, 13, 32 :: nat}"

definition digit_run :: "string \<Rightarrow> string" where
  "digit_run s = takeWhile (\<lambda>c. digit_of c \<noteq> None) s"

definition Sscanf_d :: "string \<Rightarrow> i64 res" where
  "Sscanf_d v = (let s = dropWhile is_blank v;
     (sg, ds) = (case s of c # cs \<Rightarrow> if c = CHR ''-'' \<or> c = CHR ''+'' then ([c], cs) else ([], s)
                 | [] \<Rightarrow> ([], []));
     run = digit_run ds
   in if ds = [] then Err (ErrorText ''unexpected EOF'')
      else if hd s = CHR 10 then Err (ErrorText ''unexpected newline'')
      else if run = [] then Err (ErrorText ''expected integer'') else ParseInt (sg @ run))"

section \<open>Round trips\<close>

text \<open>
  The verb \<open>%q\<close> for a string: quoted, with the escapes of the quote, the backslash and the control
  characters. (Runes outside ASCII are kept, as Go does for the printable ones.)
\<close>

definition hex_digit :: "nat \<Rightarrow> char" where
  "hex_digit d = (if d < 10 then char_of (48 + d) else char_of (87 + d))"

definition quote_char :: "char \<Rightarrow> string" where
  "quote_char c = (let n = (of_char c :: nat) in
     if n = 34 \<or> n = 92 then [CHR 92, c]
     else if 7 \<le> n \<and> n \<le> 13 then [CHR 92, ''abtnvfr'' ! (n - 7)]
     else if n < 32 \<or> n = 127 then [CHR 92, CHR ''x'', hex_digit (n div 16), hex_digit (n mod 16)]
     else [c])"

definition Quote :: "string \<Rightarrow> string" where
  "Quote s = CHR 34 # concat (map quote_char s) @ [CHR 34]"

lemma dec_nonempty [simp]: "dec n \<noteq> []"
  by (subst dec.simps) simp

lemma digit_char_inverse [simp]: "0 \<le> d \<Longrightarrow> d < 10 \<Longrightarrow> digit_of (digit_char d) = Some d"
  by (auto simp: digit_char_def digit_of_def of_char_of Let_def)

lemma dec_digits: "0 \<le> n \<Longrightarrow> c \<in> set (dec n) \<Longrightarrow> digit_of c \<noteq> None"
proof (induction n rule: dec.induct)
  case (1 n)
  show ?case
  proof (cases "n < 10")
    case True
    with 1(2,3) show ?thesis by (simp add: dec.simps [of n])
  next
    case False
    with 1 show ?thesis
      by (auto simp: dec.simps [of n])
  qed
qed

lemma uint_loop_append:
  "uint_loop n (xs @ ys) = (case uint_loop n xs of Num m \<Rightarrow> uint_loop m ys | r \<Rightarrow> r)"
  by (induction n xs rule: uint_loop.induct) (auto split: option.splits)

lemma uint_loop_dec: "0 \<le> n \<Longrightarrow> n < 2 ^ 64 \<Longrightarrow> uint_loop 0 (dec n) = Num n"
proof (induction n rule: dec.induct)
  case (1 n)
  show ?case
  proof (cases "n < 10")
    case True
    with 1(2,3) show ?thesis by (simp add: dec.simps [of n])
  next
    case False
    with 1 have "uint_loop 0 (dec (n div 10)) = Num (n div 10)" by simp
    moreover have "10 * (n div 10) + n mod 10 = n" by simp
    ultimately show ?thesis using False 1(2,3)
      by (simp add: dec.simps [of n] uint_loop_append)
  qed
qed

lemma parse_uint_dec: "0 \<le> n \<Longrightarrow> n < 2 ^ 64 \<Longrightarrow> parse_uint (dec n) = Num n"
  by (simp add: parse_uint_def uint_loop_dec)

lemma ParseUint_FormatUint [simp]: "ParseUint (FormatUint w) = Ok w"
proof -
  have "uint w < 2 ^ 64" using uint_lt2p [of w] by simp
  then show ?thesis by (simp add: ParseUint_def FormatUint_def parse_uint_dec)
qed

lemma dec_hd_not_sign: "0 \<le> n \<Longrightarrow> dec n = c # cs \<Longrightarrow> c \<noteq> CHR ''-'' \<and> c \<noteq> CHR ''+''"
proof -
  assume "0 \<le> n" "dec n = c # cs"
  then have "digit_of c \<noteq> None" using dec_digits [of n c] by simp
  then show ?thesis by (auto simp: digit_of_def)
qed

lemma parse_int_dec: "0 \<le> n \<Longrightarrow> parse_int (dec n) = signed_range False (parse_uint (dec n))"
  using dec_hd_not_sign [of n] by (cases "dec n") auto

lemma parse_int_Itoa: "- (2 ^ 63) \<le> i \<Longrightarrow> i < 2 ^ 63 \<Longrightarrow> parse_int (Itoa i) = Num i"
  by (auto simp: Itoa_def parse_int_dec parse_uint_dec signed_range_def)

lemma Atoi_Itoa [simp]: "- (2 ^ 63) \<le> i \<Longrightarrow> i < 2 ^ 63 \<Longrightarrow> Atoi (Itoa i) = Ok i"
  by (simp add: Atoi_def parse_int_Itoa)

lemma sint_range: "- (2 ^ 63) \<le> sint (w :: i64)" "sint (w :: i64) < 2 ^ 63"
  using sint_greater_eq [of w] sint_less [of w] by simp_all

lemma ParseInt_FormatInt [simp]: "ParseInt (FormatInt w) = Ok w"
  using sint_range [of w] by (simp add: ParseInt_def FormatInt_def parse_int_Itoa)

lemma Atoi_FormatInt [simp]: "Atoi (FormatInt w) = Ok (sint w)"
  using sint_range [of w] by (simp add: FormatInt_def)

lemma FormatInt_inject [simp]: "FormatInt c = FormatInt d \<longleftrightarrow> c = d"
  by (metis ParseInt_FormatInt res.inject(1))

text \<open>A counter that is not negative reads back as the same word; a negative one does not parse.\<close>

lemma ParseUint_FormatInt: "0 \<le> sint w \<Longrightarrow> ParseUint (FormatInt w) = Ok w"
  using sint_range [of w]
  by (simp add: ParseUint_def FormatInt_def Itoa_def parse_uint_dec)

lemma ParseUint_FormatInt_neg:
  "sint w < 0 \<Longrightarrow> ParseUint (FormatInt w) = Err (NumErrSyntax ''ParseUint'' (FormatInt w))"
  by (simp add: ParseUint_def FormatInt_def Itoa_def parse_uint_def digit_of_def)

section \<open>What a successful parse says\<close>

lemma uint_loop_range: "uint_loop n s = Num m \<Longrightarrow> 0 \<le> n \<Longrightarrow> n < 2 ^ 64 \<Longrightarrow> 0 \<le> m \<and> m < 2 ^ 64"
proof (induction n s rule: uint_loop.induct)
  case (2 n c cs)
  have "0 \<le> d" if "digit_of c = Some d" for d
    using that by (auto simp: digit_of_def Let_def split: if_splits)
  with 2 show ?case by (auto split: option.splits if_splits)
qed simp

lemma uint_loop_digits: "uint_loop n s = Num m \<Longrightarrow> c \<in> set s \<Longrightarrow> digit_of c \<noteq> None"
  by (induction n s rule: uint_loop.induct) (auto split: option.splits if_splits)

lemma parse_uint_nonneg: "parse_uint s = Num m \<Longrightarrow> 0 \<le> m \<and> m < 2 ^ 64"
  using uint_loop_range [of 0 s m] by (simp add: parse_uint_def split: if_splits)

lemma parse_int_range: "parse_int s = Num m \<Longrightarrow> - (2 ^ 63) \<le> m \<and> m < 2 ^ 63"
  by (cases s) (auto simp: signed_range_def dest!: parse_uint_nonneg
      split: if_splits num_result.splits)

lemma Atoi_range: "Atoi s = Ok n \<Longrightarrow> - (2 ^ 63) \<le> n \<and> n < 2 ^ 63"
  using parse_int_range [of s n] by (simp add: Atoi_def split: num_result.splits)

lemma Atoi_empty [simp]: "Atoi [] = Err (NumErrSyntax ''Atoi'' [])"
  by (simp add: Atoi_def)

lemma ParseUint_empty [simp]: "ParseUint [] = Err (NumErrSyntax ''ParseUint'' [])"
  by (simp add: ParseUint_def parse_uint_def)

lemma no_Panic [simp]: "ParseUint s \<noteq> Panic p" "Atoi s \<noteq> Panic p" "ParseInt s \<noteq> Panic p"
    "Sscanf_d s \<noteq> Panic p"
  by (auto simp: ParseUint_def Atoi_def ParseInt_def Sscanf_d_def Let_def
      split: num_result.splits list.splits prod.splits if_splits)

text \<open>\<open>Sscanf\<close> reads what \<open>Atoi\<close> reads.\<close>

lemma digit_not_blank: "digit_of c \<noteq> None \<Longrightarrow> \<not> is_blank c"
  by (auto simp: digit_of_def is_blank_def Let_def split: if_splits)

lemma parse_uint_run: "parse_uint s = Num m \<Longrightarrow> digit_run s = s \<and> s \<noteq> []"
  by (auto simp: parse_uint_def digit_run_def takeWhile_eq_all_conv
      dest: uint_loop_digits split: if_splits)

lemma Sscanf_d_Atoi: "Atoi s = Ok n \<Longrightarrow> Sscanf_d s = Ok (word_of_int n)"
proof (cases s)
  case (Cons c cs)
  assume "Atoi s = Ok n"
  then have p: "parse_int (c # cs) = Num n"
    using Cons by (auto simp: Atoi_def simp del: parse_int.simps split: num_result.splits)
  show ?thesis
  proof (cases "c = CHR ''-'' \<or> c = CHR ''+''")
    case True
    then obtain m where "parse_uint cs = Num m"
      using p by (auto simp: signed_range_def split: num_result.splits if_splits)
    then have "digit_run cs = cs" "cs \<noteq> []" by (simp_all add: parse_uint_run)
    moreover have "\<not> is_blank c" "c \<noteq> CHR 10" using True by (auto simp: is_blank_def)
    ultimately show ?thesis using True Cons p
      by (simp add: Sscanf_d_def ParseInt_def)
  next
    case False
    then obtain m where m: "parse_uint (c # cs) = Num m"
      using p by (auto simp: signed_range_def split: num_result.splits if_splits)
    then have run: "digit_run (c # cs) = c # cs" by (simp add: parse_uint_run)
    then have "digit_of c \<noteq> None" by (auto simp: digit_run_def split: if_splits)
    then have "\<not> is_blank c" "c \<noteq> CHR 10" by (auto simp: digit_not_blank digit_of_def)
    then show ?thesis using False Cons p run
      by (simp add: Sscanf_d_def ParseInt_def)
  qed
qed simp

end
