(* ===== verification/Store.thy ===== *)
theory Store
  imports Strconv
begin

text \<open>
  \<open>pkg/store/store.go\<close>: the \<open>BitStore\<close> interface, as a record of its methods over an arbitrary store
  state, and the contract the filter code relies on, as a locale. The contract is stated over a
  view of the state: the set bits of each bitmap, the fields of each hash, the value of each
  counter and the members of each set.

  A store may fail: every law allows an error, and then the operation has either not happened or
  happened (for a pipelined \<open>SetBits\<close>, happened for some of the offsets). What an operation
  returns without error is exact. The second locale is the contract of a store that never fails.
\<close>

record 's bitstore =
  SetBits :: "string \<Rightarrow> u64 list \<Rightarrow> ('s, unit) call"
  GetBits :: "string \<Rightarrow> u64 list \<Rightarrow> ('s, bool list) call"
  HGetAll :: "string \<Rightarrow> ('s, fields) call"
  HSet :: "string \<Rightarrow> fields \<Rightarrow> ('s, unit) call"
  Incr :: "string \<Rightarrow> ('s, i64) call"
  Get :: "string \<Rightarrow> ('s, string \<times> bool) call"
  SAdd :: "string \<Rightarrow> string list \<Rightarrow> ('s, unit) call"
  SRem :: "string \<Rightarrow> string list \<Rightarrow> ('s, unit) call"
  SMembers :: "string \<Rightarrow> ('s, string list) call"
  Del :: "string list \<Rightarrow> ('s, unit) call"
  AppendStage :: "string \<Rightarrow> i64 \<Rightarrow> fields \<Rightarrow> string \<Rightarrow> ('s, i64) call"

record view =
  vbits :: "string \<Rightarrow> u64 set"
  vhash :: "string \<Rightarrow> fields"
  vctr :: "string \<Rightarrow> i64 option"
  vset :: "string \<Rightarrow> string set"

definition v_setbits :: "string \<Rightarrow> u64 set \<Rightarrow> view \<Rightarrow> view" where
  "v_setbits k os v = v\<lparr>vbits := (vbits v)(k := vbits v k \<union> os)\<rparr>"

definition v_hset :: "string \<Rightarrow> fields \<Rightarrow> view \<Rightarrow> view" where
  "v_hset k fs v = v\<lparr>vhash := (vhash v)(k := fmadd (vhash v k) fs)\<rparr>"

definition ctr_next :: "i64 option \<Rightarrow> i64" where
  "ctr_next c = (case c of None \<Rightarrow> 1 | Some n \<Rightarrow> n + 1)"

definition v_incr :: "string \<Rightarrow> view \<Rightarrow> view" where
  "v_incr k v = v\<lparr>vctr := (vctr v)(k := Some (ctr_next (vctr v k)))\<rparr>"

definition v_sadd :: "string \<Rightarrow> string list \<Rightarrow> view \<Rightarrow> view" where
  "v_sadd k ms v = v\<lparr>vset := (vset v)(k := vset v k \<union> set ms)\<rparr>"

definition v_srem :: "string \<Rightarrow> string list \<Rightarrow> view \<Rightarrow> view" where
  "v_srem k ms v = v\<lparr>vset := (vset v)(k := vset v k - set ms)\<rparr>"

definition v_del :: "string list \<Rightarrow> view \<Rightarrow> view" where
  "v_del ks v = \<lparr>vbits = (\<lambda>k. if k \<in> set ks then {} else vbits v k),
     vhash = (\<lambda>k. if k \<in> set ks then fmempty else vhash v k),
     vctr = (\<lambda>k. if k \<in> set ks then None else vctr v k),
     vset = (\<lambda>k. if k \<in> set ks then {} else vset v k)\<rparr>"

definition v_append :: "string \<Rightarrow> i64 \<Rightarrow> fields \<Rightarrow> string \<Rightarrow> view \<Rightarrow> view" where
  "v_append mk expected h nk v = v\<lparr>vhash := (vhash v)(nk := h,
     mk := fmupd ''stage_count'' (FormatInt (expected + 1)) (vhash v mk))\<rparr>"

lemmas view_ops = v_setbits_def v_hset_def v_incr_def v_sadd_def v_srem_def v_del_def v_append_def

section \<open>Key kinds\<close>

text \<open>
  The filter code uses every key for one type of value only, and the last segment of the key says for
  which. The contract speaks of an operation only on keys of its kind: a store that has one value per
  key, as Valkey has, reports an error on the others.
\<close>

datatype key_kind = HashKey | CounterKey | SetKey | BitKey

definition last_segment :: "string \<Rightarrow> string" where
  "last_segment k = rev (takeWhile (\<lambda>c. c \<noteq> CHR '':'') (rev k))"

definition kind_of :: "string \<Rightarrow> key_kind" where
  "kind_of k = (let l = last_segment k in
     if l = ''meta'' then HashKey else if l = ''fill'' then CounterKey
     else if l = ''registry'' then SetKey else BitKey)"

lemma last_segment_colon: "CHR '':'' \<notin> set u \<Longrightarrow> last_segment (xs @ CHR '':'' # u) = u"
  by (simp add: last_segment_def takeWhile_append)

lemma kind_of_colon:
  "kind_of (xs @ '':meta'') = HashKey" "kind_of (xs @ '':fill'') = CounterKey"
  "kind_of (xs @ '':registry'') = SetKey"
  "CHR '':'' \<notin> set u \<Longrightarrow> kind_of (xs @ '':sh'' @ u) = BitKey"
  using last_segment_colon [of "''meta''" xs] last_segment_colon [of "''fill''" xs]
    last_segment_colon [of "''registry''" xs] last_segment_colon [of "''sh'' @ u" xs]
  by (simp_all add: kind_of_def Let_def)

section \<open>The contract\<close>

text \<open>
  \<open>failing\<close> says whether operations may report an error of the store's own (a lost connection, a
  cancelled context).
\<close>

locale bit_store =
  fixes B :: "'s bitstore" and view :: "'s \<Rightarrow> view" and failing :: bool
  assumes SetBits_law: "\<And>k os s r t. SetBits B k os s = (r, t) \<Longrightarrow> kind_of k = BitKey \<Longrightarrow>
      (r = Ok () \<and> view t = v_setbits k (set os) (view s))
      \<or> (failing \<and> (\<exists>e os'. r = Err e \<and> os' \<subseteq> set os \<and> view t = v_setbits k os' (view s)))"
    and GetBits_law: "\<And>k os s r t. GetBits B k os s = (r, t) \<Longrightarrow> kind_of k = BitKey \<Longrightarrow> view t = view s
      \<and> (r = Ok (map (\<lambda>o'. o' \<in> vbits (view s) k) os) \<or> (failing \<and> (\<exists>e. r = Err e)))"
    and HGetAll_law: "\<And>k s r t. HGetAll B k s = (r, t) \<Longrightarrow> kind_of k = HashKey \<Longrightarrow> view t = view s
      \<and> (r = Ok (vhash (view s) k) \<or> (failing \<and> (\<exists>e. r = Err e)))"
    and HSet_law: "\<And>k fs s r t. HSet B k fs s = (r, t) \<Longrightarrow> kind_of k = HashKey \<Longrightarrow>
      (r = Ok () \<and> view t = v_hset k fs (view s))
      \<or> (failing \<and> (\<exists>e. r = Err e) \<and> view t \<in> {view s, v_hset k fs (view s)})"
    and Incr_law: "\<And>k s r t. Incr B k s = (r, t) \<Longrightarrow> kind_of k = CounterKey \<Longrightarrow>
      (r = Ok (ctr_next (vctr (view s) k)) \<and> view t = v_incr k (view s))
      \<or> (failing \<and> (\<exists>e. r = Err e) \<and> view t \<in> {view s, v_incr k (view s)})"
    and Get_law: "\<And>k s r t. Get B k s = (r, t) \<Longrightarrow> kind_of k = CounterKey \<Longrightarrow> view t = view s
      \<and> (r = Ok (case vctr (view s) k of None \<Rightarrow> ([], False) | Some c \<Rightarrow> (FormatInt c, True))
         \<or> (failing \<and> (\<exists>e. r = Err e)))"
    and SAdd_law: "\<And>k ms s r t. SAdd B k ms s = (r, t) \<Longrightarrow> kind_of k = SetKey \<Longrightarrow>
      (r = Ok () \<and> view t = v_sadd k ms (view s))
      \<or> (failing \<and> (\<exists>e. r = Err e) \<and> view t \<in> {view s, v_sadd k ms (view s)})"
    and SRem_law: "\<And>k ms s r t. SRem B k ms s = (r, t) \<Longrightarrow> kind_of k = SetKey \<Longrightarrow>
      (r = Ok () \<and> view t = v_srem k ms (view s))
      \<or> (failing \<and> (\<exists>e. r = Err e) \<and> view t \<in> {view s, v_srem k ms (view s)})"
    and SMembers_law: "\<And>k s r t. SMembers B k s = (r, t) \<Longrightarrow> kind_of k = SetKey \<Longrightarrow> view t = view s
      \<and> ((\<exists>ms. r = Ok ms \<and> set ms = vset (view s) k \<and> distinct ms)
         \<or> (failing \<and> (\<exists>e. r = Err e)))"
    and Del_law: "\<And>ks s r t. Del B ks s = (r, t) \<Longrightarrow>
      (r = Ok () \<and> view t = v_del ks (view s))
      \<or> (failing \<and> (\<exists>e. r = Err e) \<and> view t \<in> {view s, v_del ks (view s)})"
    and AppendStage_win: "\<And>mk x fs nk s r t. AppendStage B mk x fs nk s = (r, t) \<Longrightarrow> kind_of mk = HashKey \<Longrightarrow> kind_of nk = HashKey \<Longrightarrow>
      nk \<noteq> mk \<Longrightarrow> fmlookup (vhash (view s) mk) ''stage_count'' = Some (FormatInt x) \<Longrightarrow>
      sint x < 2 ^ 63 - 1 \<Longrightarrow>
      (\<exists>h. fmsubset fs h \<and> view t = v_append mk x h nk (view s)
          \<and> (r = Ok (x + 1) \<or> (failing \<and> (\<exists>e. r = Err e))))
      \<or> (failing \<and> view t = view s \<and> (\<exists>e. r = Err e))"
    and AppendStage_lose: "\<And>mk x fs nk s r t c. AppendStage B mk x fs nk s = (r, t) \<Longrightarrow> kind_of mk = HashKey \<Longrightarrow> kind_of nk = HashKey \<Longrightarrow>
      fmlookup (vhash (view s) mk) ''stage_count'' = Some (FormatInt c) \<Longrightarrow> c \<noteq> x \<Longrightarrow>
      view t = view s \<and> (r = Ok c \<or> (failing \<and> (\<exists>e. r = Err e)))"
    and AppendStage_none: "\<And>mk x fs nk s r t. AppendStage B mk x fs nk s = (r, t) \<Longrightarrow> kind_of mk = HashKey \<Longrightarrow> kind_of nk = HashKey \<Longrightarrow>
      fmlookup (vhash (view s) mk) ''stage_count'' = None \<Longrightarrow> x \<noteq> 0 \<Longrightarrow>
      view t = view s \<and> (r = Ok 0 \<or> (\<exists>e. r = Err e))"

locale reliable_store = bit_store B view False for B :: "'s bitstore" and view

section \<open>Calls that only read\<close>

text \<open>
  \<open>reads failing view c g\<close>: the call \<open>c\<close> leaves the view as it is and returns \<open>g\<close> of the view, or
  an error of the store when the store may fail. The rules follow the way calls are put together,
  so the law of a read-only function of the code is derived from its text.
\<close>

definition reads :: "bool \<Rightarrow> ('s \<Rightarrow> view) \<Rightarrow> ('s, 'a) call \<Rightarrow> (view \<Rightarrow> 'a res) \<Rightarrow> bool" where
  "reads failing vw c g \<longleftrightarrow> (\<forall>s r t. c s = (r, t) \<longrightarrow>
     vw t = vw s \<and> (r = g (vw s) \<or> failing \<and> (\<exists>e. r = Err e)))"

named_theorems reads_intros \<open>calls that only read\<close>

lemma readsD:
  "reads failing vw c g \<Longrightarrow> c s = (r, t) \<Longrightarrow>
     vw t = vw s \<and> (r = g (vw s) \<or> failing \<and> (\<exists>e. r = Err e))"
  by (simp add: reads_def)

lemma reads_resC [reads_intros]: "reads failing vw (resC r) (\<lambda>_. r)"
  by (simp add: reads_def)

lemma reads_returnC [reads_intros]: "reads failing vw (returnC x) (\<lambda>_. Ok x)"
  by (simp add: reads_def)

lemma reads_wrapC [reads_intros]:
  "reads failing vw c g \<Longrightarrow> reads failing vw (wrapC p c) (\<lambda>v. wrapR p (g v))"
  unfolding reads_def by (metis wrapC_cases wrapR_simps(2))

lemma reads_bindC [reads_intros]:
  assumes "reads failing vw c g" "\<And>x. reads failing vw (f x) (\<lambda>v. h v x)"
  shows "reads failing vw (bindC c f) (\<lambda>v. bindR (g v) (h v))"
  unfolding reads_def
proof (intro allI impI)
  fix s r t
  assume "bindC c f s = (r, t)"
  then show "vw t = vw s \<and> (r = bindR (g (vw s)) (h (vw s)) \<or> failing \<and> (\<exists>e. r = Err e))"
  proof (cases rule: bindC_cases)
    case (ok x u)
    have c: "vw u = vw s" "g (vw s) = Ok x" using readsD [OF assms(1) ok(1)] by auto
    then show ?thesis using readsD [OF assms(2) ok(2)] by simp
  next
    case (err e)
    from readsD [OF assms(1) err(1)] err(2) show ?thesis
      by (metis bindR_simps(2))
  next
    case (panic p)
    from readsD [OF assms(1) panic(1)] panic(2) show ?thesis
      by (metis bindR_simps(3) res.distinct(5))
  qed
qed

lemma reads_if [reads_intros]:
  "(b \<Longrightarrow> reads failing vw c g) \<Longrightarrow> (\<not> b \<Longrightarrow> reads failing vw d h) \<Longrightarrow>
     reads failing vw (if b then c else d) (\<lambda>v. if b then g v else h v)"
  by simp

lemma reads_case_prod [reads_intros]:
  "(\<And>a b. reads failing vw (f a b) (\<lambda>v. h v a b)) \<Longrightarrow>
     reads failing vw (case x of (a, b) \<Rightarrow> f a b) (\<lambda>v. case x of (a, b) \<Rightarrow> h v a b)"
  by (cases x) simp

lemma reads_cong: "reads failing vw c g \<Longrightarrow> (\<And>v. g v = h v) \<Longrightarrow> reads failing vw c h"
  by (simp add: reads_def)

lemma reads_cong_range:
  "reads failing vw c g \<Longrightarrow> (\<And>s. g (vw s) = h (vw s)) \<Longrightarrow> reads failing vw c h"
  by (simp add: reads_def)

context bit_store
begin

lemma reads_HGetAll [reads_intros]: "kind_of k = HashKey \<Longrightarrow> reads failing view (HGetAll B k) (\<lambda>v. Ok (vhash v k))"
  unfolding reads_def using HGetAll_law by blast

lemma reads_GetBits [reads_intros]:
  "kind_of k = BitKey \<Longrightarrow> reads failing view (GetBits B k os) (\<lambda>v. Ok (map (\<lambda>o'. o' \<in> vbits v k) os))"
  unfolding reads_def using GetBits_law by blast

lemma reads_Get [reads_intros]:
  "kind_of k = CounterKey \<Longrightarrow> reads failing view (Get B k)
     (\<lambda>v. Ok (case vctr v k of None \<Rightarrow> ([], False) | Some c \<Rightarrow> (FormatInt c, True)))"
  unfolding reads_def using Get_law by blast

end

end
