(* ===== verification/BloomFilter.thy ===== *)
theory BloomFilter
  imports Sizing Shard Store
begin

text \<open>
  \<open>pkg/bloom/filter.go\<close>: the scalable bloom filter over a \<open>BitStore\<close>. Functions take the platform,
  the store's methods and the store state; the methods with a pointer receiver that write the
  receiver (\<open>Add\<close>, \<open>appendNewStage\<close>, \<open>reload\<close>) run on the pair of the filter value and the store
  state, so what they leave in the filter when they fail is part of the result.
\<close>

record stage =
  st_index :: int
  st_m :: u64
  st_k :: int
  st_capacity :: u64
  st_fill :: u64

record bloom =
  f_name :: string
  f_n :: u64
  f_p :: f64
  f_r :: f64
  f_s :: f64
  f_stages :: "stage list"

record stats =
  ss_name :: string
  ss_n :: u64
  ss_p :: f64
  ss_r :: f64
  ss_s :: f64
  ss_stage_count :: int
  ss_stages :: "stage list"

section \<open>Keys and metadata\<close>

definition registryKey :: string where
  "registryKey = ''bf:registry''"

definition metaKey :: "string \<Rightarrow> string" where
  "metaKey name = ''bf:'' @ name @ '':meta''"

definition stageMetaKey :: "string \<Rightarrow> int \<Rightarrow> string" where
  "stageMetaKey name i = ''bf:'' @ name @ '':s'' @ Itoa i @ '':meta''"

definition shardKey :: "string \<Rightarrow> int \<Rightarrow> u64 \<Rightarrow> string" where
  "shardKey name stage shard =
     ''bf:'' @ name @ '':s'' @ Itoa stage @ '':sh'' @ FormatUint shard"

definition fillKey :: "string \<Rightarrow> int \<Rightarrow> string" where
  "fillKey name i = stageMetaKey name i @ '':fill''"

lemma colon_not_digit: "0 \<le> n \<Longrightarrow> CHR '':'' \<notin> set (dec n)"
  using dec_digits [of n "CHR '':''"] by (auto simp: digit_of_def)

lemma colon_not_Itoa [simp]: "CHR '':'' \<notin> set (Itoa i)"
  by (simp add: Itoa_def colon_not_digit)

lemma colon_not_FormatUint [simp]: "CHR '':'' \<notin> set (FormatUint w)"
  by (simp add: FormatUint_def colon_not_digit)

lemma kinds [simp, reads_intros]:
  "kind_of (metaKey name) = HashKey" "kind_of (stageMetaKey name i) = HashKey"
  "kind_of (fillKey name i) = CounterKey" "kind_of (shardKey name i sh) = BitKey"
  "kind_of registryKey = SetKey"
  using kind_of_colon(1) [of "''bf:'' @ name"] kind_of_colon(1) [of "''bf:'' @ name @ '':s'' @ Itoa i"]
    kind_of_colon(2) [of "''bf:'' @ name @ '':s'' @ Itoa i @ '':meta''"]
    kind_of_colon(4) [of "FormatUint sh" "''bf:'' @ name @ '':s'' @ Itoa i"]
    kind_of_colon(3) [of "''bf''"]
  by (simp_all add: metaKey_def stageMetaKey_def fillKey_def shardKey_def registryKey_def)

text \<open>A missing field of a Go map reads as the empty string.\<close>

definition field :: "fields \<Rightarrow> string \<Rightarrow> string" where
  "field fs k = (case fmlookup fs k of None \<Rightarrow> [] | Some v \<Rightarrow> v)"

definition stageToMap :: "stage \<Rightarrow> fields" where
  "stageToMap s = fmap_of_list
     [(''m'', FormatUint (st_m s)), (''k'', Itoa (st_k s)),
      (''capacity'', FormatUint (st_capacity s)), (''fill_count'', FormatUint (st_fill s))]"

definition mapToStage :: "fields \<Rightarrow> int \<Rightarrow> stage res" where
  "mapToStage fs index =
    bindR (wrapR ''bloom: parse m: '' (ParseUint (field fs ''m''))) (\<lambda>m.
    bindR (wrapR ''bloom: parse k: '' (Atoi (field fs ''k''))) (\<lambda>k.
    bindR (wrapR ''bloom: parse capacity: '' (ParseUint (field fs ''capacity''))) (\<lambda>cap.
    bindR (wrapR ''bloom: parse fill_count: '' (ParseUint (field fs ''fill_count''))) (\<lambda>fill.
    Ok \<lparr>st_index = index, st_m = m, st_k = k, st_capacity = cap, st_fill = fill\<rparr>))))"

definition computeStage :: "platform \<Rightarrow> u64 \<Rightarrow> f64 \<Rightarrow> f64 \<Rightarrow> f64 \<Rightarrow> int \<Rightarrow> stage res" where
  "computeStage P n p r s index =
    bindR (StageError P p index [r]) (\<lambda>pi.
    bindR (StageCapacity P n index [s]) (\<lambda>cap.
    bindR (OptimalM P cap pi) (\<lambda>m.
    bindR (OptimalK P cap m) (\<lambda>k.
    Ok \<lparr>st_index = index, st_m = m, st_k = k, st_capacity = cap, st_fill = 0\<rparr>))))"

section \<open>New and Load\<close>

text \<open>\<open>now\<close> is the text of the current time that \<open>created_at\<close> gets.\<close>

definition filterMeta :: "platform \<Rightarrow> string \<Rightarrow> u64 \<Rightarrow> f64 \<Rightarrow> fields" where
  "filterMeta P now n p = fmap_of_list
     [(''n'', FormatUint n), (''p'', FormatFloat P p), (''r'', FormatFloat P DefaultR),
      (''s'', FormatFloat P DefaultS), (''stage_count'', ''1''), (''created_at'', now)]"

definition New ::
    "platform \<Rightarrow> 's bitstore \<Rightarrow> string \<Rightarrow> string \<Rightarrow> u64 \<Rightarrow> f64 \<Rightarrow> ('s, bloom) call" where
  "New P B now name n p =
    (if name = [] then resC (Err ErrEmptyName)
     else if n = 0 then resC (Err ErrInvalidN)
     else if p \<le> 0 \<or> 1 \<le> p then resC (Err ErrInvalidP)
     else
       bindC (wrapC ''bloom: check existing: '' (HGetAll B (metaKey name))) (\<lambda>existing.
       if existing \<noteq> fmempty then resC (Err ErrFilterExists)
       else
         bindC (resC (computeStage P n p DefaultR DefaultS 0)) (\<lambda>stage0.
         bindC (wrapC ''bloom: write filter meta: ''
           (HSet B (metaKey name) (filterMeta P now n p))) (\<lambda>_.
         bindC (wrapC ''bloom: write stage-0 meta: ''
           (HSet B (stageMetaKey name 0) (stageToMap stage0))) (\<lambda>_.
         bindC (wrapC ''bloom: register filter: '' (SAdd B registryKey [name])) (\<lambda>_.
         returnC \<lparr>f_name = name, f_n = n, f_p = p, f_r = DefaultR, f_s = DefaultS,
           f_stages = [stage0]\<rparr>))))))"

definition load_stage :: "'s bitstore \<Rightarrow> string \<Rightarrow> int \<Rightarrow> ('s, stage) call" where
  "load_stage B name i =
    bindC (wrapC (''bloom: read stage '' @ Itoa i @ '' meta: '')
      (HGetAll B (stageMetaKey name i))) (\<lambda>fs.
    bindC (resC (mapToStage fs i)) (\<lambda>st.
    bindC (wrapC (''bloom: read stage '' @ Itoa i @ '' fill: '') (Get B (fillKey name i)))
      (\<lambda>(fillStr, ok).
        if ok then
          bindC (resC (wrapR (''bloom: parse stage '' @ Itoa i @ '' fill: '')
            (ParseUint fillStr))) (\<lambda>fill. returnC (st\<lparr>st_fill := fill\<rparr>))
        else returnC st)))"

text \<open>The loop over the stages \<open>i, i + 1, \<dots>\<close>, with the number still to read.\<close>

fun load_loop :: "'s bitstore \<Rightarrow> string \<Rightarrow> nat \<Rightarrow> nat \<Rightarrow> ('s, stage list) call" where
  "load_loop B name i 0 = returnC []"
| "load_loop B name i (Suc c) =
    bindC (load_stage B name (int i)) (\<lambda>st.
    bindC (load_loop B name (Suc i) c) (\<lambda>sts. returnC (st # sts)))"

text \<open>A \<open>Stage\<close> takes 40 bytes.\<close>

definition Load :: "platform \<Rightarrow> 's bitstore \<Rightarrow> string \<Rightarrow> ('s, bloom) call" where
  "Load P B name =
    (if name = [] then resC (Err ErrEmptyName)
     else
       bindC (wrapC ''bloom: read filter meta: '' (HGetAll B (metaKey name))) (\<lambda>fs.
       if fs = fmempty then resC (Err ErrNotFound)
       else
         bindC (resC (wrapR ''bloom: parse n: '' (ParseUint (field fs ''n'')))) (\<lambda>n.
         bindC (resC (wrapR ''bloom: parse p: '' (ParseFloat P (field fs ''p'')))) (\<lambda>p.
         bindC (resC (wrapR ''bloom: parse r: '' (ParseFloat P (field fs ''r'')))) (\<lambda>r.
         bindC (resC (wrapR ''bloom: parse s: '' (ParseFloat P (field fs ''s'')))) (\<lambda>growth.
         bindC (resC (wrapR ''bloom: parse stage_count: '' (Atoi (field fs ''stage_count''))))
           (\<lambda>sc.
         bindC (resC (makeslice 40 sc)) (\<lambda>_.
         bindC (load_loop B name 0 (nat sc)) (\<lambda>stages.
         returnC \<lparr>f_name = name, f_n = n, f_p = p, f_r = r, f_s = growth,
           f_stages = stages\<rparr>)))))))))"

section \<open>Add\<close>

definition reload :: "platform \<Rightarrow> 's bitstore \<Rightarrow> (bloom \<times> 's, unit) call" where
  "reload P B =
    bindC getF (\<lambda>f.
    bindC (wrapC ''bloom: reload after race: '' (onStore (Load P B (f_name f)))) (\<lambda>reloaded.
    putF (f\<lparr>f_stages := f_stages reloaded\<rparr>)))"

definition appendNewStage :: "platform \<Rightarrow> 's bitstore \<Rightarrow> (bloom \<times> 's, unit) call" where
  "appendNewStage P B =
    bindC getF (\<lambda>f.
    let idx = int (length (f_stages f)); w = (word_of_int idx :: i64) in
    bindC (resC (wrapR (''bloom: compute stage '' @ Itoa idx @ '': '')
      (computeStage P (f_n f) (f_p f) (f_r f) (f_s f) idx))) (\<lambda>newStage.
    bindC (wrapC ''bloom: append stage: '' (onStore
      (AppendStage B (metaKey (f_name f)) w (stageToMap newStage) (stageMetaKey (f_name f) idx))))
      (\<lambda>newCount.
    if sint (w + 1) < sint newCount then reload P B
    else putF (f\<lparr>f_stages := f_stages f @ [newStage]\<rparr>))))"

fun set_groups ::
    "'s bitstore \<Rightarrow> string \<Rightarrow> int \<Rightarrow> (u64 \<times> u64 list) list \<Rightarrow> ('s, unit) call" where
  "set_groups B name idx [] = returnC ()"
| "set_groups B name idx ((shard, offsets) # gs) =
    bindC (wrapC (''bloom: set bits shard '' @ FormatUint shard @ '': '')
      (SetBits B (shardKey name idx shard) offsets)) (\<lambda>_.
    set_groups B name idx gs)"

definition Add ::
    "platform \<Rightarrow> 's bitstore \<Rightarrow> shard_order \<Rightarrow> bytes \<Rightarrow> (bloom \<times> 's, unit) call" where
  "Add P B ord item =
    bindC getF (\<lambda>f.
    if f_stages f = [] then resC (Panic ''runtime error: index out of range [-1]'')
    else let cur = last (f_stages f); (h1, h2) = hashParts P item in
      bindC (resC (positions h1 h2 (st_m cur) (st_k cur))) (\<lambda>pos.
      bindC (onStore (set_groups B (f_name f) (st_index cur)
        (range_groups ord (groupByShard pos)))) (\<lambda>_.
      bindC (wrapC ''bloom: incr fill: ''
        (onStore (Incr B (fillKey (f_name f) (st_index cur))))) (\<lambda>newFill.
      bindC (putF (f\<lparr>f_stages := butlast (f_stages f) @ [cur\<lparr>st_fill := newFill\<rparr>]\<rparr>)) (\<lambda>_.
      if st_capacity cur \<le> newFill then appendNewStage P B else returnC ())))))"

section \<open>Exists, Stats, Drop\<close>

text \<open>The groups of one stage, until one has a bit that is not set.\<close>

fun groups_all_set ::
    "'s bitstore \<Rightarrow> string \<Rightarrow> int \<Rightarrow> (u64 \<times> u64 list) list \<Rightarrow> ('s, bool) call" where
  "groups_all_set B name idx [] = returnC True"
| "groups_all_set B name idx ((shard, offsets) # gs) =
    bindC (wrapC (''bloom: get bits shard '' @ FormatUint shard @ '': '')
      (GetBits B (shardKey name idx shard) offsets)) (\<lambda>bits.
    if False \<in> set bits then returnC False else groups_all_set B name idx gs)"

text \<open>
  The stages from newest to oldest; \<open>ords i\<close> is the order in which the groups of the stage at
  position \<open>i\<close> are visited.
\<close>

fun exists_loop :: "'s bitstore \<Rightarrow> (nat \<Rightarrow> shard_order) \<Rightarrow> string \<Rightarrow> u64 \<Rightarrow> u64 \<Rightarrow> stage list
    \<Rightarrow> ('s, bool) call" where
  "exists_loop B ords name h1 h2 [] = returnC False"
| "exists_loop B ords name h1 h2 (st # older) =
    bindC (resC (positions h1 h2 (st_m st) (st_k st))) (\<lambda>pos.
    bindC (groups_all_set B name (st_index st)
      (range_groups (ords (length older)) (groupByShard pos))) (\<lambda>allSet.
    if allSet then returnC True else exists_loop B ords name h1 h2 older))"

definition Exists :: "platform \<Rightarrow> 's bitstore \<Rightarrow> (nat \<Rightarrow> shard_order) \<Rightarrow> bytes \<Rightarrow> bloom
    \<Rightarrow> ('s, bool) call" where
  "Exists P B ords item f =
    (let (h1, h2) = hashParts P item in exists_loop B ords (f_name f) h1 h2 (rev (f_stages f)))"

definition Stats :: "bloom \<Rightarrow> stats" where
  "Stats f = \<lparr>ss_name = f_name f, ss_n = f_n f, ss_p = f_p f, ss_r = f_r f, ss_s = f_s f,
     ss_stage_count = int (length (f_stages f)), ss_stages = f_stages f\<rparr>"

definition numShards :: "u64 \<Rightarrow> u64" where
  "numShards m = m div ShardBits + (if m mod ShardBits \<noteq> 0 then 1 else 0)"

definition stage_keys :: "string \<Rightarrow> stage \<Rightarrow> string list" where
  "stage_keys name st =
    [stageMetaKey name (st_index st), fillKey name (st_index st)]
    @ map (\<lambda>j. shardKey name (st_index st) (word_of_nat j)) [0..<unat (numShards (st_m st))]"

definition drop_keys :: "bloom \<Rightarrow> string list" where
  "drop_keys f = metaKey (f_name f) # concat (map (stage_keys (f_name f)) (f_stages f))"

definition Drop :: "'s bitstore \<Rightarrow> bloom \<Rightarrow> ('s, unit) call" where
  "Drop B f =
    bindC (wrapC ''bloom: delete keys: '' (Del B (drop_keys f))) (\<lambda>_.
    wrapC ''bloom: remove from registry: '' (SRem B registryKey [f_name f]))"

definition ListFilters :: "'s bitstore \<Rightarrow> ('s, string list) call" where
  "ListFilters B = SMembers B registryKey"

end
