(* ===== verification/Estimate.thy ===== *)
theory Estimate
  imports BloomFilter
begin

text \<open>
  \<open>pkg/bloom/estimate.go\<close>: what the gauges report of a loaded filter. The sums are \<open>uint64\<close> and
  wrap; the floating-point formulas are evaluated in the order of the source.
\<close>

definition fills_capacities :: "bloom \<Rightarrow> u64 \<times> u64" where
  "fills_capacities f = fold (\<lambda>st (fill, capacity). (fill + st_fill st, capacity + st_capacity st))
     (f_stages f) (0, 0)"

definition FillRatio :: "bloom \<Rightarrow> f64" where
  "FillRatio f = (case fills_capacities f of (fill, capacity) \<Rightarrow>
     if capacity = 0 then 0 else f64_of_u64 fill / f64_of_u64 capacity)"

definition stage_fpp :: "platform \<Rightarrow> stage \<Rightarrow> f64" where
  "stage_fpp P st = (let exponent = - f64_of_int (st_k st) * f64_of_u64 (st_fill st)
       / f64_of_u64 (st_m st)
     in Pow P (1 - Exp P exponent) (f64_of_int (st_k st)))"

definition EstimatedFPP :: "platform \<Rightarrow> bloom \<Rightarrow> f64" where
  "EstimatedFPP P f = 1 - fold (\<lambda>st survive.
     if st_m st = 0 \<or> st_k st \<le> 0 then survive else survive * (1 - stage_fpp P st))
     (f_stages f) 1"

definition Items :: "bloom \<Rightarrow> u64" where
  "Items f = fold (\<lambda>st n. n + st_fill st) (f_stages f) 0"

section \<open>Lemmas\<close>

lemma fold_plus_word: "fold (\<lambda>x n. n + g x) xs (a :: u64) = a + sum_list (map g xs)"
  by (induction xs arbitrary: a) (simp_all add: ac_simps)

lemma Items_sum: "Items f = sum_list (map st_fill (f_stages f))"
  by (simp add: Items_def fold_plus_word)

lemma fold_pair_word:
  "fold (\<lambda>x (m, n). (m + g x, n + h x)) xs (a, b :: u64) =
     (a + sum_list (map g xs), b + sum_list (map h xs))"
  for a :: u64
  by (induction xs arbitrary: a b) (simp_all add: ac_simps)

lemma fills_capacities_sum:
  "fills_capacities f =
     (sum_list (map st_fill (f_stages f)), sum_list (map st_capacity (f_stages f)))"
  by (simp add: fills_capacities_def fold_pair_word)

text \<open>The number of items is also the numerator of the fill ratio.\<close>

lemma FillRatio_Items: "fst (fills_capacities f) = Items f"
  by (simp add: fills_capacities_sum Items_sum)

end
