(* ===== verification/Obs.thy ===== *)
theory Obs
  imports Estimate
begin

text \<open>
  \<open>internal/obs/metrics.go\<close>: the instruments are a log of what is recorded on them; \<open>None\<close> is the nil
  \<open>*Instruments\<close>, on which every method does nothing. A gauge of the struct may be nil on its own.
  The OpenTelemetry SDK that aggregates the records is not part of the repository.
\<close>

datatype metric_event =
    RequestDuration string string int f64
  | FilterOp string bool
  | ItemsAdded i64
  | GaugeCount i64
  | GaugeFillRatio string f64
  | GaugeEstimatedFPP string f64
  | GaugeItems string i64

type_synonym instruments = "metric_event list option"

record FilterSample =
  fs_Name :: string
  fs_FillRatio :: f64
  fs_EstimatedFPP :: f64
  fs_Items :: i64

record FilterObservation =
  fo_Count :: int
  fo_Samples :: "FilterSample list"

definition record_metric :: "metric_event \<Rightarrow> instruments \<Rightarrow> instruments" where
  "record_metric e i = (case i of None \<Rightarrow> None | Some log \<Rightarrow> Some (log @ [e]))"

definition RecordRequest :: "string \<Rightarrow> string \<Rightarrow> int \<Rightarrow> f64 \<Rightarrow> instruments \<Rightarrow> instruments" where
  "RecordRequest route method status seconds = record_metric (RequestDuration route method status seconds)"

definition RecordOp :: "string \<Rightarrow> bool \<Rightarrow> instruments \<Rightarrow> instruments" where
  "RecordOp op ok = record_metric (FilterOp op ok)"

definition RecordItemsAdded :: "i64 \<Rightarrow> instruments \<Rightarrow> instruments" where
  "RecordItemsAdded n = record_metric (ItemsAdded n)"

text \<open>What the callback that \<open>ObserveFilters\<close> registers observes on a collection.\<close>

definition observe_callback :: "FilterObservation \<Rightarrow> metric_event list" where
  "observe_callback obsv = GaugeCount (word_of_int (fo_Count obsv)) #
     concat (map (\<lambda>s. [GaugeFillRatio (fs_Name s) (fs_FillRatio s),
       GaugeEstimatedFPP (fs_Name s) (fs_EstimatedFPP s), GaugeItems (fs_Name s) (fs_Items s)])
       (fo_Samples obsv))"

end
