(* ===== verification/Service.thy ===== *)
theory Service
  imports Obs
begin

text \<open>
  \<open>internal/service/service.go\<close>: the operations of \<open>FilterService\<close> on the pair of the telemetry and
  the store state. Every operation but \<open>FilterSamples\<close> ends in \<open>finishSpan\<close>, which is deferred: it
  also runs when the body panics, and then sees the error the body had assigned so far, none.
\<close>

record FilterInfo =
  fi_Name :: string
  fi_Stages :: int
  fi_M :: u64
  fi_K :: int

record StageInfo =
  si_Index :: int
  si_M :: u64
  si_K :: int
  si_Capacity :: u64
  si_Fill :: u64

record FilterStats =
  fst_Name :: string
  fst_N :: u64
  fst_P :: f64
  fst_R :: f64
  fst_S :: f64
  fst_StageCount :: int
  fst_Stages :: "StageInfo list"

text \<open>
  The lines that serving a request writes: an error behind a status 500, a panic, and one line per
  request. Each begins with the correlation id of the request's logger.
\<close>

datatype log_line =
    RequestFailed string error
  | PanicRecovered string string
  | RequestLine string string string int int

text \<open>The ended spans, with the error recorded on them, the instruments and the log.\<close>

record telemetry =
  tl_spans :: "(string \<times> error option) list"
  tl_inst :: instruments
  tl_log :: "log_line list"

definition mapErr :: "error \<Rightarrow> error" where
  "mapErr err =
    (if errors_is err ErrFilterExists then ServiceErrAlreadyExists
     else if errors_is err ErrNotFound then ServiceErrNotFound
     else if errors_is err ErrEmptyName \<or> errors_is err ErrInvalidN \<or> errors_is err ErrInvalidP
       then ServiceErrInvalidArgument
     else err)"

definition toStats :: "stats \<Rightarrow> FilterStats" where
  "toStats st = \<lparr>fst_Name = ss_name st, fst_N = ss_n st, fst_P = ss_p st, fst_R = ss_r st,
     fst_S = ss_s st, fst_StageCount = ss_stage_count st,
     fst_Stages = map (\<lambda>s. \<lparr>si_Index = st_index s, si_M = st_m s, si_K = st_k s,
       si_Capacity = st_capacity s, si_Fill = st_fill s\<rparr>) (ss_stages st)\<rparr>"

definition finishSpan :: "string \<Rightarrow> string \<Rightarrow> error option \<Rightarrow> telemetry \<Rightarrow> telemetry" where
  "finishSpan span op err tm = tm\<lparr>tl_spans := tl_spans tm @ [(span, err)],
     tl_inst := RecordOp op (err = None) (tl_inst tm)\<rparr>"

text \<open>A body between \<open>tracer.Start\<close> and the deferred \<open>finishSpan\<close>.\<close>

definition traced ::
    "string \<Rightarrow> string \<Rightarrow> (telemetry \<times> 's, 'a) call \<Rightarrow> (telemetry \<times> 's, 'a) call" where
  "traced span op body = (\<lambda>tls. case body tls of (r, (tm, s)) \<Rightarrow>
     (r, (finishSpan span op (case r of Err e \<Rightarrow> Some e | _ \<Rightarrow> None) tm, s)))"

definition mapErrC :: "('s, 'a) call \<Rightarrow> ('s, 'a) call" where
  "mapErrC c = catchC c (\<lambda>e. resC (Err (mapErr e)))"

definition Create :: "platform \<Rightarrow> 's bitstore \<Rightarrow> string \<Rightarrow> string \<Rightarrow> u64 \<Rightarrow> f64
    \<Rightarrow> (telemetry \<times> 's, FilterInfo) call" where
  "Create P B now name n p = traced ''FilterService.Create'' ''create''
    (bindC (mapErrC (onStore (New P B now name n p))) (\<lambda>f.
     let st = Stats f in
     if ss_stages st = []
     then resC (Panic ''runtime error: index out of range [0] with length 0'')
     else returnC \<lparr>fi_Name = ss_name st, fi_Stages = ss_stage_count st,
       fi_M = st_m (hd (ss_stages st)), fi_K = st_k (hd (ss_stages st))\<rparr>))"

text \<open>The filter value is local to an operation; a method that writes it runs on it and the store.\<close>

definition withFilter :: "bloom \<Rightarrow> (bloom \<times> 's, 'a) call \<Rightarrow> ('s, 'a) call" where
  "withFilter f c = (\<lambda>s. case c (f, s) of (r, (f', t)) \<Rightarrow> (r, t))"

definition SvcAdd :: "platform \<Rightarrow> 's bitstore \<Rightarrow> shard_order \<Rightarrow> string \<Rightarrow> bytes
    \<Rightarrow> (telemetry \<times> 's, unit) call" where
  "SvcAdd P B ord name value = traced ''FilterService.Add'' ''add''
    (bindC (mapErrC (onStore (Load P B name))) (\<lambda>f.
     bindC (mapErrC (onStore (withFilter f (Add P B ord value)))) (\<lambda>_.
     (\<lambda>(tm, s). (Ok (), (tm\<lparr>tl_inst := RecordItemsAdded 1 (tl_inst tm)\<rparr>, s))))))"

definition SvcExists :: "platform \<Rightarrow> 's bitstore \<Rightarrow> (nat \<Rightarrow> shard_order) \<Rightarrow> string \<Rightarrow> bytes
    \<Rightarrow> (telemetry \<times> 's, bool) call" where
  "SvcExists P B ords name value = traced ''FilterService.Exists'' ''exists''
    (bindC (mapErrC (onStore (Load P B name))) (\<lambda>f.
     mapErrC (onStore (Exists P B ords value f))))"

definition SvcStats :: "platform \<Rightarrow> 's bitstore \<Rightarrow> string \<Rightarrow> (telemetry \<times> 's, FilterStats) call" where
  "SvcStats P B name = traced ''FilterService.Stats'' ''stats''
    (bindC (mapErrC (onStore (Load P B name))) (\<lambda>f. returnC (toStats (Stats f))))"

definition Delete :: "platform \<Rightarrow> 's bitstore \<Rightarrow> string \<Rightarrow> (telemetry \<times> 's, unit) call" where
  "Delete P B name = traced ''FilterService.Delete'' ''delete''
    (bindC (mapErrC (onStore (Load P B name))) (\<lambda>f. mapErrC (onStore (Drop B f))))"

text \<open>The per-filter gauge values; a filter that does not load is skipped.\<close>

definition sample_of :: "platform \<Rightarrow> string \<Rightarrow> bloom \<Rightarrow> FilterSample" where
  "sample_of P name f = \<lparr>fs_Name = name, fs_FillRatio = FillRatio f,
     fs_EstimatedFPP = EstimatedFPP P f, fs_Items = Items f\<rparr>"

fun sample_loop :: "platform \<Rightarrow> 's bitstore \<Rightarrow> string list \<Rightarrow> ('s, FilterSample list) call" where
  "sample_loop P B [] = returnC []"
| "sample_loop P B (name # names) =
    bindC (catchC (bindC (Load P B name) (\<lambda>f. returnC [sample_of P name f])) (\<lambda>e. returnC []))
      (\<lambda>xs. bindC (sample_loop P B names) (\<lambda>ys. returnC (xs @ ys)))"

definition cap_names :: "int \<Rightarrow> string list \<Rightarrow> string list" where
  "cap_names maxGauges names =
    (if 0 < maxGauges \<and> maxGauges < int (length names) then take (nat maxGauges) names else names)"

definition FilterSamples :: "platform \<Rightarrow> 's bitstore \<Rightarrow> int \<Rightarrow> ('s, FilterObservation) call" where
  "FilterSamples P B maxGauges =
    catchC (bindC (ListFilters B) (\<lambda>names.
      bindC (sample_loop P B (cap_names maxGauges names)) (\<lambda>samples.
      returnC \<lparr>fo_Count = int (length names), fo_Samples = samples\<rparr>)))
      (\<lambda>e. returnC \<lparr>fo_Count = 0, fo_Samples = []\<rparr>)"

section \<open>Histories\<close>

text \<open>One call of the service, with what it is given and what it answers.\<close>

datatype request =
    CreateReq string string u64 f64
  | AddReq shard_order string bytes
  | ExistsReq "nat \<Rightarrow> shard_order" string bytes
  | StatsReq string
  | DeleteReq string
  | SamplesReq int

datatype reply =
    CreateRep "FilterInfo res"
  | AddRep "unit res"
  | ExistsRep "bool res"
  | StatsRep "FilterStats res"
  | DeleteRep "unit res"
  | SamplesRep "FilterObservation res"

fun svc_step :: "platform \<Rightarrow> 's bitstore \<Rightarrow> request \<Rightarrow> telemetry \<times> 's \<Rightarrow> reply \<times> (telemetry \<times> 's)" where
  "svc_step P B (CreateReq now name n p) s = map_prod CreateRep id (Create P B now name n p s)"
| "svc_step P B (AddReq ord name value) s = map_prod AddRep id (SvcAdd P B ord name value s)"
| "svc_step P B (ExistsReq ords name value) s = map_prod ExistsRep id (SvcExists P B ords name value s)"
| "svc_step P B (StatsReq name) s = map_prod StatsRep id (SvcStats P B name s)"
| "svc_step P B (DeleteReq name) s = map_prod DeleteRep id (Delete P B name s)"
| "svc_step P B (SamplesReq mg) s = map_prod SamplesRep id (onStore (FilterSamples P B mg) s)"

fun svc_run :: "platform \<Rightarrow> 's bitstore \<Rightarrow> request list \<Rightarrow> telemetry \<times> 's
    \<Rightarrow> reply list \<times> (telemetry \<times> 's)" where
  "svc_run P B [] s = ([], s)"
| "svc_run P B (q # qs) s = (case svc_step P B q s of (a, t) \<Rightarrow>
     case svc_run P B qs t of (rest, u) \<Rightarrow> (a # rest, u))"

end
