(* ===== verification/Keys.thy ===== *)
theory Keys
  imports BloomFilter
begin

text \<open>
  The keyspace of \<open>filter.go\<close>: for filter names without a colon (the API admits only letters,
  digits, dash and underscore) the keys of different filters, stages and shards never collide.
\<close>

definition valid_name :: "string \<Rightarrow> bool" where
  "valid_name name \<longleftrightarrow> name \<noteq> [] \<and> CHR '':'' \<notin> set name"

section \<open>Decimal texts are injective and contain no colon\<close>

fun dec_value :: "int \<Rightarrow> string \<Rightarrow> int" where
  "dec_value n [] = n"
| "dec_value n (c # cs) = dec_value (10 * n + (case digit_of c of None \<Rightarrow> 0 | Some d \<Rightarrow> d)) cs"

lemma dec_value_append: "dec_value n (xs @ ys) = dec_value (dec_value n xs) ys"
  by (induction n xs rule: dec_value.induct) auto

lemma dec_value_dec: "0 \<le> n \<Longrightarrow> dec_value 0 (dec n) = n"
proof (induction n rule: dec.induct)
  case (1 n)
  show ?case
  proof (cases "n < 10")
    case True
    with 1(2) show ?thesis by (simp add: dec.simps [of n])
  next
    case False
    with 1 show ?thesis by (simp add: dec.simps [of n] dec_value_append)
  qed
qed

lemma dec_inject: "0 \<le> m \<Longrightarrow> 0 \<le> n \<Longrightarrow> dec m = dec n \<Longrightarrow> m = n"
  by (metis dec_value_dec)

lemma Itoa_inject [simp]: "Itoa i = Itoa j \<longleftrightarrow> i = j"
proof
  have minus: "dec n \<noteq> CHR ''-'' # cs" if "0 \<le> n" for n cs
    using dec_hd_not_sign [OF that] by blast
  assume "Itoa i = Itoa j"
  then show "i = j"
    using minus [of i] minus [of j] dec_inject [of i j] dec_inject [of "- i" "- j"]
    by (auto simp: Itoa_def split: if_splits) (metis minus less_eq_int_code(1) linorder_not_less)+
qed simp

lemma FormatUint_inject [simp]: "FormatUint v = FormatUint w \<longleftrightarrow> v = w"
  using dec_inject [of "uint v" "uint w"] by (auto simp: FormatUint_def intro: word_uint_eqI)

section \<open>Separation\<close>

text \<open>Every key of a filter is its name and a suffix; a stage's suffixes are again split once.\<close>

definition name_key :: "string \<Rightarrow> string \<Rightarrow> string" where
  "name_key name u = ''bf:'' @ name @ CHR '':'' # u"

definition stage_suffix :: "int \<Rightarrow> string \<Rightarrow> string" where
  "stage_suffix i u = CHR ''s'' # Itoa i @ CHR '':'' # u"

lemma key_forms:
  "metaKey name = name_key name ''meta''"
  "stageMetaKey name i = name_key name (stage_suffix i ''meta'')"
  "shardKey name i sh = name_key name (stage_suffix i (CHR ''s'' # CHR ''h'' # FormatUint sh))"
  "fillKey name i = name_key name (stage_suffix i ''meta:fill'')"
  by (simp_all add: metaKey_def stageMetaKey_def shardKey_def fillKey_def name_key_def
      stage_suffix_def)

lemma name_key_eq [simp]:
  assumes "valid_name a" "valid_name b"
  shows "name_key a u = name_key b v \<longleftrightarrow> a = b \<and> u = v"
  unfolding name_key_def using assms split_at_sep [of "CHR '':''" a b u v]
  by (auto simp only: valid_name_def append_same_eq same_append_eq)

lemma stage_suffix_eq [simp]: "stage_suffix i u = stage_suffix j v \<longleftrightarrow> i = j \<and> u = v"
  unfolding stage_suffix_def
  using split_at_sep [of "CHR '':''" "Itoa i" "Itoa j" u v] by auto

lemma stage_suffix_not_meta [simp]: "stage_suffix i u \<noteq> ''meta''" "''meta'' \<noteq> stage_suffix i u"
  by (simp_all add: stage_suffix_def)

lemma stageMetaKey_eq:
  assumes "valid_name a" "valid_name b"
  shows "stageMetaKey a i = stageMetaKey b j \<longleftrightarrow> a = b \<and> i = j"
  using assms by (simp add: key_forms)

lemma shardKey_eq:
  assumes "valid_name a" "valid_name b"
  shows "shardKey a i u = shardKey b j v \<longleftrightarrow> a = b \<and> i = j \<and> u = v"
  using assms by (simp add: key_forms)

lemma fillKey_eq:
  assumes "valid_name a" "valid_name b"
  shows "fillKey a i = fillKey b j \<longleftrightarrow> a = b \<and> i = j"
  using assms by (simp add: key_forms)

lemma metaKey_eq [simp]: "metaKey a = metaKey b \<longleftrightarrow> a = b"
  by (simp add: metaKey_def)

text \<open>Keys of different kinds differ, whoever owns them.\<close>

lemma keys_of_kinds:
  assumes "valid_name a" "valid_name b"
  shows "metaKey a \<noteq> stageMetaKey b j" "metaKey a \<noteq> shardKey b j v" "metaKey a \<noteq> fillKey b j"
    "stageMetaKey a i \<noteq> shardKey b j v" "stageMetaKey a i \<noteq> fillKey b j"
    "shardKey a i u \<noteq> fillKey b j"
  using assms by (simp_all add: key_forms)

lemmas key_eqs = stageMetaKey_eq shardKey_eq fillKey_eq keys_of_kinds keys_of_kinds [symmetric]

lemma registryKey_other:
  "registryKey \<noteq> metaKey a" "registryKey \<noteq> stageMetaKey a i" "registryKey \<noteq> shardKey a i u"
  "registryKey \<noteq> fillKey a i"
proof -
  have "''bf:registry'' \<noteq> ''bf:'' @ a @ CHR '':'' # v" for v
  proof
    assume "''bf:registry'' = ''bf:'' @ a @ CHR '':'' # v"
    then have "CHR '':'' \<in> set (drop 3 ''bf:registry'')" by simp
    then show False by simp
  qed
  from this [of "''meta''"] this [of "''s'' @ Itoa i @ '':meta''"]
    this [of "''s'' @ Itoa i @ '':sh'' @ FormatUint u"] this [of "''s'' @ Itoa i @ '':meta:fill''"]
  show "registryKey \<noteq> metaKey a" "registryKey \<noteq> stageMetaKey a i" "registryKey \<noteq> shardKey a i u"
    "registryKey \<noteq> fillKey a i"
    by (simp_all add: registryKey_def metaKey_def stageMetaKey_def shardKey_def fillKey_def)
qed

section \<open>The number of shards\<close>

lemma unat_numShards:
  "unat (numShards m) = unat m div 2 ^ 25 + (if unat m mod 2 ^ 25 \<noteq> 0 then 1 else 0)"
proof -
  have m: "unat m < 2 ^ 64" using unsigned_less [of m] by simp
  have "m mod ShardBits \<noteq> 0 \<longleftrightarrow> unat m mod 2 ^ 25 \<noteq> 0"
    by (simp only: unat_eq_0 [symmetric] unat_mod_distrib unat_ShardBits not_False_eq_True)
  moreover have "unat m div 2 ^ 25 + 1 < 2 ^ 64" using m by simp
  ultimately show ?thesis
    by (simp add: numShards_def unat_word_ariths unat_div_distrib unat_ShardBits)
qed

lemma less_numShards_iff: "sh < numShards m \<longleftrightarrow> unat sh * 2 ^ 25 < unat m"
  by (simp only: word_less_nat_alt unat_numShards ceil_div_less_iff zero_less_power zero_less_numeral)

text \<open>
  \<open>Drop\<close> counts the shards right: the shards below \<open>numShards m\<close> are exactly those that hold a bit
  index below \<open>m\<close>.
\<close>

theorem numShards_exact: "sh < numShards m \<longleftrightarrow> (\<exists>p. p < m \<and> p div ShardBits = sh)"
proof
  assume "\<exists>p. p < m \<and> p div ShardBits = sh"
  then obtain p where p: "p < m" "p div ShardBits = sh" by blast
  have "unat p div 2 ^ 25 * 2 ^ 25 \<le> unat p" by simp
  also have "\<dots> < unat m" using p(1) by (simp add: word_less_nat_alt)
  finally show "sh < numShards m"
    using p(2) by (simp add: less_numShards_iff unat_div_distrib unat_ShardBits flip: p(2))
next
  assume "sh < numShards m"
  then have less: "unat sh * 2 ^ 25 < unat m" by (simp add: less_numShards_iff)
  also have "unat m < 2 ^ 64" using unsigned_less [of m] by simp
  finally have u: "unat (sh * ShardBits) = unat sh * 2 ^ 25"
    by (simp add: unat_word_ariths unat_ShardBits)
  then have "sh * ShardBits < m" using less by (simp add: word_less_nat_alt)
  moreover have "unat (sh * ShardBits div ShardBits) = unat sh"
    by (simp only: unat_div_distrib u unat_ShardBits) simp
  then have "sh * ShardBits div ShardBits = sh" by (rule word_unat_eq_iff [THEN iffD2])
  ultimately show "\<exists>p. p < m \<and> p div ShardBits = sh" by blast
qed

section \<open>Colons\<close>

text \<open>
  \<open>New\<close> itself does not check names, and with a colon two filters share a key: the filter metadata of
  \<open>a:s0\<close> is the metadata of stage 0 of \<open>a\<close>.
\<close>

lemma colon_names_collide: "metaKey (a @ '':s'' @ Itoa i) = stageMetaKey a i"
  by (simp add: metaKey_def stageMetaKey_def)

end
