(* ===== verification/Evolution.thy ===== *)
theory Evolution
  imports Keys
begin

text \<open>
  How the store's view may change. \<open>evolves X v w\<close>: going from \<open>v\<close> to \<open>w\<close> no filter outside \<open>X\<close>
  loses a set bit, a stage or a stage's parameters, and of its own metadata (\<open>n\<close>, \<open>p\<close>, \<open>r\<close>, \<open>s\<close> and
  \<open>created_at\<close>) only the stage count changes, upwards; new stages may appear. Every operation of the
  filter code is such an evolution, whatever it returns, with \<open>X\<close> the filter it drops.
\<close>

definition stage_count_text :: "view \<Rightarrow> string \<Rightarrow> string option" where
  "stage_count_text v name = fmlookup (vhash v (metaKey name)) ''stage_count''"

text \<open>Stage counts are stored in the one form \<open>AppendStage\<close> compares and writes.\<close>

definition counts_ok :: "view \<Rightarrow> bool" where
  "counts_ok v \<longleftrightarrow> (\<forall>name. valid_name name \<longrightarrow>
     stage_count_text v name = None \<or> (\<exists>c. stage_count_text v name = Some (FormatInt c)))"

definition keeps_filter :: "string \<Rightarrow> view \<Rightarrow> view \<Rightarrow> bool" where
  "keeps_filter name v w \<longleftrightarrow>
     (\<forall>i sh. vbits v (shardKey name i sh) \<subseteq> vbits w (shardKey name i sh))
     \<and> (\<forall>c. stage_count_text v name = Some (FormatInt c) \<longrightarrow>
         (\<exists>d. stage_count_text w name = Some (FormatInt d) \<and> sint c \<le> sint d)
         \<and> (\<forall>f. f \<noteq> ''stage_count'' \<longrightarrow>
              fmlookup (vhash w (metaKey name)) f = fmlookup (vhash v (metaKey name)) f)
         \<and> (\<forall>i. 0 \<le> i \<longrightarrow> i < sint c \<longrightarrow>
              vhash w (stageMetaKey name i) = vhash v (stageMetaKey name i)))"

definition evolves :: "string set \<Rightarrow> view \<Rightarrow> view \<Rightarrow> bool" where
  "evolves X v w \<longleftrightarrow> (counts_ok v \<longrightarrow>
     counts_ok w \<and> (\<forall>name. valid_name name \<longrightarrow> name \<notin> X \<longrightarrow> keeps_filter name v w))"

lemma keeps_filter_refl [simp]: "keeps_filter name v v"
  by (auto simp: keeps_filter_def)

lemma keeps_filter_trans:
  assumes "keeps_filter name u v" "keeps_filter name v w"
  shows "keeps_filter name u w"
  using assms unfolding keeps_filter_def
  by (intro conjI allI impI; fastforce)

lemma evolves_refl [simp]: "evolves X v v"
  by (simp add: evolves_def)

lemma evolves_trans: "evolves X u v \<Longrightarrow> evolves Y v w \<Longrightarrow> evolves (X \<union> Y) u w"
  unfolding evolves_def by (meson UnI1 UnI2 keeps_filter_trans)

lemma evolves_trans_same: "evolves X u v \<Longrightarrow> evolves X v w \<Longrightarrow> evolves X u w"
  using evolves_trans [of X u v X w] by simp

lemma evolves_mono: "evolves X u v \<Longrightarrow> X \<subseteq> Y \<Longrightarrow> evolves Y u v"
  unfolding evolves_def by blast

text \<open>Operations that leave the hashes alone and clear no bit.\<close>

lemma evolves_same_hash:
  assumes "vhash w = vhash v" "\<And>k. vbits v k \<subseteq> vbits w k"
  shows "evolves X v w"
  using assms by (auto simp: evolves_def counts_ok_def keeps_filter_def stage_count_text_def)

lemma evolves_setbits [simp]: "evolves X v (v_setbits k os v)"
  by (rule evolves_same_hash) (auto simp: v_setbits_def)

lemma evolves_incr [simp]: "evolves X v (v_incr k v)"
  by (rule evolves_same_hash) (auto simp: v_incr_def)

lemma evolves_sadd [simp]: "evolves X v (v_sadd k ms v)"
  by (rule evolves_same_hash) (auto simp: v_sadd_def)

lemma evolves_srem [simp]: "evolves X v (v_srem k ms v)"
  by (rule evolves_same_hash) (auto simp: v_srem_def)

text \<open>Writes that only touch the hashes of one filter.\<close>

lemma evolves_one_filter:
  assumes valid: "valid_name nm"
    and bits: "vbits w = vbits v"
    and other: "\<And>k. k \<notin> {metaKey nm} \<union> range (stageMetaKey nm) \<Longrightarrow> vhash w k = vhash v k"
    and canon: "stage_count_text w nm = None \<or> (\<exists>c. stage_count_text w nm = Some (FormatInt c))"
    and mine: "keeps_filter nm v w"
  shows "evolves X v w"
proof -
  have "vhash w (metaKey name) = vhash v (metaKey name)
      \<and> (\<forall>i. vhash w (stageMetaKey name i) = vhash v (stageMetaKey name i))"
    if "valid_name name" "name \<noteq> nm" for name
    by (intro conjI allI other) (use that valid in \<open>auto simp: key_eqs\<close>)
  then have "keeps_filter name v w" "stage_count_text w name = stage_count_text v name"
    if "valid_name name" "name \<noteq> nm" for name
    using that bits by (auto simp: keeps_filter_def stage_count_text_def)
  then show ?thesis using canon mine unfolding evolves_def counts_ok_def by metis
qed

text \<open>A filter's metadata is written for the first time.\<close>

lemma evolves_create:
  assumes "valid_name nm" "stage_count_text v nm = None"
    and "vbits w = vbits v"
    and "\<And>k. k \<notin> {metaKey nm} \<union> range (stageMetaKey nm) \<Longrightarrow> vhash w k = vhash v k"
    and "stage_count_text w nm = None \<or> (\<exists>c. stage_count_text w nm = Some (FormatInt c))"
  shows "evolves X v w"
  using assms by (intro evolves_one_filter [of nm]) (auto simp: keeps_filter_def)

text \<open>A stage is appended at the index the count stands for.\<close>

lemma evolves_append:
  assumes valid: "valid_name nm" and cnt: "stage_count_text v nm = Some (FormatInt x)"
    and x: "sint x < 2 ^ 63 - 1"
  shows "evolves X v (v_append (metaKey nm) x h (stageMetaKey nm (sint x)) v)"
proof (rule evolves_one_filter [OF valid])
  let ?w = "v_append (metaKey nm) x h (stageMetaKey nm (sint x)) v"
  have count: "stage_count_text ?w nm = Some (FormatInt (x + 1))"
    by (simp add: stage_count_text_def v_append_def)
  have "sint (x + 1) = sint x + 1"
    using x sint_range [of x] by (simp add: sint_word_ariths signed_take_bit_int_eq_self)
  then show "keeps_filter nm v ?w"
    using count cnt valid by (auto simp: keeps_filter_def v_append_def key_eqs)
  show "stage_count_text ?w nm = None \<or> (\<exists>c. stage_count_text ?w nm = Some (FormatInt c))"
    using count by blast
qed (auto simp: v_append_def)

text \<open>A filter's own keys are deleted.\<close>

definition own_keys :: "string \<Rightarrow> string set" where
  "own_keys nm = {metaKey nm} \<union> range (stageMetaKey nm) \<union> range (fillKey nm)
     \<union> (\<Union>i. range (shardKey nm i))"

lemma own_keys_members [simp]:
  "metaKey nm \<in> own_keys nm" "stageMetaKey nm i \<in> own_keys nm" "fillKey nm i \<in> own_keys nm"
  "shardKey nm i sh \<in> own_keys nm"
  unfolding own_keys_def by blast+

lemma own_keys_disjoint:
  assumes "valid_name a" "valid_name b" "a \<noteq> b"
  shows "own_keys a \<inter> own_keys b = {}"
  using assms by (auto simp: own_keys_def key_eqs)

lemma registryKey_not_own: "registryKey \<notin> own_keys name"
  by (auto simp: own_keys_def registryKey_other)

lemma evolves_del:
  assumes "valid_name nm" "set ks \<subseteq> own_keys nm"
  shows "evolves {nm} v (v_del ks v)"
proof -
  have out: "k \<notin> set ks" if "valid_name name" "name \<noteq> nm" "k \<in> own_keys name" for name k
    using own_keys_disjoint [OF assms(1) that(1)] that(2,3) assms(2) by blast
  have meta: "vhash (v_del ks v) (metaKey name) = vhash v (metaKey name)"
    and stage: "vhash (v_del ks v) (stageMetaKey name i) = vhash v (stageMetaKey name i)"
    and bits: "vbits (v_del ks v) (shardKey name i sh) = vbits v (shardKey name i sh)"
    if "valid_name name" "name \<noteq> nm" for name i sh
    by (simp_all add: v_del_def out [OF that])
  have gone: "stage_count_text (v_del ks v) nm = None
      \<or> stage_count_text (v_del ks v) nm = stage_count_text v nm"
    by (simp add: stage_count_text_def v_del_def)
  have "stage_count_text (v_del ks v) name = stage_count_text v name"
    if "valid_name name" "name \<noteq> nm" for name
    using meta [OF that] by (simp add: stage_count_text_def)
  then show ?thesis using gone meta stage bits
    unfolding evolves_def counts_ok_def keeps_filter_def stage_count_text_def
    by (metis order_refl singletonI)
qed

section \<open>Items\<close>

text \<open>The item's bits are all set in a stage; no position (or a panic) counts as the code does.\<close>

definition stage_has :: "platform \<Rightarrow> view \<Rightarrow> string \<Rightarrow> bytes \<Rightarrow> stage \<Rightarrow> bool" where
  "stage_has P v name item st =
    (case hashParts P item of (h1, h2) \<Rightarrow>
      case positions h1 h2 (st_m st) (st_k st) of
        Ok ps \<Rightarrow> (\<forall>p \<in> set ps. p mod ShardBits \<in>
                    vbits v (shardKey name (st_index st) (p div ShardBits)))
      | _ \<Rightarrow> False)"

text \<open>Some stage the stored metadata describes has the item.\<close>

definition present :: "platform \<Rightarrow> view \<Rightarrow> string \<Rightarrow> bytes \<Rightarrow> bool" where
  "present P v name item \<longleftrightarrow> (\<exists>c i st. stage_count_text v name = Some (FormatInt c)
     \<and> 0 \<le> i \<and> i < sint c \<and> mapToStage (vhash v (stageMetaKey name i)) i = Ok st
     \<and> stage_has P v name item st)"

lemma stage_has_fill [simp]:
  "stage_has P v name item (st\<lparr>st_fill := n\<rparr>) = stage_has P v name item st"
  by (simp add: stage_has_def split: prod.split res.split)

lemma stage_has_mono:
  assumes "stage_has P v name item st"
    and "\<And>i sh. vbits v (shardKey name i sh) \<subseteq> vbits w (shardKey name i sh)"
  shows "stage_has P w name item st"
  using assms by (fastforce simp: stage_has_def split: prod.splits res.splits)

text \<open>No evolution makes a filter it does not drop forget an item.\<close>

lemma present_keeps:
  assumes "present P v name item" "keeps_filter name v w"
  shows "present P w name item"
proof -
  obtain c i st where c: "stage_count_text v name = Some (FormatInt c)" "0 \<le> i" "i < sint c"
      "mapToStage (vhash v (stageMetaKey name i)) i = Ok st" "stage_has P v name item st"
    using assms(1) by (auto simp: present_def)
  then obtain d where "stage_count_text w name = Some (FormatInt d)" "sint c \<le> sint d"
      "vhash w (stageMetaKey name i) = vhash v (stageMetaKey name i)"
    using assms(2) by (auto simp: keeps_filter_def)
  moreover have "stage_has P w name item st"
    using c(5) assms(2) by (auto simp: keeps_filter_def intro: stage_has_mono)
  ultimately show ?thesis using c unfolding present_def by fastforce
qed

lemma present_evolves:
  assumes "present P v name item" "evolves X v w" "counts_ok v" "valid_name name" "name \<notin> X"
  shows "present P w name item"
  using assms by (auto simp: evolves_def intro: present_keeps)

lemma counts_ok_evolves: "counts_ok v \<Longrightarrow> evolves X v w \<Longrightarrow> counts_ok w"
  by (simp add: evolves_def)

section \<open>Properties\<close>

text \<open>
  C29 Keys never collide: for names without a colon the keys of two filters are disjoint, the registry
  is none of them, and within a filter the keys of stages, counters and shards are pairwise distinct.
\<close>

theorem keys_separate:
  assumes "valid_name a" "valid_name b"
  shows "(a \<noteq> b \<longrightarrow> own_keys a \<inter> own_keys b = {}) \<and> registryKey \<notin> own_keys a
    \<and> (shardKey a i u = shardKey a j v \<longrightarrow> i = j \<and> u = v)
    \<and> (stageMetaKey a i = stageMetaKey a j \<longrightarrow> i = j) \<and> (fillKey a i = fillKey a j \<longrightarrow> i = j)
    \<and> distinct [metaKey a, stageMetaKey a i, fillKey a i, shardKey a i u]"
  using assms own_keys_disjoint by (auto simp: key_eqs registryKey_not_own)

theorem keys_separate_witness:
  "own_keys ''a'' \<inter> own_keys ''b'' = {} \<and> shardKey ''a'' 1 23 \<noteq> shardKey ''a'' 12 3"
  using keys_separate [of "''a''" "''b''" 1 23 12 3] by (auto simp: valid_name_def)

end
