(* ===== verification/BloomSpec.thy ===== *)
theory BloomSpec
  imports Evolution
begin

text \<open>
  What the filter operations compute, as pure functions of the store's view, and the proof inside
  the interface's contract that the code computes exactly that (or reports a store error) and that
  every operation, whatever it returns, is an evolution of the view.
\<close>

section \<open>Loading, on the view\<close>

definition stage_view :: "view \<Rightarrow> string \<Rightarrow> int \<Rightarrow> stage res" where
  "stage_view v name i =
    bindR (mapToStage (vhash v (stageMetaKey name i)) i) (\<lambda>st.
    case vctr v (fillKey name i) of None \<Rightarrow> Ok st
    | Some c \<Rightarrow> bindR (wrapR (''bloom: parse stage '' @ Itoa i @ '' fill: '')
        (ParseUint (FormatInt c))) (\<lambda>fill. Ok (st\<lparr>st_fill := fill\<rparr>)))"

fun stages_view :: "view \<Rightarrow> string \<Rightarrow> nat \<Rightarrow> nat \<Rightarrow> stage list res" where
  "stages_view v name i 0 = Ok []"
| "stages_view v name i (Suc c) =
    bindR (stage_view v name (int i)) (\<lambda>st.
    bindR (stages_view v name (Suc i) c) (\<lambda>sts. Ok (st # sts)))"

definition Load_view :: "platform \<Rightarrow> view \<Rightarrow> string \<Rightarrow> bloom res" where
  "Load_view P v name =
    (if name = [] then Err ErrEmptyName
     else let fs = vhash v (metaKey name) in
       if fs = fmempty then Err ErrNotFound
       else
         bindR (wrapR ''bloom: parse n: '' (ParseUint (field fs ''n''))) (\<lambda>n.
         bindR (wrapR ''bloom: parse p: '' (ParseFloat P (field fs ''p''))) (\<lambda>p.
         bindR (wrapR ''bloom: parse r: '' (ParseFloat P (field fs ''r''))) (\<lambda>r.
         bindR (wrapR ''bloom: parse s: '' (ParseFloat P (field fs ''s''))) (\<lambda>growth.
         bindR (wrapR ''bloom: parse stage_count: '' (Atoi (field fs ''stage_count''))) (\<lambda>sc.
         bindR (makeslice 40 sc) (\<lambda>_.
         bindR (stages_view v name 0 (nat sc)) (\<lambda>stages.
         Ok \<lparr>f_name = name, f_n = n, f_p = p, f_r = r, f_s = growth, f_stages = stages\<rparr>))))))))"

text \<open>Membership, on the view: stages from newest to oldest.\<close>

fun exists_view :: "view \<Rightarrow> string \<Rightarrow> u64 \<Rightarrow> u64 \<Rightarrow> stage list \<Rightarrow> bool res" where
  "exists_view v name h1 h2 [] = Ok False"
| "exists_view v name h1 h2 (st # older) =
    bindR (positions h1 h2 (st_m st) (st_k st)) (\<lambda>ps.
    if \<forall>p \<in> set ps. p mod ShardBits \<in> vbits v (shardKey name (st_index st) (p div ShardBits))
    then Ok True else exists_view v name h1 h2 older)"

definition Exists_view :: "platform \<Rightarrow> view \<Rightarrow> bytes \<Rightarrow> bloom \<Rightarrow> bool res" where
  "Exists_view P v item f =
    (case hashParts P item of (h1, h2) \<Rightarrow>
       exists_view v (f_name f) h1 h2 (rev (f_stages f)))"

lemma exists_view_Ok:
  assumes "hashParts P item = (h1, h2)"
  shows "exists_view v name h1 h2 sts = Ok b \<Longrightarrow> b = (\<exists>st \<in> set sts. stage_has P v name item st)"
proof (induction sts)
  case (Cons st older)
  from Cons.prems obtain ps where "positions h1 h2 (st_m st) (st_k st) = Ok ps"
    by (auto simp: bindR_Ok_iff)
  with Cons assms show ?case by (auto simp: stage_has_def split: if_splits)
qed simp

lemma Exists_view_Ok:
  "Exists_view P v item f = Ok b \<Longrightarrow>
     b = (\<exists>st \<in> set (f_stages f). stage_has P v (f_name f) item st)"
  using exists_view_Ok [of P item] by (fastforce simp: Exists_view_def split: prod.splits)

lemma stage_view_Ok:
  "stage_view v name i = Ok st \<Longrightarrow>
     \<exists>st0. mapToStage (vhash v (stageMetaKey name i)) i = Ok st0 \<and> st = st0\<lparr>st_fill := st_fill st\<rparr>"
  by (auto simp: stage_view_def bindR_Ok_iff split: option.splits)

lemma mapToStage_no_panic [simp]: "mapToStage fs i \<noteq> Panic p"
  by (auto simp: mapToStage_def bindR_Panic_iff)

lemma stage_view_no_panic [simp]: "stage_view v name i \<noteq> Panic p"
  by (auto simp: stage_view_def bindR_Panic_iff split: option.splits)

lemma stages_view_no_panic [simp]: "stages_view v name i c \<noteq> Panic p"
  by (induction c arbitrary: i) (auto simp: bindR_Panic_iff)

lemma mapToStage_index: "mapToStage fs i = Ok st \<Longrightarrow> st_index st = i"
  by (auto simp: mapToStage_def bindR_Ok_iff)

lemma stages_view_Ok:
  "stages_view v name i c = Ok sts \<Longrightarrow>
     length sts = c \<and> (\<forall>j < c. stage_view v name (int (i + j)) = Ok (sts ! j))"
proof (induction c arbitrary: i sts)
  case (Suc c)
  then obtain st rest where *: "stage_view v name (int i) = Ok st"
      "stages_view v name (Suc i) c = Ok rest" "sts = st # rest"
    by (auto simp: bindR_Ok_iff)
  from Suc.IH [OF *(2)] *(1,3) show ?case
    by (auto simp: nth_Cons ac_simps split: nat.split)
qed simp

lemma Load_view_Ok:
  assumes "Load_view P v name = Ok f"
  shows "f_name f = name" "name \<noteq> []"
    "Atoi (field (vhash v (metaKey name)) ''stage_count'') = Ok (int (length (f_stages f)))"
    "40 * int (length (f_stages f)) \<le> 2 ^ 48"
    "\<And>j. j < length (f_stages f) \<Longrightarrow> stage_view v name (int j) = Ok (f_stages f ! j)"
  using assms
  by (auto simp: Load_view_def Let_def bindR_Ok_iff split: if_splits dest!: stages_view_Ok)

text \<open>A stored count reads as the number of loaded stages.\<close>

lemma Load_view_count:
  assumes "Load_view P v name = Ok f" "stage_count_text v name = Some (FormatInt c)"
  shows "sint c = int (length (f_stages f))"
  using Load_view_Ok(3) [OF assms(1)] assms(2)
  by (simp add: stage_count_text_def field_def)

lemma Load_view_has_count:
  assumes "Load_view P v name = Ok f" "counts_ok v" "valid_name name"
  shows "stage_count_text v name = Some (FormatInt (word_of_int (int (length (f_stages f)))))"
proof -
  have "stage_count_text v name \<noteq> None"
    using Load_view_Ok(3) [OF assms(1)]
    by (auto simp: stage_count_text_def field_def split: option.splits)
  then obtain c where "stage_count_text v name = Some (FormatInt c)"
    using assms(2,3) unfolding counts_ok_def by metis
  moreover from Load_view_count [OF assms(1) this]
  have "word_of_int (int (length (f_stages f))) = c" by (metis of_int_sint scast_id)
  ultimately show ?thesis by simp
qed

lemma Load_view_present:
  assumes "Load_view P v name = Ok f" "present P v name item"
  shows "\<exists>st \<in> set (f_stages f). stage_has P v name item st"
proof -
  obtain c i st where c: "stage_count_text v name = Some (FormatInt c)" "0 \<le> i" "i < sint c"
      "mapToStage (vhash v (stageMetaKey name i)) i = Ok st" "stage_has P v name item st"
    using assms(2) by (auto simp: present_def)
  let ?st = "f_stages f ! nat i"
  have len: "nat i < length (f_stages f)" using Load_view_count [OF assms(1) c(1)] c(2,3) by simp
  then have "stage_view v name i = Ok ?st"
    using Load_view_Ok(5) [OF assms(1) len] c(2) by simp
  then obtain n where "?st = st\<lparr>st_fill := n\<rparr>"
    using stage_view_Ok c(4) by fastforce
  then have "stage_has P v name item ?st" using c(5) by simp
  then show ?thesis using len by auto
qed

section \<open>The code against the contract\<close>

context bit_store
begin

lemma set_groups_law:
  "set_groups B name i gs s = (r, t) \<Longrightarrow>
     (\<forall>p. r \<noteq> Panic p) \<and> vhash (view t) = vhash (view s) \<and> vctr (view t) = vctr (view s)
     \<and> (\<forall>k. vbits (view s) k \<subseteq> vbits (view t) k)
     \<and> (r = Ok () \<longrightarrow> (\<forall>(sh, os) \<in> set gs. set os \<subseteq> vbits (view t) (shardKey name i sh)))"
proof (induction gs arbitrary: s)
  case (Cons g gs)
  obtain sh os where g: "g = (sh, os)" by (cases g)
  obtain r1 u where set: "SetBits B (shardKey name i sh) os s = (r1, u)" by fastforce
  have u: "vhash (view u) = vhash (view s)" "vctr (view u) = vctr (view s)"
      "\<forall>k. vbits (view s) k \<subseteq> vbits (view u) k"
      "r1 = Ok () \<Longrightarrow> set os \<subseteq> vbits (view u) (shardKey name i sh)"
    using SetBits_law [OF set] by (auto simp: v_setbits_def)
  show ?case
  proof (cases r1)
    case (Ok x)
    then have "set_groups B name i gs u = (r, t)"
      using Cons.prems g set by simp
    from Cons.IH [OF this] u Ok g show ?thesis by (fastforce simp: subset_iff)
  next
    case (Err e)
    with Cons.prems g set u show ?thesis by auto
  next
    case (Panic p)
    with SetBits_law [OF set] show ?thesis by auto
  qed
qed auto

lemma reads_groups_all_set [reads_intros]:
  "reads failing view (groups_all_set B name i gs)
     (\<lambda>v. Ok (\<forall>(sh, os) \<in> set gs. set os \<subseteq> vbits v (shardKey name i sh)))"
proof (induction gs)
  case Nil
  show ?case unfolding groups_all_set.simps by (rule reads_cong, rule reads_returnC) simp
next
  case (Cons g gs)
  obtain sh os where g: "g = (sh, os)" by (cases g)
  show ?case unfolding g groups_all_set.simps
    by (rule reads_cong, (rule reads_intros Cons.IH)+) (auto simp: image_iff)
qed

lemma reads_load_stage [reads_intros]:
  "reads failing view (load_stage B name i) (\<lambda>v. stage_view v name i)"
  unfolding load_stage_def
  by (rule reads_cong, (rule reads_intros)+)
    (simp add: stage_view_def bindR_def wrapR_def split: res.split option.split)

lemma reads_load_loop [reads_intros]:
  "reads failing view (load_loop B name i c) (\<lambda>v. stages_view v name i c)"
proof (induction c arbitrary: i)
  case 0
  show ?case unfolding load_loop.simps by (rule reads_cong, rule reads_returnC) simp
next
  case (Suc c)
  show ?case unfolding load_loop.simps
    by (rule reads_cong, (rule reads_intros Suc.IH)+) simp
qed

lemma reads_Load [reads_intros]: "reads failing view (Load P B name) (\<lambda>v. Load_view P v name)"
  unfolding Load_def
  by (rule reads_cong, (rule reads_intros)+) (simp add: Load_view_def Let_def)

lemma reads_exists_loop:
  "reads failing view (exists_loop B ords name h1 h2 sts) (\<lambda>v. exists_view v name h1 h2 sts)"
proof (induction sts)
  case Nil
  show ?case unfolding exists_loop.simps by (rule reads_cong, rule reads_returnC) simp
next
  case (Cons st older)
  show ?case unfolding exists_loop.simps
    by (intro reads_cong [OF reads_bindC [OF reads_resC reads_bindC [OF reads_groups_all_set
          reads_if [OF reads_returnC Cons.IH]]]])
      (simp only: exists_view.simps groups_subset_iff bindR_simps)
qed

lemma reads_Exists [reads_intros]:
  "reads failing view (Exists P B ords item f) (\<lambda>v. Exists_view P v item f)"
  by (cases "hashParts P item") (simp add: Exists_def Exists_view_def reads_exists_loop)

end

end
