(* ===== verification/BloomLaws.thy ===== *)
theory BloomLaws
  imports BloomSpec
begin

text \<open>
  The writing operations of \<open>filter.go\<close> against the store's contract: whatever they return, and
  whatever the store fails at, the view evolves; an \<open>Add\<close> that returns without error has stored
  its item, also through a handle that no longer knows the newest stages.
\<close>

section \<open>Handles\<close>

text \<open>
  A filter value whose stages are among those the store has. It need not know all of them: another
  process may have appended some since it was loaded. (A Go slice of stages is bounded by the
  address space.)
\<close>

definition handle :: "view \<Rightarrow> bloom \<Rightarrow> bool" where
  "handle v f \<longleftrightarrow> valid_name (f_name f) \<and> f_stages f \<noteq> []
     \<and> 40 * int (length (f_stages f)) \<le> 2 ^ 48
     \<and> (\<exists>c. stage_count_text v (f_name f) = Some (FormatInt c)
          \<and> int (length (f_stages f)) \<le> sint c)
     \<and> (\<forall>j < length (f_stages f). \<exists>st n.
          mapToStage (vhash v (stageMetaKey (f_name f) (int j))) (int j) = Ok st
          \<and> f_stages f ! j = st\<lparr>st_fill := n\<rparr>)"

lemma handle_Load:
  assumes "Load_view P v name = Ok f" "counts_ok v" "valid_name name" "f_stages f \<noteq> []"
  shows "handle v f"
proof -
  have "\<exists>c. stage_count_text v name = Some (FormatInt c) \<and> int (length (f_stages f)) \<le> sint c"
    using Load_view_has_count [OF assms(1-3)] Load_view_count [OF assms(1)] by fastforce
  moreover have "\<exists>st n. mapToStage (vhash v (stageMetaKey name (int j))) (int j) = Ok st
      \<and> f_stages f ! j = st\<lparr>st_fill := n\<rparr>" if "j < length (f_stages f)" for j
    using stage_view_Ok [OF Load_view_Ok(5) [OF assms(1) that]] by metis
  ultimately show ?thesis
    using assms Load_view_Ok(1,4) [OF assms(1)] by (simp add: handle_def)
qed

lemma handle_keeps:
  assumes "handle v f" "keeps_filter (f_name f) v w"
  shows "handle w f"
proof -
  obtain c where c: "stage_count_text v (f_name f) = Some (FormatInt c)"
      "int (length (f_stages f)) \<le> sint c"
    using assms(1) by (auto simp: handle_def)
  then obtain d where d: "stage_count_text w (f_name f) = Some (FormatInt d)" "sint c \<le> sint d"
      "\<And>i. 0 \<le> i \<Longrightarrow> i < sint c \<Longrightarrow>
         vhash w (stageMetaKey (f_name f) i) = vhash v (stageMetaKey (f_name f) i)"
    using assms(2) by (auto simp: keeps_filter_def)
  have "vhash w (stageMetaKey (f_name f) (int j)) = vhash v (stageMetaKey (f_name f) (int j))"
    if "j < length (f_stages f)" for j
    using d(3) [of "int j"] c(2) that by simp
  then show ?thesis using assms(1) c d(1,2) unfolding handle_def by fastforce
qed

lemma handle_evolves:
  assumes "handle v f" "evolves X v w" "counts_ok v" "f_name f \<notin> X"
  shows "handle w f"
  using assms(1) handle_keeps [OF assms(1)] assms by (auto simp: evolves_def handle_def)

text \<open>An item whose bits are set in a stage of a handle is present.\<close>

lemma handle_present:
  assumes "handle v f" "st \<in> set (f_stages f)" "stage_has P v (f_name f) item st"
  shows "present P v (f_name f) item"
proof -
  obtain j where j: "j < length (f_stages f)" "f_stages f ! j = st"
    using assms(2) by (auto simp: in_set_conv_nth)
  then obtain st0 n where "mapToStage (vhash v (stageMetaKey (f_name f) (int j))) (int j) = Ok st0"
      "st = st0\<lparr>st_fill := n\<rparr>"
    using assms(1) unfolding handle_def by metis
  moreover obtain c where "stage_count_text v (f_name f) = Some (FormatInt c)"
      "int (length (f_stages f)) \<le> sint c"
    using assms(1) by (auto simp: handle_def)
  ultimately have "stage_count_text v (f_name f) = Some (FormatInt c) \<and> 0 \<le> int j \<and> int j < sint c
      \<and> mapToStage (vhash v (stageMetaKey (f_name f) (int j))) (int j) = Ok st0
      \<and> stage_has P v (f_name f) item st0"
    using assms(3) j(1) by simp
  then show ?thesis unfolding present_def by blast
qed

section \<open>Growth and Add\<close>

lemma int_in_i64:
  assumes "0 \<le> i" "i < 2 ^ 63"
  shows "sint (word_of_int i :: i64) = i" "(word_of_int i :: i64) = 0 \<longleftrightarrow> i = 0"
proof -
  show "sint (word_of_int i :: i64) = i"
    using assms by (simp add: sint_sbintrunc' signed_take_bit_int_eq_self)
  then show "(word_of_int i :: i64) = 0 \<longleftrightarrow> i = 0" by (metis sint_0 of_int_0)
qed

context bit_store
begin

lemma reload_law:
  assumes "reload P B (f, s) = (r, (f', t))"
  shows "view t = view s" "f_name f' = f_name f"
    "r = Ok () \<Longrightarrow> \<exists>g. Load_view P (view s) (f_name f) = Ok g \<and> f' = f\<lparr>f_stages := f_stages g\<rparr>"
    "(\<exists>p. r = Panic p) \<Longrightarrow> \<exists>p. Load_view P (view s) (f_name f) = Panic p"
proof -
  obtain r0 u where load: "Load P B (f_name f) s = (r0, u)" by fastforce
  have eq: "reload P B (f, s) = (case r0 of Ok g \<Rightarrow> (Ok (), (f\<lparr>f_stages := f_stages g\<rparr>, u))
      | Err e \<Rightarrow> (Err (Errorf ''bloom: reload after race: '' e), (f, u))
      | Panic p \<Rightarrow> (Panic p, (f, u)))"
    using load by (cases r0) (simp_all add: reload_def)
  from readsD [OF reads_Load load]
  have law: "view u = view s" "Load_view P (view s) (f_name f) = r0 \<or> (\<exists>e. r0 = Err e)" by auto
  show "view t = view s" "f_name f' = f_name f"
    "r = Ok () \<Longrightarrow> \<exists>g. Load_view P (view s) (f_name f) = Ok g \<and> f' = f\<lparr>f_stages := f_stages g\<rparr>"
    "(\<exists>p. r = Panic p) \<Longrightarrow> \<exists>p. Load_view P (view s) (f_name f) = Panic p"
    using assms law unfolding eq by (auto split: res.splits)
qed

lemma AppendStage_evolves:
  assumes "AppendStage B (metaKey nm) x fs (stageMetaKey nm (sint x)) s = (r, t)"
    and "valid_name nm" "x \<noteq> 0" "sint x < 2 ^ 63 - 1"
  shows "evolves {} (view s) (view t)"
proof (cases "counts_ok (view s)")
  case True
  then consider "stage_count_text (view s) nm = None"
    | c where "stage_count_text (view s) nm = Some (FormatInt c)"
    using assms(2) unfolding counts_ok_def by metis
  then show ?thesis
  proof cases
    case 1
    then show ?thesis using AppendStage_none [OF assms(1) kinds(1,2)] assms(3)
      by (simp add: stage_count_text_def)
  next
    case (2 c)
    have ne: "stageMetaKey nm (sint x) \<noteq> metaKey nm" using keys_of_kinds(1) assms(2) by metis
    show ?thesis
    proof (cases "c = x")
      case True
      with AppendStage_win [OF assms(1) kinds(1,2) ne _ assms(4)] 2 show ?thesis
        using evolves_append [OF assms(2) _ assms(4)] unfolding stage_count_text_def
        by fastforce
    next
      case False
      with AppendStage_lose [OF assms(1) kinds(1,2)] 2 show ?thesis
        by (simp add: stage_count_text_def)
    qed
  qed
qed (simp add: evolves_def)

lemma appendNewStage_law:
  assumes "appendNewStage P B (f, s) = (r, (f', t))"
    and "valid_name (f_name f)" "f_stages f \<noteq> []" "40 * int (length (f_stages f)) \<le> 2 ^ 48"
  shows "evolves {} (view s) (view t)" "f_name f' = f_name f"
proof -
  let ?i = "int (length (f_stages f))"
  have i: "sint (word_of_int ?i :: i64) = ?i" "(word_of_int ?i :: i64) \<noteq> 0"
    using assms(3,4) int_in_i64 [of ?i] by simp_all
  let ?C = "wrapR (''bloom: compute stage '' @ Itoa ?i @ '': '')
      (computeStage P (f_n f) (f_p f) (f_r f) (f_s f) ?i)"
  show "evolves {} (view s) (view t)" "f_name f' = f_name f"
  proof (atomize (full), cases ?C)
    case (Ok st)
    obtain r1 u where app: "AppendStage B (metaKey (f_name f)) (word_of_int ?i) (stageToMap st)
        (stageMetaKey (f_name f) ?i) s = (r1, u)" by fastforce
    have ev: "evolves {} (view s) (view u)"
      using AppendStage_evolves [of "f_name f" "word_of_int ?i" "stageToMap st" s r1 u]
        app assms(2,4) i by simp
    show "evolves {} (view s) (view t) \<and> f_name f' = f_name f"
    proof (cases r1)
      case ok: (Ok c)
      then show ?thesis
        using assms(1) Ok app ev reload_law(1,2)
        by (auto simp: appendNewStage_def Let_def split: if_splits)
    qed (use assms(1) Ok app ev in \<open>auto simp: appendNewStage_def Let_def\<close>)
  qed (use assms(1) in \<open>auto simp: appendNewStage_def Let_def\<close>)
qed

text \<open>The part of \<open>Add\<close> after the positions are known, and then all of it.\<close>

lemma Add_positions:
  assumes "f_stages f \<noteq> []" "hashParts P item = (h1, h2)"
    "positions h1 h2 (st_m (last (f_stages f))) (st_k (last (f_stages f))) = Ok ps"
  shows "Add P B ord item (f, s) = (let cur = last (f_stages f) in
     case set_groups B (f_name f) (st_index cur) (range_groups ord (groupByShard ps)) s of
       (Ok _, u) \<Rightarrow> (case Incr B (fillKey (f_name f) (st_index cur)) u of
          (Ok n, u') \<Rightarrow> let f' = f\<lparr>f_stages := butlast (f_stages f) @ [cur\<lparr>st_fill := n\<rparr>]\<rparr> in
            if st_capacity cur \<le> n then appendNewStage P B (f', u') else (Ok (), (f', u'))
        | (Err e, u') \<Rightarrow> (Err (Errorf ''bloom: incr fill: '' e), (f, u'))
        | (Panic q, u') \<Rightarrow> (Panic q, (f, u')))
     | (Err e, u) \<Rightarrow> (Err e, (f, u)) | (Panic q, u) \<Rightarrow> (Panic q, (f, u)))"
  using assms by (simp add: Add_def Let_def bindC_def onStore_def wrapC_def
      split: prod.split res.split)

lemma Add_no_positions:
  assumes "hashParts P item = (h1, h2)"
    "\<And>ps. positions h1 h2 (st_m (last (f_stages f))) (st_k (last (f_stages f))) \<noteq> Ok ps"
  shows "\<exists>r. Add P B ord item (f, s) = (r, (f, s)) \<and> r \<noteq> Ok ()"
  using assms
  by (cases "positions h1 h2 (st_m (last (f_stages f))) (st_k (last (f_stages f)))")
    (auto simp: Add_def Let_def)

lemma Add_law:
  assumes "Add P B ord item (f, s) = (r, (f', t))"
    and "valid_name (f_name f)" "40 * int (length (f_stages f)) \<le> 2 ^ 48"
  shows "evolves {} (view s) (view t) \<and> f_name f' = f_name f
    \<and> (r = Ok () \<longrightarrow> counts_ok (view s) \<longrightarrow> handle (view s) f \<longrightarrow>
         present P (view t) (f_name f) item)"
proof (cases "f_stages f = []")
  case True
  then show ?thesis using assms(1) by (auto simp: Add_def)
next
  case ne: False
  define cur where "cur = last (f_stages f)"
  obtain h1 h2 where h: "hashParts P item = (h1, h2)" by fastforce
  show ?thesis
  proof (cases "\<exists>ps. positions h1 h2 (st_m cur) (st_k cur) = Ok ps")
    case False
    with Add_no_positions [OF h, of f ord s] assms(1) show ?thesis
      by (auto simp: cur_def)
  next
    case True
    then obtain ps where ps: "positions h1 h2 (st_m cur) (st_k cur) = Ok ps" by blast
    obtain r1 u where set: "set_groups B (f_name f) (st_index cur)
        (range_groups ord (groupByShard ps)) s = (r1, u)" by fastforce
    note law = set_groups_law [OF set]
    have ev: "evolves {} (view s) (view u)" using law by (auto intro: evolves_same_hash)
    obtain r2 u' where incr: "Incr B (fillKey (f_name f) (st_index cur)) u = (r2, u')" by fastforce
    have ev2: "evolves {} (view u) (view u')" using Incr_law [OF incr] by auto
    have all: "evolves {} (view u') (view t) \<and> f_name f' = f_name f"
      if "r1 = Ok ()" "r2 = Ok n" for n
      using assms that set incr appendNewStage_law [of P _ u' r f' t] ne
      unfolding Add_positions [OF ne h ps [unfolded cur_def]] Let_def cur_def [symmetric]
      by (force split: if_splits)
    have has: "present P (view u) (f_name f) item"
      if "r1 = Ok ()" "counts_ok (view s)" "handle (view s) f"
    proof (rule handle_present)
      show "handle (view u) f" using handle_evolves [OF that(3) ev that(2)] by simp
      show "cur \<in> set (f_stages f)" using ne by (simp add: cur_def)
      show "stage_has P (view u) (f_name f) item cur"
        using law that(1) ps h by (simp add: stage_has_def groups_subset_iff)
    qed
    have mid: "evolves {} (view u) (view t)" if "r1 = Ok ()" "r2 = Ok n" for n
      using evolves_trans_same [OF ev2] all [OF that] by blast
    have keep: "present P (view t) (f_name f) item"
      if "r1 = Ok ()" "counts_ok (view s)" "handle (view s) f" "evolves {} (view u) (view t)"
      using present_evolves [OF has [OF that(1-3)] that(4) counts_ok_evolves [OF that(2) ev]]
        assms(2) by simp
    show ?thesis
    proof (cases "r1 = Ok () \<and> (\<exists>n. r2 = Ok n)")
      case True
      then show ?thesis using mid all keep evolves_trans_same [OF ev] by blast
    next
      case False
      then show ?thesis
        using assms(1) set incr ev evolves_trans_same [OF ev ev2]
        unfolding Add_positions [OF ne h ps [unfolded cur_def]] Let_def cur_def [symmetric]
        by (auto split: res.splits)
    qed
  qed
qed

end

section \<open>New and Drop\<close>

lemma FormatInt_1: "FormatInt 1 = ''1''"
  by code_simp

lemma filterMeta_count: "fmlookup (filterMeta P now n p) ''stage_count'' = Some (FormatInt 1)"
  by (simp add: filterMeta_def FormatInt_1)

text \<open>Views that differ only in what \<open>New\<close> writes for a filter that has no metadata.\<close>

definition new_written :: "string \<Rightarrow> view \<Rightarrow> view \<Rightarrow> bool" where
  "new_written name v w \<longleftrightarrow> vbits w = vbits v \<and> vctr w = vctr v
     \<and> (\<forall>k. k \<notin> {metaKey name} \<union> range (stageMetaKey name) \<longrightarrow> vhash w k = vhash v k)
     \<and> (stage_count_text w name = None \<or> stage_count_text w name = Some (FormatInt 1))"

lemma new_written_evolves:
  assumes "new_written name v w" "stage_count_text v name = None" "valid_name name"
  shows "evolves X v w"
  using assms by (intro evolves_create [of name]) (auto simp: new_written_def)

lemma new_written_steps:
  assumes "new_written name v w" "valid_name name"
  shows "new_written name v (v_hset (metaKey name) (filterMeta P now n p) w)"
    "new_written name v (v_hset (stageMetaKey name i) fs w)"
    "new_written name v (v_sadd k ms w)"
  using assms keys_of_kinds(1) [OF assms(2,2)]
  by (auto simp: new_written_def v_hset_def v_sadd_def stage_count_text_def filterMeta_count)

lemma drop_keys_own: "set (drop_keys f) \<subseteq> own_keys (f_name f)"
  by (auto simp: drop_keys_def stage_keys_def)

context bit_store
begin

lemma New_written:
  assumes "New P B now name n p s = (r, t)" "valid_name name"
  shows "view t = view s \<or> stage_count_text (view s) name = None \<and> new_written name (view s) (view t)"
proof -
  obtain r0 u where get: "HGetAll B (metaKey name) s = (r0, u)" by fastforce
  have u: "view u = view s" using HGetAll_law [OF get] by simp
  show ?thesis
  proof (cases "r0 = Ok fmempty")
    case False
    have "view t = view u \<or> view t = view s" using assms(1) get False
      by (cases r0) (auto simp: New_def split: if_splits)
    then show ?thesis using u by auto
  next
    case True
    then have none: "stage_count_text (view s) name = None"
      using HGetAll_law [OF get] by (auto simp: stage_count_text_def)
    obtain r1 u1 where w1: "HSet B (metaKey name) (filterMeta P now n p) u = (r1, u1)" by fastforce
    have n0: "new_written name (view s) (view u)" using u none by (simp add: new_written_def)
    have n1: "new_written name (view s) (view u1)"
      using HSet_law [OF w1] n0 new_written_steps(1) [OF n0 assms(2)] by auto
    show ?thesis
    proof (cases "computeStage P n p DefaultR DefaultS 0")
      case (Ok st)
      obtain r2 u2 where w2: "HSet B (stageMetaKey name 0) (stageToMap st) u1 = (r2, u2)"
        by fastforce
      have n2: "new_written name (view s) (view u2)"
        using HSet_law [OF w2] n1 new_written_steps(2) [OF n1 assms(2)] by auto
      obtain r3 u3 where w3: "SAdd B registryKey [name] u2 = (r3, u3)" by fastforce
      have n3: "new_written name (view s) (view u3)"
        using SAdd_law [OF w3] n2 new_written_steps(3) [OF n2 assms(2)] by auto
      have "t \<in> {s, u1, u2, u3}"
        using assms(1) get True Ok w1 w2 w3
        by (cases r1; cases r2; cases r3) (auto simp: New_def split: if_splits)
      then show ?thesis using none n1 n2 n3 by auto
    qed (use assms(1) get True u in \<open>auto simp: New_def split: if_splits\<close>)
  qed
qed

lemma New_evolves:
  assumes "New P B now name n p s = (r, t)" "valid_name name"
  shows "evolves {} (view s) (view t)"
  using New_written [OF assms] new_written_evolves [OF _ _ assms(2)] by fastforce

lemma Drop_evolves:
  assumes "Drop B f s = (r, t)" "valid_name (f_name f)"
  shows "evolves {f_name f} (view s) (view t)"
proof -
  obtain r1 u where d: "Del B (drop_keys f) s = (r1, u)" by fastforce
  obtain r2 u2 where e: "SRem B registryKey [f_name f] u = (r2, u2)" by fastforce
  have u: "evolves {f_name f} (view s) (view u)"
    using Del_law [OF d] evolves_del [OF assms(2) drop_keys_own] by auto
  moreover have "evolves {f_name f} (view u) (view u2)"
    using SRem_law [OF e] by auto
  moreover have "t = u \<or> t = u2"
    using assms(1) d e by (cases r1) (auto simp: Drop_def)
  ultimately show ?thesis using evolves_trans_same by blast
qed

end

end
