(* ===== verification/ServiceLaws.thy ===== *)
theory ServiceLaws
  imports Service BloomLaws
begin

text \<open>
  The service against the store's contract: every request is an evolution of the view whatever it
  answers, and no history of requests on a store that may fail at any point makes an added item
  disappear.
\<close>

fun request_name :: "request \<Rightarrow> string option" where
  "request_name (CreateReq now name n p) = Some name"
| "request_name (AddReq ord name value) = Some name"
| "request_name (ExistsReq ords name value) = Some name"
| "request_name (StatsReq name) = Some name"
| "request_name (DeleteReq name) = Some name"
| "request_name (SamplesReq mg) = None"

definition valid_request :: "request \<Rightarrow> bool" where
  "valid_request q \<longleftrightarrow> (\<forall>name. request_name q = Some name \<longrightarrow> valid_name name)"

fun dropped :: "request \<Rightarrow> string set" where
  "dropped (DeleteReq name) = {name}"
| "dropped q = {}"

section \<open>Calls with telemetry\<close>

lemma map_prod_id_dest: "map_prod g id x = (a, y) \<Longrightarrow> \<exists>r. x = (r, y) \<and> a = g r"
  by (cases x) simp

lemma traced_cases:
  assumes "traced span op body (tm, s) = (r, (tm', t))"
  obtains tm0 where "body (tm, s) = (r, (tm0, t))"
    "tm' = finishSpan span op (case r of Err e \<Rightarrow> Some e | _ \<Rightarrow> None) tm0"
  using assms by (auto simp: traced_def split: prod.splits)

lemma mapErrC_cases:
  assumes "mapErrC c s = (r, t)"
  obtains r0 where "c s = (r0, t)" "r = (case r0 of Err e \<Rightarrow> Err (mapErr e) | _ \<Rightarrow> r0)"
  using assms unfolding mapErrC_def by (elim catchC_cases) (auto simp: )

lemma withFilter_cases:
  assumes "withFilter f c s = (r, t)"
  obtains f' where "c (f, s) = (r, (f', t))"
  using assms by (auto simp: withFilter_def split: prod.splits)

context bit_store
begin

lemma Load_reads:
  assumes "Load P B name s = (r, t)"
  shows "view t = view s"
    "(\<nexists>e. r = Err e) \<Longrightarrow> r = Load_view P (view s) name"
  using readsD [OF reads_Load assms] by auto

lemma Load_Ok: "Load P B name s = (Ok f, t) \<Longrightarrow> view t = view s \<and> Load_view P (view s) name = Ok f"
  using Load_reads [of P name s "Ok f" t] by simp

lemma sample_loop_same: "sample_loop P B names s = (r, t) \<Longrightarrow> view t = view s"
proof (induction names arbitrary: r s)
  case (Cons name names)
  show ?case using Cons.prems unfolding sample_loop.simps
    by (elim bindC_cases catchC_cases) (auto dest!: Load_reads(1) Cons.IH)
qed simp

lemma sample_loop_length:
  "sample_loop P B names s = (r, t) \<Longrightarrow> (\<forall>e. r \<noteq> Err e) \<and> (\<forall>xs. r = Ok xs \<longrightarrow> length xs \<le> length names)"
proof (induction names arbitrary: s r t)
  case (Cons name names)
  let ?one = "catchC (bindC (Load P B name) (\<lambda>f. returnC [sample_of P name f])) (\<lambda>e. returnC [])"
  obtain r1 u where one: "?one s = (r1, u)" by fastforce
  then have r1: "(\<forall>e. r1 \<noteq> Err e) \<and> (\<forall>xs. r1 = Ok xs \<longrightarrow> length xs \<le> 1)"
    by (auto elim!: catchC_cases bindC_cases)
  obtain r2 v where rest: "sample_loop P B names u = (r2, v)" by fastforce
  show ?case using Cons.prems one rest r1 Cons.IH [OF rest]
    by (cases r1; cases r2) force+
qed simp

lemma FilterSamples_same: "FilterSamples P B mg s = (r, t) \<Longrightarrow> view t = view s"
  unfolding FilterSamples_def ListFilters_def
  by (elim bindC_cases catchC_cases)
    (auto dest!: sample_loop_same SMembers_law)

lemma Create_evolves:
  assumes "Create P B now name n p (tm, s) = (r, (tm', t))" "valid_name name"
  shows "evolves {} (view s) (view t)"
proof -
  obtain r0 u where new: "New P B now name n p s = (r0, u)" by fastforce
  have "t = u" using assms(1) new unfolding Create_def
    by (elim traced_cases bindC_cases mapErrC_cases onStore_cases)
      (auto simp: Let_def split: if_splits)
  then show ?thesis using New_evolves [OF new assms(2)] by simp
qed

text \<open>The operations that load the filter first.\<close>

lemma loaded_cases:
  assumes "traced span op (bindC (mapErrC (onStore (Load P B name))) c) (tm, s) = (r, (tm', t))"
  obtains (no_filter) e where "view t = view s" "r = Err e"
    | (panic) p where "view t = view s" "r = Panic p"
    | (loaded) f u tm0 where "view u = view s" "Load_view P (view s) name = Ok f"
        "c f (tm, u) = (r, (tm0, t))"
  using assms
  by (elim traced_cases bindC_cases mapErrC_cases onStore_cases)
    (auto dest: Load_reads(1) Load_Ok split: res.splits)

lemma SvcAdd_law:
  assumes "SvcAdd P B ord name value (tm, s) = (r, (tm', t))" "valid_name name"
  shows "evolves {} (view s) (view t)
    \<and> (r = Ok () \<longrightarrow> counts_ok (view s) \<longrightarrow> present P (view t) name value)"
  using assms(1) unfolding SvcAdd_def
proof (cases rule: loaded_cases)
  case (loaded f u tm0)
  note f = Load_view_Ok [OF loaded(2)]
  obtain r1 f' t1 where add1: "Add P B ord value (f, u) = (r1, (f', t1))" by (metis surj_pair)
  have "t1 = t \<and> (r = Ok () \<longrightarrow> r1 = Ok ())"
    using loaded(3) add1
    by (cases r1) (auto simp: mapErrC_def withFilter_def onStore_def bindC_def catchC_def)
  with add1 have add: "Add P B ord value (f, u) = (r1, (f', t))" "r = Ok () \<longrightarrow> r1 = Ok ()"
    by auto
  note law = Add_law [OF add(1)]
  have "handle (view u) f" if "r = Ok ()" "counts_ok (view s)"
  proof -
    have "f_stages f \<noteq> []" using add that(1) by (auto simp: Add_def)
    then show ?thesis using handle_Load [OF loaded(2) that(2) assms(2)] loaded(1) by simp
  qed
  then show ?thesis using law f(1,4) assms(2) add(2) loaded(1) by auto
qed auto

lemma SvcExists_law:
  assumes "SvcExists P B ords name value (tm, s) = (r, (tm', t))"
  shows "view t = view s \<and> (present P (view s) name value \<longrightarrow> r \<noteq> Ok False)"
  using assms unfolding SvcExists_def
proof (cases rule: loaded_cases)
  case (loaded f u tm0)
  obtain r1 where ex: "Exists P B ords value f u = (r1, t)" "r1 = Ok False \<or> r \<noteq> Ok False"
    using loaded(3) by (elim mapErrC_cases onStore_cases) (auto split: res.splits)
  have "r1 \<noteq> Ok False" if "present P (view s) name value"
  proof
    assume "r1 = Ok False"
    then have "Exists_view P (view s) value f = Ok False"
      using readsD [OF reads_Exists ex(1)] loaded(1) by auto
    then show False
      using Exists_view_Ok Load_view_present [OF loaded(2) that] Load_view_Ok(1) [OF loaded(2)]
      by metis
  qed
  then show ?thesis using readsD [OF reads_Exists ex(1)] ex(2) loaded(1) by auto
qed auto

lemma SvcStats_same: "SvcStats P B name (tm, s) = (r, (tm', t)) \<Longrightarrow> view t = view s"
  unfolding SvcStats_def by (cases rule: loaded_cases) auto

lemma Delete_evolves:
  assumes "Delete P B name (tm, s) = (r, (tm', t))" "valid_name name"
  shows "evolves {name} (view s) (view t)"
  using assms(1) unfolding Delete_def
proof (cases rule: loaded_cases)
  case (loaded f u tm0)
  obtain r1 where "Drop B f u = (r1, t)"
    using loaded(3) by (elim mapErrC_cases onStore_cases) auto
  then show ?thesis
    using Drop_evolves Load_view_Ok(1) [OF loaded(2)] assms(2) loaded(1) by metis
qed auto

section \<open>Histories\<close>

lemma svc_step_evolves:
  assumes "svc_step P B q (tm, s) = (a, (tm', t))" "valid_request q"
  shows "evolves (dropped q) (view s) (view t)"
proof (cases q)
  case (CreateReq now name n p)
  then show ?thesis using assms
    by (auto simp: valid_request_def dest!: map_prod_id_dest dest: Create_evolves)
next
  case (AddReq ord name item)
  then show ?thesis using assms
    by (auto simp: valid_request_def dest!: map_prod_id_dest dest: SvcAdd_law)
next
  case (ExistsReq ords name item)
  then show ?thesis using assms
    by (auto simp: valid_request_def dest!: map_prod_id_dest dest: SvcExists_law)
next
  case (StatsReq name)
  then show ?thesis using assms
    by (auto simp: valid_request_def dest!: map_prod_id_dest SvcStats_same)
next
  case (DeleteReq name)
  then show ?thesis using assms
    by (auto simp: valid_request_def dest!: map_prod_id_dest dest: Delete_evolves)
next
  case (SamplesReq mg)
  then show ?thesis using assms
    by (auto dest!: map_prod_id_dest elim!: onStore_cases dest!: FilterSamples_same)
qed

lemma svc_step_reply:
  assumes "svc_step P B q (tm, s) = (a, (tm', t))" "valid_request q" "counts_ok (view s)"
  shows "q = AddReq ord name item \<Longrightarrow> a = AddRep (Ok ()) \<Longrightarrow> present P (view t) name item"
    "q = ExistsReq ords name item \<Longrightarrow> present P (view s) name item \<Longrightarrow> a \<noteq> ExistsRep (Ok False)"
  using assms
  by (auto simp: valid_request_def dest!: map_prod_id_dest dest: SvcAdd_law SvcExists_law)

lemma svc_run_evolves:
  assumes "svc_run P B qs (tm, s) = (rs, (tm', t))" "\<forall>q \<in> set qs. valid_request q"
  shows "evolves (\<Union>(dropped ` set qs)) (view s) (view t)"
  using assms
proof (induction qs arbitrary: tm s rs)
  case (Cons q qs)
  obtain a tm1 s1 where step: "svc_step P B q (tm, s) = (a, (tm1, s1))" by (metis surj_pair)
  then obtain rs' where run: "svc_run P B qs (tm1, s1) = (rs', (tm', t))"
    using Cons.prems(1) by (auto split: prod.splits)
  show ?case
    using evolves_trans [OF svc_step_evolves [OF step] Cons.IH [OF run]] Cons.prems(2) by simp
qed simp

end

lemma svc_run_append:
  "svc_run P B (qs @ qs') s = (case svc_run P B qs s of (rs, t) \<Rightarrow>
     case svc_run P B qs' t of (rs', u) \<Rightarrow> (rs @ rs', u))"
  by (induction qs arbitrary: s) (simp_all split: prod.split)

lemma svc_run_length: "svc_run P B qs s = (rs, t) \<Longrightarrow> length rs = length qs"
  by (induction qs arbitrary: s rs) (auto split: prod.splits)

lemma svc_run_split:
  assumes "svc_run P B (qs @ qs') s = (rs @ rs', u)" "length rs = length qs"
  obtains t where "svc_run P B qs s = (rs, t)" "svc_run P B qs' t = (rs', u)"
  using assms by (auto simp: svc_run_append dest: svc_run_length split: prod.splits)

lemma svc_run_Cons:
  assumes "svc_run P B (q # qs) s = (a # rs, u)"
  obtains t where "svc_run P B [q] s = ([a], t)" "svc_run P B qs t = (rs, u)"
    "svc_step P B q s = (a, t)"
  using assms by (auto split: prod.splits)

context bit_store
begin

lemma no_forgotten_item:
  assumes run: "svc_run P B (qs @ AddReq ord name item # qs' @ [ExistsReq ords name item]) (tm, s)
      = (rs @ AddRep (Ok ()) # rs' @ [a], u)" "length rs = length qs" "length rs' = length qs'"
    and valid: "\<forall>q \<in> set (AddReq ord name item # qs @ qs'). valid_request q"
    and kept: "\<forall>q \<in> set qs'. name \<notin> dropped q"
    and start: "counts_ok (view s)"
  shows "a \<noteq> ExistsRep (Ok False)"
proof -
  obtain tm1 s1 where r1: "svc_run P B qs (tm, s) = (rs, (tm1, s1))"
    and rest: "svc_run P B (AddReq ord name item # qs' @ [ExistsReq ords name item]) (tm1, s1)
      = (AddRep (Ok ()) # rs' @ [a], u)"
    using svc_run_split [OF run(1,2)] by (metis surj_pair)
  obtain tm2 s2 where add: "svc_step P B (AddReq ord name item) (tm1, s1) = (AddRep (Ok ()), (tm2, s2))"
    and rest2: "svc_run P B (qs' @ [ExistsReq ords name item]) (tm2, s2) = (rs' @ [a], u)"
    using svc_run_Cons [OF rest] by (metis surj_pair)
  obtain tm3 s3 where r2: "svc_run P B qs' (tm2, s2) = (rs', (tm3, s3))"
    and rest3: "svc_run P B [ExistsReq ords name item] (tm3, s3) = ([a], u)"
    using svc_run_split [OF rest2 run(3)] by (metis surj_pair)
  have ex: "svc_step P B (ExistsReq ords name item) (tm3, s3) = (a, u)"
    using svc_run_Cons [OF rest3] by (auto simp del: svc_step.simps)
  have c1: "counts_ok (view s1)"
    using counts_ok_evolves [OF start svc_run_evolves [OF r1]] valid by simp
  then have c2: "counts_ok (view s2)"
    using counts_ok_evolves svc_step_evolves [OF add] valid by simp
  have "present P (view s2) name item"
    using svc_step_reply(1) [OF add _ c1] valid by simp
  moreover have "\<forall>q \<in> set qs'. valid_request q" "valid_name name"
    "name \<notin> \<Union>(dropped ` set qs')"
    using valid kept by (auto simp: valid_request_def)
  ultimately have p: "present P (view s3) name item"
    using present_evolves [OF _ svc_run_evolves [OF r2] c2] by blast
  have "counts_ok (view s3)"
    using counts_ok_evolves [OF c2 svc_run_evolves [OF r2]] valid by simp
  moreover have "valid_request (ExistsReq ords name item)"
    using valid by (simp add: valid_request_def)
  ultimately show ?thesis
    using svc_step_reply(2) [of P "ExistsReq ords name item" tm3 s3 a] ex p by (metis surj_pair)
qed

end

end
