(* ===== verification/AbstractSpec.thy ===== *)
theory AbstractSpec
  imports ServiceLaws
begin

text \<open>
  The abstract specification: a store of scalable bloom filters with no keys, shards, bitmaps,
  counters or texts. A filter is its parameters and its stages; a stage is its size and the list of
  the items it was given. An item is in a stage when every one of its positions is a position of
  some item of the stage.
\<close>

record astage =
  as_m :: u64
  as_k :: int
  as_cap :: u64
  as_items :: "bytes list"

record afilter =
  af_n :: u64
  af_p :: f64
  af_stages :: "astage list"

type_synonym astore = "string \<Rightarrow> afilter option"

definition item_positions :: "platform \<Rightarrow> astage \<Rightarrow> bytes \<Rightarrow> u64 list res" where
  "item_positions P st item = (case hashParts P item of (h1, h2) \<Rightarrow> positions h1 h2 (as_m st) (as_k st))"

definition stage_bits :: "platform \<Rightarrow> astage \<Rightarrow> u64 set" where
  "stage_bits P st = {p. \<exists>item \<in> set (as_items st). \<exists>ps. item_positions P st item = Ok ps \<and> p \<in> set ps}"

definition stage_fill :: "astage \<Rightarrow> u64" where
  "stage_fill st = word_of_nat (length (as_items st))"

definition concrete_stage :: "nat \<Rightarrow> astage \<Rightarrow> stage" where
  "concrete_stage i st = \<lparr>st_index = int i, st_m = as_m st, st_k = as_k st,
     st_capacity = as_cap st, st_fill = stage_fill st\<rparr>"

definition concrete_filter :: "string \<Rightarrow> afilter \<Rightarrow> bloom" where
  "concrete_filter name F = \<lparr>f_name = name, f_n = af_n F, f_p = af_p F, f_r = DefaultR,
     f_s = DefaultS, f_stages = map (\<lambda>(i, st). concrete_stage i st) (enumerate 0 (af_stages F))\<rparr>"

definition empty_stage :: "stage \<Rightarrow> astage" where
  "empty_stage st = \<lparr>as_m = st_m st, as_k = st_k st, as_cap = st_capacity st, as_items = []\<rparr>"

section \<open>Operations\<close>

definition spec_create :: "platform \<Rightarrow> afilter option \<Rightarrow> u64 \<Rightarrow> f64 \<Rightarrow> afilter res" where
  "spec_create P old n p =
    (if n = 0 then Err ErrInvalidN
     else if p \<le> 0 \<or> 1 \<le> p then Err ErrInvalidP
     else if old \<noteq> None then Err ErrFilterExists
     else bindR (computeStage P n p DefaultR DefaultS 0) (\<lambda>st.
       Ok \<lparr>af_n = n, af_p = p, af_stages = [empty_stage st]\<rparr>))"

text \<open>An item goes into the last stage; a full stage is followed by a new one.\<close>

definition spec_grow :: "platform \<Rightarrow> afilter \<Rightarrow> unit res \<times> afilter" where
  "spec_grow P F = (let idx = int (length (af_stages F)) in
     case wrapR (''bloom: compute stage '' @ Itoa idx @ '': '')
            (computeStage P (af_n F) (af_p F) DefaultR DefaultS idx) of
       Ok st \<Rightarrow> (Ok (), F\<lparr>af_stages := af_stages F @ [empty_stage st]\<rparr>)
     | Err e \<Rightarrow> (Err e, F) | Panic q \<Rightarrow> (Panic q, F))"

definition spec_add :: "platform \<Rightarrow> bytes \<Rightarrow> afilter \<Rightarrow> unit res \<times> afilter" where
  "spec_add P item F = (let cur = last (af_stages F) in
     case item_positions P cur item of
       Ok ps \<Rightarrow> (let cur' = cur\<lparr>as_items := as_items cur @ [item]\<rparr>;
           F' = F\<lparr>af_stages := butlast (af_stages F) @ [cur']\<rparr>
         in if as_cap cur \<le> stage_fill cur' then spec_grow P F' else (Ok (), F'))
     | Err e \<Rightarrow> (Err e, F) | Panic q \<Rightarrow> (Panic q, F))"

fun spec_exists :: "platform \<Rightarrow> bytes \<Rightarrow> astage list \<Rightarrow> bool res" where
  "spec_exists P item [] = Ok False"
| "spec_exists P item (st # older) = bindR (item_positions P st item) (\<lambda>ps.
     if set ps \<subseteq> stage_bits P st then Ok True else spec_exists P item older)"

section \<open>Requests\<close>

definition mapErrR :: "'a res \<Rightarrow> 'a res" where
  "mapErrR r = (case r of Err e \<Rightarrow> Err (mapErr e) | _ \<Rightarrow> r)"

definition spec_find :: "astore \<Rightarrow> string \<Rightarrow> (afilter \<Rightarrow> 'a res) \<Rightarrow> 'a res" where
  "spec_find a name g = (case a name of None \<Rightarrow> Err ErrNotFound | Some F \<Rightarrow> g F)"

definition spec_info :: "string \<Rightarrow> afilter \<Rightarrow> FilterInfo" where
  "spec_info name F = \<lparr>fi_Name = name, fi_Stages = int (length (af_stages F)),
     fi_M = as_m (hd (af_stages F)), fi_K = as_k (hd (af_stages F))\<rparr>"

fun spec_next :: "platform \<Rightarrow> request \<Rightarrow> astore \<Rightarrow> astore" where
  "spec_next P (CreateReq now name n p) a = (case spec_create P (a name) n p of
     Ok F \<Rightarrow> a(name \<mapsto> F) | _ \<Rightarrow> a)"
| "spec_next P (AddReq ord name item) a = (case a name of None \<Rightarrow> a
     | Some F \<Rightarrow> a(name \<mapsto> snd (spec_add P item F)))"
| "spec_next P (DeleteReq name) a = a(name := None)"
| "spec_next P q a = a"

text \<open>
  The reply is determined, except for the order in which the samples list the filters (and, when
  there are more than the cap, which are listed).
\<close>

fun spec_reply :: "platform \<Rightarrow> request \<Rightarrow> astore \<Rightarrow> reply \<Rightarrow> bool" where
  "spec_reply P (CreateReq now name n p) a rep \<longleftrightarrow>
     rep = CreateRep (mapErrR (bindR (spec_create P (a name) n p) (\<lambda>F. Ok (spec_info name F))))"
| "spec_reply P (AddReq ord name item) a rep \<longleftrightarrow>
     rep = AddRep (mapErrR (spec_find a name (\<lambda>F. fst (spec_add P item F))))"
| "spec_reply P (ExistsReq ords name item) a rep \<longleftrightarrow>
     rep = ExistsRep (mapErrR (spec_find a name (\<lambda>F. spec_exists P item (rev (af_stages F)))))"
| "spec_reply P (StatsReq name) a rep \<longleftrightarrow>
     rep = StatsRep (mapErrR (spec_find a name
       (\<lambda>F. Ok (toStats (Stats (concrete_filter name F))))))"
| "spec_reply P (DeleteReq name) a rep \<longleftrightarrow>
     rep = DeleteRep (mapErrR (spec_find a name (\<lambda>F. Ok ())))"
| "spec_reply P (SamplesReq mg) a rep \<longleftrightarrow> (\<exists>names. set names = dom a \<and> distinct names
     \<and> rep = SamplesRep (Ok \<lparr>fo_Count = int (length names),
         fo_Samples = map (\<lambda>name. sample_of P name (concrete_filter name (the (a name))))
           (cap_names mg names)\<rparr>))"

fun spec_run :: "platform \<Rightarrow> request list \<Rightarrow> astore \<Rightarrow> reply list \<Rightarrow> astore \<Rightarrow> bool" where
  "spec_run P [] a rs b \<longleftrightarrow> rs = [] \<and> b = a"
| "spec_run P (q # qs) a rs b \<longleftrightarrow> (\<exists>r rs'. rs = r # rs' \<and> spec_reply P q a r
     \<and> spec_run P qs (spec_next P q a) rs' b)"

end
