(* ===== verification/Refinement.thy ===== *)
theory Refinement
  imports AbstractSpec
begin

text \<open>
  The refinement: on a store that does not fail, the service implements the abstract specification.
  \<open>sim\<close> relates a view to an abstract store: what each key of each filter holds.
\<close>

section \<open>The simulation relation\<close>

text \<open>What the keys of stage \<open>i\<close> hold: nothing, or a stage's parameters, fill and bits.\<close>

definition slot :: "platform \<Rightarrow> view \<Rightarrow> string \<Rightarrow> int \<Rightarrow> astage option \<Rightarrow> bool" where
  "slot P v name i ast = (case ast of
     None \<Rightarrow> vhash v (stageMetaKey name i) = fmempty \<and> vctr v (fillKey name i) = None
       \<and> (\<forall>sh. vbits v (shardKey name i sh) = {})
   | Some st \<Rightarrow>
       mapToStage (vhash v (stageMetaKey name i)) i = Ok \<lparr>st_index = i, st_m = as_m st,
         st_k = as_k st, st_capacity = as_cap st, st_fill = 0\<rparr>
       \<and> vctr v (fillKey name i) = (if as_items st = [] then None else Some (stage_fill st))
       \<and> (\<forall>sh. vbits v (shardKey name i sh) =
            {p mod ShardBits | p. p \<in> stage_bits P st \<and> p div ShardBits = sh}))"

definition stage_at :: "astage list \<Rightarrow> int \<Rightarrow> astage option" where
  "stage_at sts i = (if 0 \<le> i \<and> i < int (length sts) then Some (sts ! nat i) else None)"

definition stages_of :: "afilter option \<Rightarrow> astage list" where
  "stages_of F = (case F of None \<Rightarrow> [] | Some F \<Rightarrow> af_stages F)"

definition meta_sim :: "platform \<Rightarrow> fields \<Rightarrow> afilter option \<Rightarrow> bool" where
  "meta_sim P h F = (case F of None \<Rightarrow> h = fmempty
     | Some F \<Rightarrow> (\<exists>now. h = fmupd ''stage_count'' (FormatInt (word_of_nat (length (af_stages F))))
         (filterMeta P now (af_n F) (af_p F))))"

definition filter_sim :: "platform \<Rightarrow> view \<Rightarrow> string \<Rightarrow> afilter option \<Rightarrow> bool" where
  "filter_sim P v name F \<longleftrightarrow> meta_sim P (vhash v (metaKey name)) F
     \<and> (\<forall>i. slot P v name i (stage_at (stages_of F) i))"

text \<open>Sizes that the program can hold, and parameters it can have stored.\<close>

definition afilter_ok :: "nat \<Rightarrow> afilter \<Rightarrow> bool" where
  "afilter_ok N F \<longleftrightarrow> af_stages F \<noteq> [] \<and> length (af_stages F) \<le> N
     \<and> (\<forall>st \<in> set (af_stages F). length (as_items st) \<le> N
          \<and> - (2 ^ 63) \<le> as_k st \<and> as_k st < 2 ^ 63)
     \<and> finite64 (af_p F) \<and> f64_ok (af_p F)"

definition sim :: "platform \<Rightarrow> nat \<Rightarrow> view \<Rightarrow> astore \<Rightarrow> bool" where
  "sim P N v a \<longleftrightarrow> (\<forall>name. valid_name name \<longrightarrow> filter_sim P v name (a name))
     \<and> (\<forall>name F. a name = Some F \<longrightarrow> valid_name name \<and> afilter_ok N F)
     \<and> vset v registryKey = dom a"

lemma afilter_ok_mono: "afilter_ok N F \<Longrightarrow> N \<le> M \<Longrightarrow> afilter_ok M F"
  by (auto simp: afilter_ok_def)

definition empty_view :: view where
  "empty_view = \<lparr>vbits = (\<lambda>_. {}), vhash = (\<lambda>_. fmempty), vctr = (\<lambda>_. None), vset = (\<lambda>_. {})\<rparr>"

lemma slot_None [simp]: "slot P v name i None \<longleftrightarrow>
    vhash v (stageMetaKey name i) = fmempty \<and> vctr v (fillKey name i) = None
       \<and> (\<forall>sh. vbits v (shardKey name i sh) = {})"
  by (simp add: slot_def)

lemma sim_empty: "sim P N empty_view (\<lambda>_. None)"
  by (auto simp: sim_def filter_sim_def meta_sim_def stages_of_def stage_at_def empty_view_def)

section \<open>Frames\<close>

definition same_own :: "string \<Rightarrow> view \<Rightarrow> view \<Rightarrow> bool" where
  "same_own name v w \<longleftrightarrow> (\<forall>k \<in> own_keys name. vbits w k = vbits v k \<and> vhash w k = vhash v k
     \<and> vctr w k = vctr v k)"

lemma filter_sim_same: "same_own name v w \<Longrightarrow> filter_sim P w name F = filter_sim P v name F"
  by (simp add: filter_sim_def slot_def same_own_def split: option.split)

text \<open>A request changes one filter: the others are framed.\<close>

lemma sim_update:
  assumes "sim P N v a" "valid_name name"
    and other: "\<And>nm. valid_name nm \<Longrightarrow> nm \<noteq> name \<Longrightarrow> same_own nm v w"
    and mine: "filter_sim P w name F" "\<And>G. F = Some G \<Longrightarrow> afilter_ok (Suc N) G"
    and reg: "vset w registryKey = dom (a(name := F))"
  shows "sim P (Suc N) w (a(name := F))"
proof -
  have "afilter_ok (Suc N) G" "valid_name nm" if "a nm = Some G" for nm G
    using assms(1) that afilter_ok_mono [of N G "Suc N"] by (auto simp: sim_def)
  moreover have "filter_sim P w nm (a nm)" if "valid_name nm" "nm \<noteq> name" for nm
    using filter_sim_same [OF other [OF that]] assms(1) that(1) by (simp add: sim_def)
  ultimately show ?thesis
    using mine reg assms(2) unfolding sim_def by (simp split: if_splits)
qed

lemma sim_Suc:
  assumes "sim P N v a"
  shows "sim P (Suc N) v a"
  using assms afilter_ok_mono [of N _ "Suc N"] unfolding sim_def by simp

lemma sim_filter: "sim P N v a \<Longrightarrow> valid_name name \<Longrightarrow> filter_sim P v name (a name)"
  by (simp add: sim_def)

section \<open>Loading\<close>

lemma Default_ok: "f64_ok DefaultR" "f64_ok DefaultS" "finite64 DefaultR" "finite64 DefaultS"
  by code_simp+

lemma stages_view_intro:
  assumes "length sts = c" "\<And>j. j < c \<Longrightarrow> stage_view v name (int (i + j)) = Ok (sts ! j)"
  shows "stages_view v name i c = Ok sts"
  using assms
proof (induction c arbitrary: i sts)
  case (Suc c)
  obtain st rest where sts: "sts = st # rest" using Suc.prems(1) by (cases sts) auto
  have "stage_view v name (int i) = Ok st" using Suc.prems(2) [of 0] sts by simp
  moreover have "stages_view v name (Suc i) c = Ok rest"
    using Suc.IH [of rest "Suc i"] Suc.prems(1) Suc.prems(2) [of "Suc j" for j] sts by simp
  ultimately show ?case using sts by simp
qed simp

lemma stage_view_slot:
  assumes "slot P v name (int i) (Some st)" "length (as_items st) < 2 ^ 63"
  shows "stage_view v name (int i) = Ok (concrete_stage i st)"
proof -
  have "sint (stage_fill st) = int (length (as_items st))"
    using assms(2) int_in_i64(1) [of "int (length (as_items st))"]
    by (simp add: stage_fill_def)
  then show ?thesis using assms(1)
    by (auto simp: slot_def stage_view_def concrete_stage_def stage_fill_def ParseUint_FormatInt)
qed

text \<open>What is there of a filter; keys beyond its last stage may hold anything.\<close>

definition filter_shown :: "platform \<Rightarrow> view \<Rightarrow> string \<Rightarrow> afilter \<Rightarrow> bool" where
  "filter_shown P v name F \<longleftrightarrow> meta_sim P (vhash v (metaKey name)) (Some F)
     \<and> (\<forall>j < length (af_stages F). slot P v name (int j) (Some (af_stages F ! j)))"

lemma filter_sim_slot:
  assumes "filter_sim P v name (Some F)" "j < length (af_stages F)"
  shows "slot P v name (int j) (Some (af_stages F ! j))"
  using assms by (auto simp: filter_sim_def stages_of_def stage_at_def dest: spec [of _ "int j"])

lemma filter_sim_shown: "filter_sim P v name (Some F) \<Longrightarrow> filter_shown P v name F"
  using filter_sim_slot by (auto simp: filter_shown_def filter_sim_def)

lemma Load_view_shown:
  assumes shown: "filter_shown P v name F" and "valid_name name" "N \<le> 2 ^ 42" "float_text_exact P"
    and ok: "afilter_ok N F"
  shows "Load_view P v name = Ok (concrete_filter name F)"
proof -
  let ?len = "length (af_stages F)" and ?sts = "f_stages (concrete_filter name F)"
  have len: "?len \<le> 2 ^ 42" using ok assms(3) by (simp add: afilter_ok_def)
  have sts: "stages_view v name 0 ?len = Ok ?sts"
  proof (rule stages_view_intro)
    fix j assume j: "j < ?len"
    then have "slot P v name (int j) (Some (af_stages F ! j))"
      using shown by (simp add: filter_shown_def)
    moreover have "length (as_items (af_stages F ! j)) \<le> N"
      using ok j by (simp add: afilter_ok_def)
    ultimately show "stage_view v name (int (0 + j)) = Ok (?sts ! j)"
      using stage_view_slot assms(3) j by (simp add: concrete_filter_def nth_enumerate_eq)
  qed (simp add: concrete_filter_def)
  obtain now where meta: "vhash v (metaKey name) = fmupd ''stage_count''
      (FormatInt (word_of_nat ?len)) (filterMeta P now (af_n F) (af_p F))"
    using shown by (auto simp: filter_shown_def meta_sim_def)
  have flds: "field (vhash v (metaKey name)) ''n'' = FormatUint (af_n F)"
      "field (vhash v (metaKey name)) ''p'' = FormatFloat P (af_p F)"
      "field (vhash v (metaKey name)) ''r'' = FormatFloat P DefaultR"
      "field (vhash v (metaKey name)) ''s'' = FormatFloat P DefaultS"
      "field (vhash v (metaKey name)) ''stage_count'' = FormatInt (word_of_nat ?len)"
    by (simp_all add: meta field_def filterMeta_def)
  have ne: "vhash v (metaKey name) \<noteq> fmempty" by (metis meta fmempty_lookup fmupd_lookup option.distinct(1))
  have par: "ParseFloat P (FormatFloat P (af_p F)) = Ok (af_p F)"
      "ParseFloat P (FormatFloat P DefaultR) = Ok DefaultR"
      "ParseFloat P (FormatFloat P DefaultS) = Ok DefaultS"
    using assms(4) ok Default_ok by (simp_all add: float_text_exact_def afilter_ok_def)
  have cnt: "sint (word_of_nat ?len :: i64) = int ?len"
    using int_in_i64(1) [of "int ?len"] len by simp
  have mk: "makeslice 40 (int ?len) = Ok ()" using len by simp
  show ?thesis
    using ne sts assms(2)
    by (simp add: Load_view_def Let_def flds par cnt mk valid_name_def concrete_filter_def)
qed

lemma Load_view_filter:
  assumes "filter_sim P v name o'" "valid_name name" "N \<le> 2 ^ 42" "float_text_exact P"
    and "\<And>F. o' = Some F \<Longrightarrow> afilter_ok N F"
  shows "Load_view P v name = (case o' of None \<Rightarrow> Err ErrNotFound
    | Some F \<Rightarrow> Ok (concrete_filter name F))"
proof (cases o')
  case None
  then show ?thesis using assms(1,2)
    by (simp add: filter_sim_def meta_sim_def Load_view_def Let_def valid_name_def)
next
  case (Some F)
  then show ?thesis using Load_view_shown [OF _ assms(2-4)] filter_sim_shown assms(1,5) by simp
qed

lemma Load_view_sim:
  assumes "sim P N v a" "valid_name name" "N \<le> 2 ^ 42" "float_text_exact P"
  shows "Load_view P v name = (case a name of None \<Rightarrow> Err ErrNotFound
    | Some F \<Rightarrow> Ok (concrete_filter name F))"
  using Load_view_filter [OF sim_filter [OF assms(1,2)] assms(2-4)] assms(1) by (simp add: sim_def)

section \<open>Membership\<close>

lemma bit_in_slot:
  assumes "slot P v name i (Some st)"
  shows "p mod ShardBits \<in> vbits v (shardKey name i (p div ShardBits)) \<longleftrightarrow> p \<in> stage_bits P st"
proof -
  have "p = q" if "p mod ShardBits = q mod ShardBits" "q div ShardBits = p div ShardBits" for q :: u64
    using that shard_join [of p] shard_join [of q] by simp
  then show ?thesis using assms by (auto simp: slot_def)
qed

lemma exists_view_sim:
  assumes "hashParts P item = (h1, h2)" "\<forall>(i, st) \<in> set xs. slot P v name (int i) (Some st)"
  shows "exists_view v name h1 h2 (map (\<lambda>(i, st). concrete_stage i st) xs)
    = spec_exists P item (map snd xs)"
  using assms(2)
proof (induction xs)
  case (Cons x xs)
  obtain i st where x: "x = (i, st)" by (cases x)
  have "slot P v name (int i) (Some st)" using Cons.prems x by simp
  from bit_in_slot [OF this] Cons x assms(1) show ?case
    by (cases "positions h1 h2 (as_m st) (as_k st)")
      (simp_all add: item_positions_def concrete_stage_def subset_eq)
qed simp

lemma Exists_view_shown:
  assumes "filter_shown P v name F"
  shows "Exists_view P v item (concrete_filter name F) = spec_exists P item (rev (af_stages F))"
proof -
  obtain h1 h2 where h: "hashParts P item = (h1, h2)" by fastforce
  have "\<forall>(i, st) \<in> set (rev (enumerate 0 (af_stages F))). slot P v name (int i) (Some st)"
    using assms by (auto simp: filter_shown_def in_set_enumerate_eq)
  moreover have "map snd (rev (enumerate 0 (af_stages F))) = rev (af_stages F)"
    by (simp flip: rev_map)
  ultimately show ?thesis
    using exists_view_sim [OF h] by (simp add: Exists_view_def h concrete_filter_def rev_map)
qed

lemma Exists_view_sim:
  assumes "filter_sim P v name (Some F)"
  shows "Exists_view P v item (concrete_filter name F) = spec_exists P item (rev (af_stages F))"
  using Exists_view_shown [OF filter_sim_shown [OF assms]] .

section \<open>Writing\<close>

text \<open>The bits one item adds to a stage.\<close>

definition v_setpositions :: "string \<Rightarrow> int \<Rightarrow> u64 set \<Rightarrow> view \<Rightarrow> view" where
  "v_setpositions name i ps v = v\<lparr>vbits := (\<lambda>k. vbits v k
     \<union> {p mod ShardBits | p. p \<in> ps \<and> k = shardKey name i (p div ShardBits)})\<rparr>"

context reliable_store
begin

lemma set_groups_exact:
  "set_groups B name i gs s = (r, t) \<Longrightarrow> r = Ok () \<and> view t = (view s)\<lparr>vbits := (\<lambda>k.
     vbits (view s) k \<union> {o'. \<exists>(sh, os) \<in> set gs. o' \<in> set os \<and> k = shardKey name i sh})\<rparr>"
proof (induction gs arbitrary: s)
  case (Cons g gs)
  obtain sh os where g: "g = (sh, os)" by (cases g)
  obtain r1 u where set: "SetBits B (shardKey name i sh) os s = (r1, u)" by fastforce
  then have u: "r1 = Ok ()" "view u = v_setbits (shardKey name i sh) (set os) (view s)"
    using SetBits_law by auto
  then have "set_groups B name i gs u = (r, t)" using Cons.prems g set by simp
  from Cons.IH [OF this] u(2)
  have r: "r = Ok ()" "view t = (view s)\<lparr>vbits := (\<lambda>k.
      vbits (v_setbits (shardKey name i sh) (set os) (view s)) k
      \<union> {o'. \<exists>(sh, os) \<in> set gs. o' \<in> set os \<and> k = shardKey name i sh})\<rparr>"
    by (simp_all add: v_setbits_def)
  have "(\<lambda>k. vbits (v_setbits (shardKey name i sh) (set os) (view s)) k
      \<union> {o'. \<exists>(sh, os) \<in> set gs. o' \<in> set os \<and> k = shardKey name i sh})
    = (\<lambda>k. vbits (view s) k
      \<union> {o'. \<exists>(sh, os) \<in> set (g # gs). o' \<in> set os \<and> k = shardKey name i sh})"
    by (rule ext) (auto simp: g v_setbits_def)
  with r show ?case by simp
qed simp

lemma set_positions_exact:
  assumes "set_groups B name i (range_groups ord (groupByShard ps)) s = (r, t)"
  shows "r = Ok () \<and> view t = v_setpositions name i (set ps) (view s)"
proof -
  have "{o'. \<exists>(sh, os) \<in> set (range_groups ord (groupByShard ps)). o' \<in> set os \<and> k = shardKey name i sh}
      = {p mod ShardBits | p. p \<in> set ps \<and> k = shardKey name i (p div ShardBits)}" for k
    by (auto simp: range_groups_set offsets_in_def filter_empty_conv)
  with set_groups_exact [OF assms] show ?thesis by (simp add: v_setpositions_def)
qed

end

end
