(* ===== verification/RefineOps.thy ===== *)
theory RefineOps
  imports Refinement
begin

text \<open>
  The operations of \<open>filter.go\<close> against the abstract specification: adding an item, growing,
  creating and dropping a filter, on a store that does not fail.
\<close>

section \<open>Add\<close>

definition changes_only :: "string set \<Rightarrow> view \<Rightarrow> view \<Rightarrow> bool" where
  "changes_only K v w \<longleftrightarrow>
     (\<forall>k. k \<notin> K \<longrightarrow> vbits w k = vbits v k \<and> vhash w k = vhash v k \<and> vctr w k = vctr v k)"

lemma changes_only_refl [simp]: "changes_only K v v"
  by (simp add: changes_only_def)

lemma changes_only_trans: "changes_only K u v \<Longrightarrow> changes_only K v w \<Longrightarrow> changes_only K u w"
  by (simp add: changes_only_def)

lemma changes_only_same:
  assumes "changes_only (own_keys name) v w" "valid_name name" "valid_name nm" "nm \<noteq> name"
  shows "same_own nm v w"
  using assms(1) own_keys_disjoint [OF assms(3,2,4)]
  by (fastforce simp: changes_only_def same_own_def)

lemma item_positions_items [simp]:
  "item_positions P (st\<lparr>as_items := xs\<rparr>) item = item_positions P st item"
  by (simp add: item_positions_def)

lemma stage_bits_snoc:
  assumes "item_positions P st item = Ok ps"
  shows "stage_bits P (st\<lparr>as_items := as_items st @ [item]\<rparr>) = stage_bits P st \<union> set ps"
  using assms by (auto simp: stage_bits_def)

lemma stage_bits_empty [simp]: "stage_bits P (empty_stage st) = {}"
  by (simp add: stage_bits_def empty_stage_def)

definition v_additem :: "string \<Rightarrow> int \<Rightarrow> u64 list \<Rightarrow> view \<Rightarrow> view" where
  "v_additem name i ps v = v_incr (fillKey name i) (v_setpositions name i (set ps) v)"

lemma v_additem_sel:
  assumes "valid_name name"
  shows "vhash (v_additem name i ps v) = vhash v"
    "vctr (v_additem name i ps v) (fillKey name j) =
       (if j = i then Some (ctr_next (vctr v (fillKey name i))) else vctr v (fillKey name j))"
    "vbits (v_additem name i ps v) (shardKey name j sh) = vbits v (shardKey name j sh)
       \<union> (if j = i then {p mod ShardBits | p. p \<in> set ps \<and> p div ShardBits = sh} else {})"
    "vset (v_additem name i ps v) = vset v"
    "changes_only (own_keys name) v (v_additem name i ps v)"
  using assms
  by (auto simp: v_additem_def v_incr_def v_setpositions_def key_eqs changes_only_def)

lemma slot_additem:
  assumes "valid_name name"
  shows "slot P v name i (Some st) \<Longrightarrow> item_positions P st item = Ok ps \<Longrightarrow>
      slot P (v_additem name i ps v) name i (Some (st\<lparr>as_items := as_items st @ [item]\<rparr>))
      \<and> ctr_next (vctr v (fillKey name i)) = stage_fill (st\<lparr>as_items := as_items st @ [item]\<rparr>)"
    "j \<noteq> i \<Longrightarrow> slot P (v_additem name i ps v) name j x = slot P v name j x"
  using assms
  by (auto simp: slot_def v_additem_sel stage_bits_snoc ctr_next_def stage_fill_def
      split: option.split)

lemma filter_sim_additem:
  assumes "filter_sim P v name (Some F)" "valid_name name" "af_stages F \<noteq> []"
    and "item_positions P (last (af_stages F)) item = Ok ps"
  defines "cur \<equiv> last (af_stages F)"
  shows "filter_sim P (v_additem name (int (length (af_stages F) - 1)) ps v) name
    (Some (F\<lparr>af_stages := butlast (af_stages F) @ [cur\<lparr>as_items := as_items cur @ [item]\<rparr>]\<rparr>))"
proof -
  obtain ys where F: "af_stages F = ys @ [cur]"
    using assms(3) by (metis append_butlast_last_id cur_def)
  let ?n = "length ys" and ?new = "cur\<lparr>as_items := as_items cur @ [item]\<rparr>"
  have "slot P (v_additem name (int ?n) ps v) name i (stage_at (ys @ [?new]) i)" for i
  proof (cases "i = int ?n")
    case True
    have "slot P v name (int ?n) (Some cur)" using filter_sim_slot [OF assms(1), of ?n] F by simp
    from slot_additem(1) [OF assms(2) this] assms(4) True F
    show ?thesis by (simp add: stage_at_def)
  next
    case False
    have "stage_at (ys @ [?new]) i = stage_at (ys @ [cur]) i"
      using False by (auto simp: stage_at_def nth_append)
    then show ?thesis
      using slot_additem(2) [OF assms(2) False] assms(1) F
      by (simp add: filter_sim_def stages_of_def)
  qed
  then show ?thesis using assms(1,2) F
    by (simp add: filter_sim_def meta_sim_def v_additem_sel stages_of_def)
qed

section \<open>Growth\<close>

lemma fmupd_twice: "fmupd k x (fmupd k y m) = fmupd k x m"
  by (rule fmap_ext) simp

lemma fmsubset_lookup: "fmsubset m h \<Longrightarrow> fmlookup m k = Some x \<Longrightarrow> fmlookup h k = Some x"
  by (metis fmpredI fmsubset.rep_eq map_le_def domI)

lemma mapToStage_super:
  assumes "fmsubset (stageToMap st) h" "- (2 ^ 63) \<le> st_k st" "st_k st < 2 ^ 63"
  shows "mapToStage h i = Ok (st\<lparr>st_index := i\<rparr>)"
proof -
  have "fmlookup h ''m'' = Some (FormatUint (st_m st))" "fmlookup h ''k'' = Some (Itoa (st_k st))"
    "fmlookup h ''capacity'' = Some (FormatUint (st_capacity st))"
    "fmlookup h ''fill_count'' = Some (FormatUint (st_fill st))"
    by (rule fmsubset_lookup [OF assms(1)], simp add: stageToMap_def)+
  then show ?thesis using assms(2,3) by (simp add: mapToStage_def field_def)
qed

lemma computeStage_Ok:
  assumes "computeStage P n p r s i = Ok st"
  shows "st_index st = i" "st_fill st = 0" "- (2 ^ 63) \<le> st_k st" "st_k st < 2 ^ 63"
  using assms sint_range
  by (auto simp: computeStage_def bindR_Ok_iff OptimalK_def int_of_f64_def Let_def split: if_splits)

lemma v_append_sel:
  assumes "valid_name name"
  shows "vbits (v_append (metaKey name) x h (stageMetaKey name i) v) = vbits v"
    "vctr (v_append (metaKey name) x h (stageMetaKey name i) v) = vctr v"
    "vset (v_append (metaKey name) x h (stageMetaKey name i) v) = vset v"
    "vhash (v_append (metaKey name) x h (stageMetaKey name i) v) (metaKey name) =
       fmupd ''stage_count'' (FormatInt (x + 1)) (vhash v (metaKey name))"
    "vhash (v_append (metaKey name) x h (stageMetaKey name i) v) (stageMetaKey name j) =
       (if j = i then h else vhash v (stageMetaKey name j))"
    "changes_only (own_keys name) v (v_append (metaKey name) x h (stageMetaKey name i) v)"
  using assms by (auto simp: v_append_def key_eqs changes_only_def)

lemma filter_sim_append:
  assumes "filter_sim P v name (Some F)" "valid_name name"
    and "mapToStage h (int (length (af_stages F))) = Ok (st\<lparr>st_index := int (length (af_stages F))\<rparr>)"
    and "st_fill st = 0"
  shows "filter_sim P (v_append (metaKey name) (word_of_nat (length (af_stages F))) h
      (stageMetaKey name (int (length (af_stages F)))) v) name
    (Some (F\<lparr>af_stages := af_stages F @ [empty_stage st]\<rparr>))"
proof -
  let ?n = "length (af_stages F)"
  let ?w = "v_append (metaKey name) (word_of_nat ?n) h (stageMetaKey name (int ?n)) v"
  have sl: "slot P v name i (stage_at (af_stages F) i)" for i
    using assms(1) by (simp add: filter_sim_def stages_of_def)
  have "slot P ?w name i (stage_at (af_stages F @ [empty_stage st]) i)" for i
  proof (cases "i = int ?n")
    case True
    have "slot P v name i None" using sl [of i] True by (simp add: stage_at_def)
    then show ?thesis using assms(2,3,4) True
      by (simp add: stage_at_def slot_def v_append_sel) (simp add: empty_stage_def)
  next
    case False
    have "stage_at (af_stages F @ [empty_stage st]) i = stage_at (af_stages F) i"
      using False by (auto simp: stage_at_def nth_append)
    then show ?thesis using sl [of i] False assms(2)
      by (cases "stage_at (af_stages F) i") (simp_all add: slot_def v_append_sel)
  qed
  moreover have "meta_sim P (vhash ?w (metaKey name))
      (Some (F\<lparr>af_stages := af_stages F @ [empty_stage st]\<rparr>))"
    using assms(1,2) by (auto simp: filter_sim_def meta_sim_def v_append_sel fmupd_twice ac_simps)
  ultimately show ?thesis by (simp add: filter_sim_def stages_of_def)
qed

text \<open>A filter value that agrees with the abstract filter in what growing it uses.\<close>

definition grows_as :: "string \<Rightarrow> bloom \<Rightarrow> afilter \<Rightarrow> bool" where
  "grows_as name f F \<longleftrightarrow> f_name f = name \<and> f_n f = af_n F \<and> f_p f = af_p F \<and> f_r f = DefaultR
     \<and> f_s f = DefaultS \<and> length (f_stages f) = length (af_stages F)"

context reliable_store
begin

lemma appendNewStage_sim:
  assumes run: "appendNewStage P B (f, s) = (r, (f', t))"
    and f: "grows_as name f F" and fs: "filter_sim P (view s) name (Some F)"
    and name: "valid_name name" and len: "length (af_stages F) \<le> 2 ^ 42"
  shows "r = fst (spec_grow P F) \<and> filter_sim P (view t) name (Some (snd (spec_grow P F)))
    \<and> changes_only (own_keys name) (view s) (view t) \<and> vset (view t) = vset (view s)"
proof -
  let ?n = "length (af_stages F)"
  have fn: "f_name f = name" "length (f_stages f) = ?n"
    and cs: "computeStage P (f_n f) (f_p f) (f_r f) (f_s f) (int ?n)
      = computeStage P (af_n F) (af_p F) DefaultR DefaultS (int ?n)"
    using f by (simp_all add: grows_as_def)
  show ?thesis
  proof (cases "computeStage P (af_n F) (af_p F) DefaultR DefaultS (int ?n)")
    case (Ok st)
    obtain r1 u where app: "AppendStage B (metaKey name) (word_of_nat ?n) (stageToMap st)
        (stageMetaKey name (int ?n)) s = (r1, u)" by fastforce
    have ne: "stageMetaKey name (int ?n) \<noteq> metaKey name" using name keys_of_kinds(1) by metis
    have cnt: "fmlookup (vhash (view s) (metaKey name)) ''stage_count''
        = Some (FormatInt (word_of_nat ?n))"
      using fs by (auto simp: filter_sim_def meta_sim_def)
    obtain h where h: "fmsubset (stageToMap st) h" "r1 = Ok (word_of_nat ?n + 1)"
        "view u = v_append (metaKey name) (word_of_nat ?n) h (stageMetaKey name (int ?n)) (view s)"
      using AppendStage_win [OF app kinds(1,2) ne cnt] int_in_i64(1) [of "int ?n"] len by auto
    have "t = u \<and> r = Ok ()"
      using run Ok app h(2) fn cs by (simp add: appendNewStage_def Let_def)
    moreover have "spec_grow P F = (Ok (), F\<lparr>af_stages := af_stages F @ [empty_stage st]\<rparr>)"
      using Ok by (simp add: spec_grow_def)
    moreover have "mapToStage h (int ?n) = Ok (st\<lparr>st_index := int ?n\<rparr>)"
      using mapToStage_super [OF h(1)] computeStage_Ok [OF Ok] by simp
    ultimately show ?thesis
      using filter_sim_append [OF fs name] computeStage_Ok(2) [OF Ok] name
      by (simp add: h(3) v_append_sel)
  qed (use run fn cs fs in \<open>auto simp: appendNewStage_def spec_grow_def Let_def\<close>)
qed

lemma Add_sim:
  assumes run: "Add P B ord item (concrete_filter name F, s) = (r, (f', t))"
    and fs: "filter_sim P (view s) name (Some F)"
    and name: "valid_name name" and ok: "afilter_ok N F" "N \<le> 2 ^ 42"
  shows "r = fst (spec_add P item F) \<and> filter_sim P (view t) name (Some (snd (spec_add P item F)))
    \<and> changes_only (own_keys name) (view s) (view t) \<and> vset (view t) = vset (view s)"
proof -
  let ?f = "concrete_filter name F"
  obtain ys cur where F: "af_stages F = ys @ [cur]"
    using ok(1) by (metis afilter_ok_def append_butlast_last_id)
  have f: "f_name ?f = name" "f_stages ?f \<noteq> []"
      "last (f_stages ?f) = concrete_stage (length ys) cur"
    by (simp_all add: concrete_filter_def F enumerate_append_eq)
  obtain h1 h2 where h: "hashParts P item = (h1, h2)" by fastforce
  have pos: "positions h1 h2 (st_m (last (f_stages ?f))) (st_k (last (f_stages ?f)))
      = item_positions P cur item"
    by (simp only: f(3)) (simp add: concrete_stage_def item_positions_def h)
  show ?thesis
  proof (cases "item_positions P cur item")
    case (Ok ps)
    let ?i = "int (length ys)" and ?new = "cur\<lparr>as_items := as_items cur @ [item]\<rparr>"
    let ?F = "F\<lparr>af_stages := ys @ [?new]\<rparr>"
    let ?f1 = "?f\<lparr>f_stages := butlast (f_stages ?f)
      @ [(concrete_stage (length ys) cur)\<lparr>st_fill := stage_fill ?new\<rparr>]\<rparr>"
    obtain r1 u where set: "set_groups B name ?i (range_groups ord (groupByShard ps)) s = (r1, u)"
      by fastforce
    obtain r2 u' where incr: "Incr B (fillKey name ?i) u = (r2, u')" by fastforce
    have "r1 = Ok ()" and vu: "view u = v_setpositions name ?i (set ps) (view s)"
      using set_positions_exact [OF set] by simp_all
    moreover have "slot P (view s) name ?i (Some cur)"
      using filter_sim_slot [OF fs, of "length ys"] F by simp
    ultimately have u': "view u' = v_additem name ?i ps (view s)" "r2 = Ok (stage_fill ?new)"
      using Incr_law [OF incr] slot_additem(1) [OF name _ Ok, of "view s" ?i]
      by (simp_all add: v_additem_def v_setpositions_def)
    have fs': "filter_sim P (view u') name (Some ?F)"
      using filter_sim_additem [OF fs name, of item ps] F Ok u' by simp
    have step: "Add P B ord item (?f, s) =
        (if as_cap cur \<le> stage_fill ?new then appendNewStage P B (?f1, u') else (Ok (), (?f1, u')))"
      using set \<open>r1 = Ok ()\<close> incr u'(2)
      unfolding Add_positions [OF f(2) h trans [OF pos Ok]] f(3)
      by (simp add: concrete_stage_def f(1) Let_def)
    have frame: "changes_only (own_keys name) (view s) (view u')" "vset (view u') = vset (view s)"
      using v_additem_sel [OF name] u'(1) by simp_all
    have g: "grows_as name ?f1 ?F"
      by (simp add: grows_as_def concrete_filter_def F)
    have spec: "spec_add P item F =
        (if as_cap cur \<le> stage_fill ?new then spec_grow P ?F else (Ok (), ?F))"
      by (simp add: spec_add_def F Ok Let_def)
    show ?thesis
    proof (cases "as_cap cur \<le> stage_fill ?new")
      case True
      have "length (af_stages ?F) \<le> 2 ^ 42" using ok F by (simp add: afilter_ok_def)
      from appendNewStage_sim [OF _ g fs' name this, of r f' t] run step True spec frame
      show ?thesis using changes_only_trans by auto
    next
      case False
      then show ?thesis using run step spec fs' frame by simp
    qed
  next
    case (Err e)
    then show ?thesis by (simp add: item_positions_def h)
  next
    case (Panic q)
    then show ?thesis
      using run fs Add_no_positions [OF h, of ?f] pos F f(2)
      by (simp add: spec_add_def Add_def h Let_def)
  qed
qed

end

section \<open>Create\<close>

lemma empty_stage_sel [simp]:
  "as_m (empty_stage st) = st_m st" "as_k (empty_stage st) = st_k st"
  "as_cap (empty_stage st) = st_capacity st" "as_items (empty_stage st) = []"
  by (simp_all add: empty_stage_def)

lemma stage_at_Nil [simp]: "stage_at [] i = None"
  by (auto simp: stage_at_def)

lemma p_finite: "\<not> p \<le> 0 \<Longrightarrow> \<not> 1 \<le> p \<Longrightarrow> \<not> IsNaN p \<Longrightarrow> finite64 p"
  by (cases p) (auto simp: zero_f64_def one_f64_def IsNaN_def)

lemma filterMeta_count_id: "fmupd ''stage_count'' (FormatInt 1) (filterMeta P now n p) = filterMeta P now n p"
  by (rule fmap_ext) (auto simp: filterMeta_count)

definition v_create :: "string \<Rightarrow> fields \<Rightarrow> fields \<Rightarrow> view \<Rightarrow> view" where
  "v_create name fm sm v = v_sadd registryKey [name]
     (v_hset (stageMetaKey name 0) sm (v_hset (metaKey name) fm v))"

lemma v_create_sel:
  assumes "valid_name name"
  shows "vbits (v_create name fm sm v) = vbits v" "vctr (v_create name fm sm v) = vctr v"
    "vset (v_create name fm sm v) registryKey = insert name (vset v registryKey)"
    "vhash (v_create name fm sm v) (metaKey name) = fmadd (vhash v (metaKey name)) fm"
    "vhash (v_create name fm sm v) (stageMetaKey name i) =
       (if i = 0 then fmadd (vhash v (stageMetaKey name 0)) sm else vhash v (stageMetaKey name i))"
    "changes_only (own_keys name) v (v_create name fm sm v)"
  using assms
  by (auto simp: v_create_def v_sadd_def v_hset_def key_eqs changes_only_def)

lemma filter_sim_create:
  assumes "filter_sim P v name None" "valid_name name"
    and "computeStage P n p DefaultR DefaultS 0 = Ok st"
  shows "filter_sim P (v_create name (filterMeta P now n p) (stageToMap st) v) name
    (Some \<lparr>af_n = n, af_p = p, af_stages = [empty_stage st]\<rparr>)"
proof -
  let ?w = "v_create name (filterMeta P now n p) (stageToMap st) v"
  have clean: "slot P v name i None" for i
    using assms(1) by (simp add: filter_sim_def stages_of_def)
  have "mapToStage (stageToMap st) 0 = Ok (st\<lparr>st_index := 0\<rparr>)"
    using mapToStage_super [of st "stageToMap st"] computeStage_Ok [OF assms(3)]
    by (simp add: fmsubset.rep_eq)
  then have "slot P ?w name i (stage_at [empty_stage st] i)" for i
    using clean [of i] computeStage_Ok(2) [OF assms(3)] assms(2)
    by (cases "i = 0") (auto simp: stage_at_def slot_def v_create_sel)
  moreover have "vhash v (metaKey name) = fmempty"
    using assms(1) by (simp add: filter_sim_def meta_sim_def)
  then have "vhash ?w (metaKey name) = fmupd ''stage_count'' (FormatInt 1) (filterMeta P now n p)"
    using assms(2) by (simp add: v_create_sel filterMeta_count_id)
  ultimately show ?thesis by (auto simp: filter_sim_def meta_sim_def stages_of_def)
qed

lemma concrete_new:
  assumes "computeStage P n p DefaultR DefaultS 0 = Ok st"
  shows "concrete_filter name \<lparr>af_n = n, af_p = p, af_stages = [empty_stage st]\<rparr>
    = \<lparr>f_name = name, f_n = n, f_p = p, f_r = DefaultR, f_s = DefaultS, f_stages = [st]\<rparr>"
  using computeStage_Ok [OF assms]
  by (simp add: concrete_filter_def concrete_stage_def empty_stage_def stage_fill_def)

context reliable_store
begin

lemma New_sim:
  assumes run: "New P B now name n p s = (r, t)"
    and fs: "filter_sim P (view s) name old" and name: "valid_name name"
  shows "(case spec_create P old n p of
      Ok F \<Rightarrow> r = Ok (concrete_filter name F) \<and> filter_sim P (view t) name (Some F)
        \<and> changes_only (own_keys name) (view s) (view t)
        \<and> vset (view t) registryKey = insert name (vset (view s) registryKey)
    | Err e \<Rightarrow> r = Err e \<and> view t = view s
    | Panic q \<Rightarrow> r = Panic q \<and> view t = view s)"
proof -
  have nm: "name \<noteq> []" using name by (simp add: valid_name_def)
  obtain r0 u where get: "HGetAll B (metaKey name) s = (r0, u)" by fastforce
  have u: "view u = view s" "r0 = Ok (vhash (view s) (metaKey name))" using HGetAll_law [OF get] by auto
  have old: "vhash (view s) (metaKey name) = fmempty \<longleftrightarrow> old = None"
    using fs by (cases old) (auto simp: filter_sim_def meta_sim_def dest: arg_cong [of _ _ "\<lambda>m. fmlookup m ''stage_count''"])
  show ?thesis
  proof (cases "n = 0 \<or> p \<le> 0 \<or> 1 \<le> p \<or> old \<noteq> None")
    case True
    then show ?thesis using run get u old nm by (auto simp: New_def spec_create_def)
  next
    case False
    then have old: "old = None" "vhash (view s) (metaKey name) = fmempty" using old by auto
    show ?thesis
    proof (cases "computeStage P n p DefaultR DefaultS 0")
      case (Ok st)
      obtain r1 u1 where w1: "HSet B (metaKey name) (filterMeta P now n p) u = (r1, u1)" by fastforce
      obtain r2 u2 where w2: "HSet B (stageMetaKey name 0) (stageToMap st) u1 = (r2, u2)" by fastforce
      obtain r3 u3 where w3: "SAdd B registryKey [name] u2 = (r3, u3)" by fastforce
      have ok: "r1 = Ok ()" "r2 = Ok ()" "r3 = Ok ()"
        and v: "view u3 = v_create name (filterMeta P now n p) (stageToMap st) (view s)"
        using HSet_law [OF w1] HSet_law [OF w2] SAdd_law [OF w3] u(1) by (simp_all add: v_create_def)
      have "t = u3" "r = Ok \<lparr>f_name = name, f_n = n, f_p = p, f_r = DefaultR, f_s = DefaultS,
          f_stages = [st]\<rparr>"
        using run get u(2) old(2) False nm Ok w1 w2 w3 ok by (auto simp: New_def)
      then show ?thesis
        using False Ok v old(1) filter_sim_create [OF _ name Ok] fs name
        by (simp add: spec_create_def concrete_new v_create_sel)
    qed (use run get u old False nm in \<open>auto simp: New_def spec_create_def\<close>)
  qed
qed

end

section \<open>Delete\<close>

lemma numShards_covers:
  assumes "p < (m :: u64)"
  shows "\<exists>j < unat (numShards m). p div ShardBits = word_of_nat j"
proof -
  have "unat p div 2 ^ 25 * 2 ^ 25 \<le> unat p" by simp
  also have "\<dots> < unat m" using assms by (simp add: word_less_nat_alt)
  finally have "p div ShardBits < numShards m"
    by (simp add: less_numShards_iff unat_div_distrib unat_ShardBits)
  then show ?thesis by (metis of_nat_unat ucast_id word_less_nat_alt)
qed

lemma stage_bits_less: "p \<in> stage_bits P st \<Longrightarrow> p < as_m st"
  by (auto simp: stage_bits_def item_positions_def positions_less case_prod_beta)

text \<open>The keys \<open>Drop\<close> names are all a filter has.\<close>

lemma drop_keys_complete:
  assumes "filter_sim P v name (Some F)" "valid_name name" "sts = af_stages F"
  defines "K \<equiv> set (drop_keys (concrete_filter name F))"
  shows "metaKey name \<in> K"
    "stageMetaKey name i \<in> K \<or> vhash v (stageMetaKey name i) = fmempty"
    "fillKey name i \<in> K \<or> vctr v (fillKey name i) = None"
    "shardKey name i sh \<in> K \<or> vbits v (shardKey name i sh) = {}"
proof -
  have K: "set (stage_keys name (concrete_stage j (sts ! j))) \<subseteq> K" if "j < length sts" for j
  proof -
    have "(j, sts ! j) \<in> set (enumerate 0 sts)" using that by (simp add: in_set_enumerate_eq)
    then show ?thesis unfolding K_def assms(3) drop_keys_def concrete_filter_def
      by (force intro: subsetI)
  qed
  show "metaKey name \<in> K" by (simp add: K_def drop_keys_def concrete_filter_def)
  have none: "slot P v name i None" if "\<not> (0 \<le> i \<and> i < int (length sts))"
    using assms(1,3) that by (auto simp: filter_sim_def stages_of_def stage_at_def dest: spec [of _ i])
  have some: "slot P v name i (Some (sts ! nat i))" "nat i < length sts" "int (nat i) = i"
    if "0 \<le> i \<and> i < int (length sts)"
    using filter_sim_slot [OF assms(1), of "nat i"] that assms(3) by auto
  show "stageMetaKey name i \<in> K \<or> vhash v (stageMetaKey name i) = fmempty"
    "fillKey name i \<in> K \<or> vctr v (fillKey name i) = None"
    using none some K [of "nat i"]
    by (fastforce simp: stage_keys_def concrete_stage_def)+
  show "shardKey name i sh \<in> K \<or> vbits v (shardKey name i sh) = {}"
  proof (cases "0 \<le> i \<and> i < int (length sts)")
    case True
    let ?st = "sts ! nat i"
    have "shardKey name i sh \<in> K" if p: "p \<in> stage_bits P ?st" "p div ShardBits = sh" for p
    proof -
      obtain j where j: "j < unat (numShards (as_m ?st))" "sh = word_of_nat j"
        using numShards_covers [OF stage_bits_less [OF p(1)]] p(2) by auto
      then have "shardKey name i sh \<in> set (stage_keys name (concrete_stage (nat i) ?st))"
        using True by (simp add: stage_keys_def concrete_stage_def)
      then show ?thesis using K some(2) [OF True] by blast
    qed
    then show ?thesis using some(1) [OF True] by (auto simp: slot_def)
  qed (use none in simp)
qed

lemma filter_sim_drop:
  assumes "filter_sim P v name (Some F)" "valid_name name"
  shows "filter_sim P (v_del (drop_keys (concrete_filter name F)) v) name None"
proof -
  note K = drop_keys_complete [OF assms refl]
  let ?w = "v_del (drop_keys (concrete_filter name F)) v"
  have "vhash ?w (metaKey name) = fmempty" using K(1) by (simp add: v_del_def)
  moreover have "vhash ?w (stageMetaKey name i) = fmempty" "vctr ?w (fillKey name i) = None"
    "vbits ?w (shardKey name i sh) = {}" for i sh
    using K(2) [of i] K(3) [of i] K(4) [of i sh] by (auto simp: v_del_def)
  ultimately show ?thesis by (simp add: filter_sim_def meta_sim_def stages_of_def)
qed

lemma drop_keys_own_concrete: "set (drop_keys (concrete_filter name F)) \<subseteq> own_keys name"
  using drop_keys_own [of "concrete_filter name F"] by (simp add: concrete_filter_def)

context reliable_store
begin

lemma Drop_sim:
  assumes run: "Drop B (concrete_filter name F) s = (r, t)"
    and fs: "filter_sim P (view s) name (Some F)" and name: "valid_name name"
  shows "r = Ok () \<and> filter_sim P (view t) name None
    \<and> changes_only (own_keys name) (view s) (view t)
    \<and> vset (view t) registryKey = vset (view s) registryKey - {name}"
proof -
  let ?ks = "drop_keys (concrete_filter name F)"
  obtain r1 u where d: "Del B ?ks s = (r1, u)" by fastforce
  obtain r2 u2 where e: "SRem B registryKey [name] u = (r2, u2)" by fastforce
  have v: "r1 = Ok ()" "r2 = Ok ()" "view u2 = v_srem registryKey [name] (v_del ?ks (view s))"
    using Del_law [OF d] SRem_law [OF e] by auto
  have "r = Ok ()" "t = u2"
    using run d e v by (auto simp: Drop_def concrete_filter_def)
  moreover have "filter_sim P (view u2) name None"
    using filter_sim_drop [OF fs name] v(3)
    by (simp add: filter_sim_def stages_of_def v_srem_def)
  moreover have "changes_only (own_keys name) (view s) (view u2)"
    using drop_keys_own_concrete [of name F] v(3)
    by (auto simp: changes_only_def v_srem_def v_del_def)
  moreover have "registryKey \<notin> set ?ks"
    using drop_keys_own_concrete registryKey_not_own by blast
  then have "vset (view u2) registryKey = vset (view s) registryKey - {name}"
    by (simp add: v(3) v_srem_def v_del_def)
  ultimately show ?thesis by simp
qed

end

text \<open>
  A stage survives the store: its fields written as decimal texts read back as the same stage,
  with the index the reader asks for.
\<close>

theorem stage_text_roundtrip:
  assumes "- (2 ^ 63) \<le> st_k st" "st_k st < 2 ^ 63"
  shows "mapToStage (stageToMap st) i = Ok (st\<lparr>st_index := i\<rparr>)"
  using assms by (intro mapToStage_super) (simp_all add: fmsubset.rep_eq)

theorem stage_text_roundtrip_witness:
  "mapToStage (stageToMap \<lparr>st_index = 4, st_m = 2 ^ 64 - 1, st_k = - 3, st_capacity = 0, st_fill = 7\<rparr>) 2
     = Ok \<lparr>st_index = 2, st_m = 2 ^ 64 - 1, st_k = - 3, st_capacity = 0, st_fill = 7\<rparr>"
  using stage_text_roundtrip [of "\<lparr>st_index = 4, st_m = 2 ^ 64 - 1, st_k = - 3, st_capacity = 0, st_fill = 7\<rparr>" 2]
  by simp

end
