(* ===== verification/RefineService.thy ===== *)
theory RefineService
  imports RefineOps
begin

text \<open>
  The service against the abstract specification: every request, and so every history of requests,
  answers what the specification answers.
\<close>

section \<open>The service\<close>

fun typed_request :: "request \<Rightarrow> bool" where
  "typed_request (CreateReq now name n p) = f64_ok p"
| "typed_request q = True"

lemma spec_create_ok:
  assumes "spec_create P old n p = Ok F" "f64_ok p"
  shows "afilter_ok (Suc N) F" "old = None"
proof -
  obtain st where st: "computeStage P n p DefaultR DefaultS 0 = Ok st"
      "F = \<lparr>af_n = n, af_p = p, af_stages = [empty_stage st]\<rparr>"
      and p: "\<not> p \<le> 0" "\<not> 1 \<le> p" "old = None"
    using assms(1) by (auto simp: spec_create_def bindR_Ok_iff split: if_splits)
  have "\<not> IsNaN p" using st(1)
    by (auto simp: computeStage_def bindR_Ok_iff StageError_def split: if_splits)
  then show "afilter_ok (Suc N) F" "old = None"
    using p_finite p assms(2) computeStage_Ok [OF st(1)] st(2) by (simp_all add: afilter_ok_def)
qed

lemma spec_grow_ok:
  assumes "afilter_ok N F" "length (af_stages F) < N"
  shows "afilter_ok N (snd (spec_grow P F))"
  using assms computeStage_Ok
  by (auto simp: spec_grow_def afilter_ok_def Let_def split: res.split)

lemma spec_add_ok:
  assumes "afilter_ok N F"
  shows "afilter_ok (Suc N) (snd (spec_add P item F))"
proof -
  obtain ys cur where F: "af_stages F = ys @ [cur]"
    using assms by (metis afilter_ok_def append_butlast_last_id)
  let ?F = "F\<lparr>af_stages := ys @ [cur\<lparr>as_items := as_items cur @ [item]\<rparr>]\<rparr>"
  have ok: "afilter_ok (Suc N) ?F" "length (af_stages ?F) < Suc N"
    using assms F by (auto simp: afilter_ok_def)
  have "afilter_ok (Suc N) F" using assms by (rule afilter_ok_mono) simp
  then show ?thesis using ok spec_grow_ok [OF ok]
    by (simp add: spec_add_def F Let_def split: res.split)
qed

lemma mapErr_NotFound [simp]: "mapErr ErrNotFound = ServiceErrNotFound"
  by (simp add: mapErr_def)

lemma mapErrC_apply: "mapErrC c s = (case c s of (r, t) \<Rightarrow> (mapErrR r, t))"
  by (simp add: mapErrC_def catchC_def mapErrR_def split: prod.split res.split)

lemma mapErrR_simps [simp]:
  "mapErrR (Ok x) = Ok x" "mapErrR (Err e) = Err (mapErr e)" "mapErrR (Panic q) = Panic q"
  by (simp_all add: mapErrR_def)

context reliable_store
begin

lemma Load_sim:
  assumes "Load P B name s = (r, t)" "sim P N (view s) a" "valid_name name" "N \<le> 2 ^ 42"
    "float_text_exact P"
  shows "view t = view s" "r = (case a name of None \<Rightarrow> Err ErrNotFound
    | Some F \<Rightarrow> Ok (concrete_filter name F))"
  using readsD [OF reads_Load assms(1)] Load_view_sim [OF assms(2-5)] by auto

lemma loaded_sim:
  assumes run: "traced span op (bindC (mapErrC (onStore (Load P B name))) c) (tm, s) = (r, (tm', t))"
    and "sim P N (view s) a" "valid_name name" "N \<le> 2 ^ 42" "float_text_exact P"
  shows "case a name of None \<Rightarrow> r = Err ServiceErrNotFound \<and> view t = view s
    | Some F \<Rightarrow> \<exists>u tm2. view u = view s \<and> c (concrete_filter name F) (tm, u) = (r, (tm2, t))"
proof -
  obtain r0 u where load: "Load P B name s = (r0, u)" by fastforce
  note law = Load_sim [OF load assms(2-5)]
  have m: "mapErrC (onStore (Load P B name)) (tm, s) = (mapErrR r0, (tm, u))"
    using load by (simp add: mapErrC_apply onStore_def)
  show ?thesis
  proof (cases "a name")
    case None
    then have "bindC (mapErrC (onStore (Load P B name))) c (tm, s)
        = (Err ServiceErrNotFound, (tm, u))"
      using m law(2) by simp
    then show ?thesis using run law(1) None by (auto simp: traced_def)
  next
    case (Some F)
    then have "bindC (mapErrC (onStore (Load P B name))) c (tm, s)
        = c (concrete_filter name F) (tm, u)"
      using m law(2) by simp
    then show ?thesis using run law(1) Some by (auto simp: traced_def split: prod.splits)
  qed
qed

lemma Create_sim:
  assumes run: "Create P B now name n p (tm, s) = (r, (tm', t))"
    and sim: "sim P N (view s) a" and name: "valid_name name" and p: "f64_ok p"
  shows "spec_reply P (CreateReq now name n p) a (CreateRep r)
    \<and> sim P (Suc N) (view t) (spec_next P (CreateReq now name n p) a)"
proof -
  obtain r0 u where new: "New P B now name n p s = (r0, u)" by fastforce
  note law = New_sim [OF new sim_filter [OF sim name] name]
  have m: "mapErrC (onStore (New P B now name n p)) (tm, s) = (mapErrR r0, (tm, u))"
    using new by (simp add: mapErrC_apply onStore_def)
  show ?thesis
  proof (cases "spec_create P (a name) n p")
    case (Ok F)
    have r0: "r0 = Ok (concrete_filter name F)" using law Ok by simp
    obtain st rest where F: "af_stages F = st # rest"
      using spec_create_ok [OF Ok p] by (cases "af_stages F") (auto simp: afilter_ok_def)
    have "r = Ok (spec_info name F)" "t = u"
      using run m r0 by (auto simp: Create_def traced_def Let_def Stats_def concrete_filter_def F
          concrete_stage_def spec_info_def)
    moreover have "sim P (Suc N) (view u) (a(name \<mapsto> F))"
    proof (rule sim_update [OF sim name])
      show "same_own nm (view s) (view u)" if "valid_name nm" "nm \<noteq> name" for nm
        using law Ok changes_only_same [OF _ name that] by simp
      show "afilter_ok (Suc N) G" if "Some F = Some G" for G
        using that spec_create_ok [OF Ok p] by simp
    qed (use law Ok sim in \<open>auto simp: sim_def\<close>)
    ultimately show ?thesis using Ok by simp
  next
    case (Err e)
    then show ?thesis using law run m sim_Suc [OF sim] by (auto simp: Create_def traced_def)
  next
    case (Panic q)
    then show ?thesis using law run m sim_Suc [OF sim] by (auto simp: Create_def traced_def)
  qed
qed

lemma SvcAdd_sim:
  assumes run: "SvcAdd P B ord name item (tm, s) = (r, (tm', t))"
    and sim: "sim P N (view s) a" "valid_name name" "N \<le> 2 ^ 42" "float_text_exact P"
  shows "spec_reply P (AddReq ord name item) a (AddRep r)
    \<and> sim P (Suc N) (view t) (spec_next P (AddReq ord name item) a)"
proof (cases "a name")
  case None
  then show ?thesis using loaded_sim [OF run [unfolded SvcAdd_def] sim] sim_Suc [OF sim(1)]
    by (simp add: spec_find_def)
next
  case (Some F)
  then obtain u tm2 where u: "view u = view s"
    and rest: "bindC (mapErrC (onStore (withFilter (concrete_filter name F) (Add P B ord item))))
      (\<lambda>_ (tm, s). (Ok (), (tm\<lparr>tl_inst := RecordItemsAdded 1 (tl_inst tm)\<rparr>, s))) (tm, u)
      = (r, (tm2, t))"
    using loaded_sim [OF run [unfolded SvcAdd_def] sim] by auto
  obtain r1 f' t1 where add: "Add P B ord item (concrete_filter name F, u) = (r1, (f', t1))"
    by (metis surj_pair)
  have rt: "r = mapErrR r1 \<and> t = t1"
    using rest add by (cases r1) (auto simp: bindC_def mapErrC_apply withFilter_def onStore_def)
  have ok: "afilter_ok N F" using sim(1) Some by (simp add: sim_def)
  have fs: "filter_sim P (view u) name (Some F)" using sim_filter [OF sim(1,2)] Some u by simp
  note law = Add_sim [OF add fs sim(2) ok sim(3)]
  have "sim P (Suc N) (view t) (a(name \<mapsto> snd (spec_add P item F)))"
  proof (rule sim_update [OF sim(1,2)])
    show "same_own nm (view s) (view t)" if "valid_name nm" "nm \<noteq> name" for nm
      using law u rt changes_only_same [OF _ sim(2) that] by simp
    show "afilter_ok (Suc N) G" if "Some (snd (spec_add P item F)) = Some G" for G
      using that spec_add_ok [OF ok] by auto
  qed (use law u rt sim(1) Some in \<open>auto simp: sim_def\<close>)
  then show ?thesis using law rt Some by (simp add: spec_find_def)
qed

lemma SvcExists_sim:
  assumes run: "SvcExists P B ords name item (tm, s) = (r, (tm', t))"
    and sim: "sim P N (view s) a" "valid_name name" "N \<le> 2 ^ 42" "float_text_exact P"
  shows "spec_reply P (ExistsReq ords name item) a (ExistsRep r) \<and> view t = view s"
proof (cases "a name")
  case None
  then show ?thesis using loaded_sim [OF run [unfolded SvcExists_def] sim]
    by (simp add: spec_find_def)
next
  case (Some F)
  then obtain u tm2 where u: "view u = view s"
    and rest: "mapErrC (onStore (Exists P B ords item (concrete_filter name F))) (tm, u) = (r, (tm2, t))"
    using loaded_sim [OF run [unfolded SvcExists_def] sim] by auto
  obtain r1 t1 where ex: "Exists P B ords item (concrete_filter name F) u = (r1, t1)" by fastforce
  have fs: "filter_sim P (view u) name (Some F)" using sim_filter [OF sim(1,2)] Some u by simp
  have "r = mapErrR r1 \<and> t = t1"
    using rest ex by (auto simp: mapErrC_apply onStore_def)
  then show ?thesis
    using readsD [OF reads_Exists ex] Exists_view_sim [OF fs] u Some by (auto simp: spec_find_def)
qed

lemma SvcStats_sim:
  assumes run: "SvcStats P B name (tm, s) = (r, (tm', t))"
    and sim: "sim P N (view s) a" "valid_name name" "N \<le> 2 ^ 42" "float_text_exact P"
  shows "spec_reply P (StatsReq name) a (StatsRep r) \<and> view t = view s"
  using loaded_sim [OF run [unfolded SvcStats_def] sim]
  by (cases "a name") (auto simp: spec_find_def)

lemma Delete_sim:
  assumes run: "Delete P B name (tm, s) = (r, (tm', t))"
    and sim: "sim P N (view s) a" "valid_name name" "N \<le> 2 ^ 42" "float_text_exact P"
  shows "spec_reply P (DeleteReq name) a (DeleteRep r)
    \<and> sim P (Suc N) (view t) (spec_next P (DeleteReq name) a)"
proof (cases "a name")
  case None
  then have "a(name := None) = a" by auto
  then show ?thesis using loaded_sim [OF run [unfolded Delete_def] sim] sim_Suc [OF sim(1)] None
    by (simp add: spec_find_def)
next
  case (Some F)
  then obtain u tm2 where u: "view u = view s"
    and rest: "mapErrC (onStore (Drop B (concrete_filter name F))) (tm, u) = (r, (tm2, t))"
    using loaded_sim [OF run [unfolded Delete_def] sim] by auto
  obtain r1 t1 where drop: "Drop B (concrete_filter name F) u = (r1, t1)" by fastforce
  have rt: "r = mapErrR r1 \<and> t = t1"
    using rest drop by (auto simp: mapErrC_apply onStore_def)
  have fs: "filter_sim P (view u) name (Some F)" using sim_filter [OF sim(1,2)] Some u by simp
  note law = Drop_sim [OF drop fs sim(2)]
  have "sim P (Suc N) (view t) (a(name := None))"
  proof (rule sim_update [OF sim(1,2)])
    show "same_own nm (view s) (view t)" if "valid_name nm" "nm \<noteq> name" for nm
      using law u rt changes_only_same [OF _ sim(2) that] by simp
  qed (use law u rt sim(1) in \<open>auto simp: sim_def\<close>)
  then show ?thesis using law rt Some by (simp add: spec_find_def)
qed

lemma sample_loop_sim:
  assumes "sim P N (view s) a" "N \<le> 2 ^ 42" "float_text_exact P" "set names \<subseteq> dom a"
  shows "sample_loop P B names s = (r, t) \<Longrightarrow> view t = view s
    \<and> r = Ok (map (\<lambda>name. sample_of P name (concrete_filter name (the (a name)))) names)"
  using assms
proof (induction names arbitrary: s r t)
  case (Cons name names)
  obtain r0 u where load: "Load P B name s = (r0, u)" by fastforce
  obtain F where F: "a name = Some F" using Cons.prems(5) by auto
  then have "valid_name name" using Cons.prems(2) by (simp add: sim_def)
  note law = Load_sim [OF load Cons.prems(2) this Cons.prems(3,4)]
  obtain r1 u1 where loop: "sample_loop P B names u = (r1, u1)" by fastforce
  have "view u1 = view s \<and> r1 = Ok (map (\<lambda>name. sample_of P name (concrete_filter name (the (a name)))) names)"
    using Cons.IH [OF loop] law(1) Cons.prems by simp
  then show ?case using Cons.prems(1) load loop law F by auto
qed simp

lemma FilterSamples_sim:
  assumes run: "FilterSamples P B mg s = (r, t)"
    and sim: "sim P N (view s) a" "N \<le> 2 ^ 42" "float_text_exact P"
  shows "spec_reply P (SamplesReq mg) a (SamplesRep r) \<and> view t = view s"
proof -
  obtain r0 u where mem: "SMembers B registryKey s = (r0, u)" by fastforce
  then obtain names where names: "r0 = Ok names" "set names = dom a" "distinct names"
    and u: "view u = view s"
    using SMembers_law [OF mem] sim(1) by (auto simp: sim_def)
  obtain r1 t1 where loop: "sample_loop P B (cap_names mg names) u = (r1, t1)" by fastforce
  have "set (cap_names mg names) \<subseteq> dom a"
    using names(2) by (auto simp: cap_names_def dest: in_set_takeD)
  then have law: "view t1 = view s"
      "r1 = Ok (map (\<lambda>name. sample_of P name (concrete_filter name (the (a name)))) (cap_names mg names))"
    using sample_loop_sim [OF _ sim(2,3) _ loop] sim(1) u by auto
  have "r = Ok \<lparr>fo_Count = int (length names), fo_Samples =
      map (\<lambda>name. sample_of P name (concrete_filter name (the (a name)))) (cap_names mg names)\<rparr> \<and> t = t1"
    using run mem names(1) loop law(2) by (auto simp: FilterSamples_def ListFilters_def)
  then show ?thesis using law(1) names(2,3) by auto
qed

lemma svc_step_sim:
  assumes step: "svc_step P B q (tm, s) = (rep, (tm', t))" "valid_request q" "typed_request q"
    and sim: "sim P N (view s) a" and bounds: "N \<le> 2 ^ 42" "float_text_exact P"
  shows "spec_reply P q a rep \<and> sim P (Suc N) (view t) (spec_next P q a)"
proof (cases q)
  case (CreateReq now name n p)
  then show ?thesis using step Create_sim [OF _ sim]
    by (auto simp: valid_request_def dest!: map_prod_id_dest)
next
  case (AddReq ord name item)
  then show ?thesis using step SvcAdd_sim [OF _ sim _ bounds]
    by (auto simp: valid_request_def dest!: map_prod_id_dest)
next
  case (ExistsReq ords name item)
  then show ?thesis using step SvcExists_sim [OF _ sim _ bounds] sim_Suc [OF sim]
    by (auto simp: valid_request_def dest!: map_prod_id_dest)
next
  case (StatsReq name)
  then show ?thesis using step SvcStats_sim [OF _ sim _ bounds] sim_Suc [OF sim]
    by (auto simp: valid_request_def dest!: map_prod_id_dest)
next
  case (DeleteReq name)
  then show ?thesis using step Delete_sim [OF _ sim _ bounds]
    by (auto simp: valid_request_def dest!: map_prod_id_dest)
next
  case (SamplesReq mg)
  then obtain r where "FilterSamples P B mg s = (r, t)" "rep = SamplesRep r"
    using step(1) by (auto simp: onStore_def split: prod.splits)
  then show ?thesis using SamplesReq FilterSamples_sim [OF _ sim bounds] sim_Suc [OF sim] by simp
qed

lemma svc_run_sim:
  assumes "svc_run P B qs (tm, s) = (rs, (tm', t))"
    and "\<forall>q \<in> set qs. valid_request q \<and> typed_request q"
    and "sim P N (view s) a" "N + length qs \<le> 2 ^ 42" "float_text_exact P"
  shows "\<exists>b. spec_run P qs a rs b \<and> sim P (N + length qs) (view t) b"
  using assms
proof (induction qs arbitrary: tm s rs N a)
  case (Cons q qs)
  obtain rep tm1 s1 where step: "svc_step P B q (tm, s) = (rep, (tm1, s1))" by (metis surj_pair)
  obtain rs' where run: "svc_run P B qs (tm1, s1) = (rs', (tm', t))" "rs = rep # rs'"
    using Cons.prems(1) step by (auto split: prod.splits)
  have law: "spec_reply P q a rep" "sim P (Suc N) (view s1) (spec_next P q a)"
    using svc_step_sim [OF step] Cons.prems by simp_all
  from Cons.IH [OF run(1) _ law(2)] Cons.prems(2,4,5)
  obtain b where "spec_run P qs (spec_next P q a) rs' b" "sim P (N + length (q # qs)) (view t) b"
    by auto
  then show ?case using law(1) run(2) by auto
qed simp

lemma svc_run_refines:
  assumes "svc_run P B qs (tm, s) = (rs, (tm', t))" "view s = empty_view"
    and "\<forall>q \<in> set qs. valid_request q \<and> typed_request q"
    and "length qs \<le> 2 ^ 42" "float_text_exact P"
  shows "\<exists>b. spec_run P qs (\<lambda>_. None) rs b \<and> sim P (length qs) (view t) b"
  using svc_run_sim [OF assms(1,3), of 0 "\<lambda>_. None"] assms(2,4,5) sim_empty by simp

end

lemma spec_run_append:
  "spec_run P (qs @ qs') a (rs @ rs') b \<Longrightarrow> length rs = length qs \<Longrightarrow>
     \<exists>c. spec_run P qs a rs c \<and> spec_run P qs' c rs' b"
proof (induction qs arbitrary: a rs)
  case (Cons q qs)
  obtain r rs1 where rs: "rs = r # rs1" using Cons.prems(2) by (cases rs) auto
  with Cons show ?case by (fastforce simp del: spec_next.simps spec_reply.simps)
qed simp

end
