(* ===== verification/MemStore.thy ===== *)
theory MemStore
  imports Store
begin

text \<open>
  \<open>pkg/store/memstore.go\<close>: the in-memory store, every method as the code has it, and the proof that
  it meets the contract of the \<open>BitStore\<close> interface without ever failing. A Go map is a partial
  function, except where the code ranges over it or copies it (hash fields, set members), where it
  is a finite map or set. The mutex makes each method one atomic step, which is what a method is
  here.
\<close>

record memstore =
  ms_bitmaps :: "string \<rightharpoonup> (u64 \<rightharpoonup> bool)"
  ms_hashes :: "string \<rightharpoonup> fields"
  ms_counters :: "string \<rightharpoonup> i64"
  ms_sets :: "string \<rightharpoonup> string fset"

definition NewMemStore :: memstore where
  "NewMemStore = \<lparr>ms_bitmaps = Map.empty, ms_hashes = Map.empty, ms_counters = Map.empty,
     ms_sets = Map.empty\<rparr>"

definition mem_Ping :: "(memstore, unit) call" where
  "mem_Ping = returnC ()"

definition mem_SetBits :: "string \<Rightarrow> u64 list \<Rightarrow> (memstore, unit) call" where
  "mem_SetBits key offsets = (\<lambda>m.
     let bm = (case ms_bitmaps m key of None \<Rightarrow> Map.empty | Some bm \<Rightarrow> bm);
         bm = fold (\<lambda>o' b. b(o' \<mapsto> True)) offsets bm
     in (Ok (), m\<lparr>ms_bitmaps := (ms_bitmaps m)(key \<mapsto> bm)\<rparr>))"

text \<open>Reading a missing bitmap (a nil map) or a missing offset gives \<open>false\<close>.\<close>

definition mem_bit :: "memstore \<Rightarrow> string \<Rightarrow> u64 \<Rightarrow> bool" where
  "mem_bit m key o' = (case ms_bitmaps m key of None \<Rightarrow> False
     | Some bm \<Rightarrow> (case bm o' of None \<Rightarrow> False | Some b \<Rightarrow> b))"

definition mem_GetBits :: "string \<Rightarrow> u64 list \<Rightarrow> (memstore, bool list) call" where
  "mem_GetBits key offsets = (\<lambda>m. (Ok (map (mem_bit m key) offsets), m))"

definition mem_HGetAll :: "string \<Rightarrow> (memstore, fields) call" where
  "mem_HGetAll key = (\<lambda>m. (case ms_hashes m key of None \<Rightarrow> Ok fmempty | Some h \<Rightarrow> Ok h, m))"

definition mem_HSet :: "string \<Rightarrow> fields \<Rightarrow> (memstore, unit) call" where
  "mem_HSet key fs = (\<lambda>m.
     let h = (case ms_hashes m key of None \<Rightarrow> fmempty | Some h \<Rightarrow> h)
     in (Ok (), m\<lparr>ms_hashes := (ms_hashes m)(key \<mapsto> fmadd h fs)\<rparr>))"

definition mem_Incr :: "string \<Rightarrow> (memstore, i64) call" where
  "mem_Incr key = (\<lambda>m.
     let c = (case ms_counters m key of None \<Rightarrow> 0 | Some c \<Rightarrow> c) + 1
     in (Ok c, m\<lparr>ms_counters := (ms_counters m)(key \<mapsto> c)\<rparr>))"

definition mem_Get :: "string \<Rightarrow> (memstore, string \<times> bool) call" where
  "mem_Get key = (\<lambda>m. (case ms_counters m key of
     Some v \<Rightarrow> Ok (FormatInt v, True) | None \<Rightarrow> Ok ([], False), m))"

definition mem_SAdd :: "string \<Rightarrow> string list \<Rightarrow> (memstore, unit) call" where
  "mem_SAdd key members = (\<lambda>m.
     let s = (case ms_sets m key of None \<Rightarrow> {||} | Some s \<Rightarrow> s)
     in (Ok (), m\<lparr>ms_sets := (ms_sets m)(key \<mapsto> fold finsert members s)\<rparr>))"

definition mem_SRem :: "string \<Rightarrow> string list \<Rightarrow> (memstore, unit) call" where
  "mem_SRem key members = (\<lambda>m. case ms_sets m key of
     None \<Rightarrow> (Ok (), m)
   | Some s \<Rightarrow> (Ok (), m\<lparr>ms_sets := (ms_sets m)(key \<mapsto> fold (\<lambda>x s. s |-| {|x|}) members s)\<rparr>))"

text \<open>\<open>order\<close> is the order in which \<open>range\<close> visits the members.\<close>

definition mem_SMembers ::
    "(string list \<Rightarrow> string list) \<Rightarrow> string \<Rightarrow> (memstore, string list) call" where
  "mem_SMembers order key = (\<lambda>m. (Ok (case ms_sets m key of None \<Rightarrow> []
     | Some s \<Rightarrow> visit order (sorted_list_of_fset s)), m))"

definition mem_del1 :: "string \<Rightarrow> memstore \<Rightarrow> memstore" where
  "mem_del1 k m = m\<lparr>ms_bitmaps := (ms_bitmaps m)(k := None), ms_hashes := (ms_hashes m)(k := None),
     ms_counters := (ms_counters m)(k := None), ms_sets := (ms_sets m)(k := None)\<rparr>"

definition mem_Del :: "string list \<Rightarrow> (memstore, unit) call" where
  "mem_Del keys = (\<lambda>m. (Ok (), fold mem_del1 keys m))"

definition mem_AppendStage ::
    "string \<Rightarrow> i64 \<Rightarrow> fields \<Rightarrow> string \<Rightarrow> (memstore, i64) call" where
  "mem_AppendStage metaKey expected newStageFields newStageMetaKey = (\<lambda>m.
     case ms_hashes m metaKey of
       None \<Rightarrow> (Err (ErrorText (''memstore: meta key '' @ Quote metaKey @ '' not found'')), m)
     | Some h \<Rightarrow>
       (case (case fmlookup h ''stage_count'' of None \<Rightarrow> Ok 0
              | Some v \<Rightarrow> wrapR (''memstore: parse stage_count '' @ Quote v @ '': '') (Sscanf_d v)) of
         Err e \<Rightarrow> (Err e, m)
       | Panic p \<Rightarrow> (Panic p, m)
       | Ok current \<Rightarrow>
           if current \<noteq> expected then (Ok current, m)
           else let m1 = m\<lparr>ms_hashes := (ms_hashes m)(newStageMetaKey \<mapsto> newStageFields)\<rparr>;
                    h1 = (if newStageMetaKey = metaKey then h
                          else fmupd ''stage_count'' (FormatInt (current + 1)) h)
                in (Ok (current + 1), if newStageMetaKey = metaKey then m1
                    else m1\<lparr>ms_hashes := (ms_hashes m1)(metaKey \<mapsto> h1)\<rparr>)))"

definition memStore :: "(string list \<Rightarrow> string list) \<Rightarrow> memstore bitstore" where
  "memStore order = \<lparr>SetBits = mem_SetBits, GetBits = mem_GetBits, HGetAll = mem_HGetAll,
     HSet = mem_HSet, Incr = mem_Incr, Get = mem_Get, SAdd = mem_SAdd, SRem = mem_SRem,
     SMembers = mem_SMembers order, Del = mem_Del, AppendStage = mem_AppendStage\<rparr>"

section \<open>The view and the contract\<close>

definition mem_view :: "memstore \<Rightarrow> view" where
  "mem_view m = \<lparr>vbits = (\<lambda>k. {o'. mem_bit m k o'}),
     vhash = (\<lambda>k. case ms_hashes m k of None \<Rightarrow> fmempty | Some h \<Rightarrow> h),
     vctr = ms_counters m,
     vset = (\<lambda>k. case ms_sets m k of None \<Rightarrow> {} | Some s \<Rightarrow> fset s)\<rparr>"

lemmas mem_ops = mem_SetBits_def mem_GetBits_def mem_HGetAll_def mem_HSet_def mem_Incr_def
  mem_Get_def mem_SAdd_def mem_SRem_def mem_SMembers_def mem_Del_def mem_AppendStage_def

lemma fold_set_bits: "fold (\<lambda>o' b. b(o' \<mapsto> True)) os bm o' = (if o' \<in> set os then Some True else bm o')"
  by (induction os arbitrary: bm) auto

lemma fold_finsert: "fset (fold finsert xs s) = fset s \<union> set xs"
  by (induction xs arbitrary: s) auto

lemma fold_fremove: "fset (fold (\<lambda>x s. s |-| {|x|}) xs s) = fset s - set xs"
  by (induction xs arbitrary: s) auto

lemma fold_mem_del1:
  "fold mem_del1 ks m = m\<lparr>ms_bitmaps := (\<lambda>k. if k \<in> set ks then None else ms_bitmaps m k),
     ms_hashes := (\<lambda>k. if k \<in> set ks then None else ms_hashes m k),
     ms_counters := (\<lambda>k. if k \<in> set ks then None else ms_counters m k),
     ms_sets := (\<lambda>k. if k \<in> set ks then None else ms_sets m k)\<rparr>"
  by (induction ks arbitrary: m) (auto simp: mem_del1_def fun_eq_iff)

lemma mem_view_SetBits: "mem_SetBits k os m = (r, t) \<Longrightarrow>
    r = Ok () \<and> mem_view t = v_setbits k (set os) (mem_view m)"
  by (cases "ms_bitmaps m k")
    (clarsimp simp: mem_SetBits_def mem_view_def v_setbits_def mem_bit_def Let_def;
     rule ext; auto simp: fold_set_bits)+

lemma mem_view_HSet: "mem_HSet k fs m = (r, t) \<Longrightarrow>
    r = Ok () \<and> mem_view t = v_hset k fs (mem_view m)"
  by (cases "ms_hashes m k")
    (clarsimp simp: mem_HSet_def mem_view_def v_hset_def mem_bit_def Let_def; rule ext; simp)+

lemma mem_view_Incr: "mem_Incr k m = (r, t) \<Longrightarrow>
    r = Ok (ctr_next (vctr (mem_view m) k)) \<and> mem_view t = v_incr k (mem_view m)"
  by (cases "ms_counters m k")
    (clarsimp simp: mem_Incr_def mem_view_def v_incr_def ctr_next_def mem_bit_def Let_def)+

lemma mem_view_SAdd: "mem_SAdd k ms m = (r, t) \<Longrightarrow>
    r = Ok () \<and> mem_view t = v_sadd k ms (mem_view m)"
  by (cases "ms_sets m k")
    (clarsimp simp: mem_SAdd_def mem_view_def v_sadd_def mem_bit_def fold_finsert Let_def;
     rule ext; simp)+

lemma mem_view_SRem: "mem_SRem k ms m = (r, t) \<Longrightarrow>
    r = Ok () \<and> mem_view t = v_srem k ms (mem_view m)"
  by (cases "ms_sets m k")
    (clarsimp simp: mem_SRem_def mem_view_def v_srem_def mem_bit_def fold_fremove;
     rule ext; simp)+

lemma mem_view_Del: "mem_Del ks m = (r, t) \<Longrightarrow>
    r = Ok () \<and> mem_view t = v_del ks (mem_view m)"
  by (clarsimp simp: mem_Del_def mem_view_def v_del_def mem_bit_def fold_mem_del1)
    (intro conjI ext; simp)

lemma mem_view_hash: "fmlookup (vhash (mem_view m) k) f = Some v \<Longrightarrow>
    \<exists>h. ms_hashes m k = Some h \<and> fmlookup h f = Some v"
  by (auto simp: mem_view_def split: option.splits)

lemma Sscanf_d_FormatInt [simp]: "Sscanf_d (FormatInt c) = Ok c"
  using Sscanf_d_Atoi [OF Atoi_FormatInt, of c] by simp

lemma mem_view_Append_win:
  assumes "mem_AppendStage mk x fs nk m = (r, t)" "nk \<noteq> mk"
    and "fmlookup (vhash (mem_view m) mk) ''stage_count'' = Some (FormatInt x)"
  shows "r = Ok (x + 1) \<and> mem_view t = v_append mk x fs nk (mem_view m)"
proof -
  obtain h where "ms_hashes m mk = Some h" "fmlookup h ''stage_count'' = Some (FormatInt x)"
    using mem_view_hash [OF assms(3)] by auto
  then show ?thesis using assms(1,2)
    by (auto simp: mem_AppendStage_def mem_view_def v_append_def mem_bit_def fun_eq_iff Let_def)
qed

lemma mem_view_Append_lose:
  assumes "mem_AppendStage mk x fs nk m = (r, t)" "c \<noteq> x"
    and "fmlookup (vhash (mem_view m) mk) ''stage_count'' = Some (FormatInt c)"
  shows "r = Ok c \<and> t = m"
proof -
  obtain h where "ms_hashes m mk = Some h" "fmlookup h ''stage_count'' = Some (FormatInt c)"
    using mem_view_hash [OF assms(3)] by auto
  then show ?thesis using assms(1,2) by (auto simp: mem_AppendStage_def)
qed

lemma mem_view_Append_none:
  assumes "mem_AppendStage mk x fs nk m = (r, t)" "x \<noteq> 0"
    and "fmlookup (vhash (mem_view m) mk) ''stage_count'' = None"
  shows "t = m \<and> (r = Ok 0 \<or> (\<exists>e. r = Err e))"
  using assms by (auto simp: mem_AppendStage_def mem_view_def split: option.splits if_splits)

lemma distinct_sorted_list_of_fset [simp]: "distinct (sorted_list_of_fset S)"
  by (simp add: sorted_list_of_fset.rep_eq)

lemma memStore_sel [simp]:
  "SetBits (memStore ord) = mem_SetBits" "GetBits (memStore ord) = mem_GetBits"
  "HGetAll (memStore ord) = mem_HGetAll" "HSet (memStore ord) = mem_HSet"
  "Incr (memStore ord) = mem_Incr" "Get (memStore ord) = mem_Get"
  "SAdd (memStore ord) = mem_SAdd" "SRem (memStore ord) = mem_SRem"
  "SMembers (memStore ord) = mem_SMembers ord" "Del (memStore ord) = mem_Del"
  "AppendStage (memStore ord) = mem_AppendStage"
  by (simp_all add: memStore_def)

interpretation mem: bit_store "memStore ord" mem_view False for ord
proof (unfold_locales, goal_cases)
  case (11 mk x fs nk s r t)
  then have "mem_AppendStage mk x fs nk s = (r, t)" by simp
  from mem_view_Append_win [OF this 11(4,5)]
  show ?case by (auto simp: fmsubset_alt_def)
next
  case (12 mk x fs nk s r t c)
  then show ?case by (auto dest: mem_view_Append_lose)
next
  case (13 mk x fs nk s r t)
  then show ?case by (auto dest: mem_view_Append_none)
qed (auto dest: mem_view_SetBits mem_view_HSet mem_view_Incr mem_view_SAdd
      mem_view_SRem mem_view_Del
      simp: mem_GetBits_def mem_HGetAll_def mem_Get_def mem_SMembers_def mem_view_def
        split: option.splits)

interpretation mem: reliable_store "memStore ord" mem_view for ord
  by unfold_locales

end
