(* ===== verification/Demo.thy ===== *)
theory Demo
  imports RefineService MemStore
begin

text \<open>
  A concrete platform and the requests the witnesses run: Go's portable \<open>Log\<close> and \<open>Pow\<close>, floats
  written as mantissa and exponent (as Go's format \<open>'b'\<close> does), and a simple multiplicative hash in
  the place of the third-party one.
\<close>

definition demo_hash :: "bytes \<Rightarrow> u64" where
  "demo_hash b = fold (\<lambda>c h. (h + ucast c) * 1099511628211) b 14695981039346656037"

fun demo_format :: "f64 \<Rightarrow> string" where
  "demo_format (Fin m e) = Itoa m @ CHR ''p'' # Itoa e"
| "demo_format x = ''x''"

definition demo_parse :: "string \<Rightarrow> f64 res" where
  "demo_parse s = bindR (Atoi (takeWhile (\<lambda>c. c \<noteq> CHR ''p'') s)) (\<lambda>m.
     bindR (Atoi (drop 1 (dropWhile (\<lambda>c. c \<noteq> CHR ''p'') s))) (\<lambda>e. Ok (Fin m e)))"

definition demo :: platform where
  "demo = \<lparr>Sum64 = demo_hash, Log = portable_Log, Exp = id, Pow = portable_Pow,
     u64_big = \<lambda>_. push_bit 63 1, int_big = \<lambda>_. push_bit 63 1,
     FormatFloat = demo_format, ParseFloat = demo_parse\<rparr>"

definition demo_telemetry :: telemetry where
  "demo_telemetry = \<lparr>tl_spans = [], tl_inst = Some [], tl_log = []\<rparr>"

definition demo_run :: "request list \<Rightarrow> reply list \<times> (telemetry \<times> memstore)" where
  "demo_run qs = svc_run demo (memStore id) qs (demo_telemetry, NewMemStore)"

lemma p_not_Itoa: "CHR ''p'' \<notin> set (Itoa i)"
proof -
  have "CHR ''p'' \<notin> set (dec n)" if "0 \<le> n" for n
    using dec_digits [OF that, of "CHR ''p''"] by (auto simp: digit_of_def)
  then show ?thesis by (simp add: Itoa_def)
qed

lemma demo_text_exact: "float_text_exact demo"
proof -
  have "demo_parse (demo_format x) = Ok x" if x: "finite64 x" "f64_ok x" for x
  proof (cases x)
    case (Fin m e)
    have b: "\<bar>m\<bar> < 2 ^ 53" "-1074 \<le> e" "e \<le> 971" using x Fin by auto
    have "takeWhile (\<lambda>c. c \<noteq> CHR ''p'') (Itoa m @ CHR ''p'' # Itoa e) = Itoa m"
      "dropWhile (\<lambda>c. c \<noteq> CHR ''p'') (Itoa m @ CHR ''p'' # Itoa e) = CHR ''p'' # Itoa e"
      using p_not_Itoa [of m] by (simp_all add: takeWhile_append dropWhile_append)
    then show ?thesis using b Fin by (simp add: demo_parse_def)
  qed (use x in simp_all)
  then show ?thesis by (simp add: float_text_exact_def demo_def)
qed

definition item_a :: bytes where "item_a = [97]"
definition item_b :: bytes where "item_b = [98]"

lemma stage_bits_code [code]: "stage_bits P st = \<Union>(set (map (\<lambda>item.
    case item_positions P st item of Ok ps \<Rightarrow> set ps | _ \<Rightarrow> {}) (as_items st)))"
  by (auto simp: stage_bits_def split: res.splits; blast) 

lemma empty_NewMemStore: "mem_view NewMemStore = empty_view"
  by (simp add: mem_view_def NewMemStore_def mem_bit_def empty_view_def)

lemma sim_NewMemStore: "sim P N (mem_view NewMemStore) (\<lambda>_. None)"
  by (simp add: empty_NewMemStore sim_empty)

lemma counts_ok_NewMemStore: "counts_ok (mem_view NewMemStore)"
  by (simp add: counts_ok_def stage_count_text_def mem_view_def NewMemStore_def)

definition item_c :: bytes where "item_c = [99]"

definition demo_p :: f64 where
  "demo_p = rnd 1 100"

text \<open>A filter for one item: the first insertion fills its only stage, so a second one appears.\<close>

definition demo_stage0 :: "bytes list \<Rightarrow> astage" where
  "demo_stage0 xs = \<lparr>as_m = 15, as_k = 10, as_cap = 1, as_items = xs\<rparr>"

definition demo_stage1 :: "bytes list \<Rightarrow> astage" where
  "demo_stage1 xs = \<lparr>as_m = 30, as_k = 10, as_cap = 2, as_items = xs\<rparr>"

definition demo_filter :: "astage list \<Rightarrow> afilter" where
  "demo_filter sts = \<lparr>af_n = 1, af_p = demo_p, af_stages = sts\<rparr>"

lemma demo_create: "spec_create demo None 1 demo_p = Ok (demo_filter [demo_stage0 []])"
  by code_simp

lemma demo_add_a: "spec_add demo item_a (demo_filter [demo_stage0 []]) =
    (Ok (), demo_filter [demo_stage0 [item_a], demo_stage1 []])"
  by code_simp

lemma demo_add_b: "spec_add demo item_b (demo_filter [demo_stage0 [item_a], demo_stage1 []]) =
    (Ok (), demo_filter [demo_stage0 [item_a], demo_stage1 [item_b]])"
  by code_simp

lemma demo_positions_items:
  "item_positions demo (demo_stage0 xs) item = item_positions demo (demo_stage0 []) item"
  "item_positions demo (demo_stage1 xs) item = item_positions demo (demo_stage1 []) item"
  by (simp_all add: item_positions_def demo_stage0_def demo_stage1_def)

lemma demo_positions:
  "item_positions demo (demo_stage0 []) item_a = Ok [7, 9, 11, 13, 0, 2, 4, 6, 8, 10]"
  "item_positions demo (demo_stage0 []) item_c = Ok [9, 14, 5, 10, 1, 6, 12, 2, 8, 13]"
  "item_positions demo (demo_stage1 []) item_a = Ok [22, 24, 26, 28, 0, 2, 4, 6, 8, 10]"
  "item_positions demo (demo_stage1 []) item_b = Ok [23, 27, 15, 19, 23, 27, 15, 19, 23, 27]"
  "item_positions demo (demo_stage1 []) item_c = Ok [24, 14, 20, 10, 16, 6, 12, 2, 8, 28]"
  by code_simp+

lemma demo_filter_stages: "af_stages (demo_filter sts) = sts"
  by (simp add: demo_filter_def)

lemma demo_items: "as_items (demo_stage0 xs) = xs" "as_items (demo_stage1 xs) = xs"
  by (simp_all add: demo_stage0_def demo_stage1_def)

lemma demo_exists:
  "spec_exists demo item_a [demo_stage1 [item_b], demo_stage0 [item_a]] = Ok True"
  "spec_exists demo item_c [demo_stage1 [item_b], demo_stage0 [item_a]] = Ok False"
  "spec_exists demo item_a [demo_stage0 []] = Ok False"
  by (simp_all add: stage_bits_def demo_items demo_positions
      demo_positions_items [of "[item_a]"] demo_positions_items [of "[item_b]"])

lemma demo_p_ok: "f64_ok demo_p"
  by code_simp

section \<open>The runs of the witnesses\<close>

text \<open>The replies are determined by the specification, which evaluates without the store.\<close>

lemma demo_spec:
  assumes "reliable_store B mem_view" "svc_run demo B qs (demo_telemetry, NewMemStore) = (rs, (tm, t))"
    and "\<forall>q \<in> set qs. valid_request q \<and> typed_request q" "length qs \<le> 2 ^ 42"
  shows "\<exists>b. spec_run demo qs (\<lambda>_. None) rs b \<and> sim demo (length qs) (mem_view t) b"
  using reliable_store.svc_run_sim [OF assms(1,2,3) _ _ demo_text_exact, of 0 "\<lambda>_. None"] assms(4) sim_NewMemStore
  by simp

lemma demo_run_spec:
  assumes "\<forall>q \<in> set qs. valid_request q \<and> typed_request q" "length qs \<le> 2 ^ 42"
  shows "\<exists>b tm t. demo_run qs = (fst (demo_run qs), (tm, t))
    \<and> spec_run demo qs (\<lambda>_. None) (fst (demo_run qs)) b \<and> sim demo (length qs) (mem_view t) b"
proof -
  obtain rs tm t where run: "demo_run qs = (rs, (tm, t))" by (metis surj_pair)
  show ?thesis using demo_spec [OF mem.reliable_store_axioms run [unfolded demo_run_def] assms] run by simp
qed

abbreviation demo_create_req :: request where
  "demo_create_req \<equiv> CreateReq ''now'' ''f'' 1 demo_p"

definition demo_requests :: "request list" where
  "demo_requests = [demo_create_req, AddReq id ''f'' item_a, AddReq id ''f'' item_b,
     ExistsReq (\<lambda>_. id) ''f'' item_a]"

lemma demo_requests_ok: "\<forall>q \<in> set demo_requests. valid_request q \<and> typed_request q"
  "length demo_requests \<le> 2 ^ 42" "valid_name ''f''"
  by (simp_all add: demo_requests_def valid_request_def valid_name_def demo_p_ok)

lemma demo_service: "fst (demo_run demo_requests) =
    [CreateRep (Ok (spec_info ''f'' (demo_filter [demo_stage0 []]))), AddRep (Ok ()), AddRep (Ok ()),
     ExistsRep (Ok True)]"
proof -
  obtain b where "spec_run demo demo_requests (\<lambda>_. None) (fst (demo_run demo_requests)) b"
    using demo_run_spec [OF demo_requests_ok(1,2)] by blast
  then show ?thesis
    by (auto simp del: spec_exists.simps simp: demo_requests_def demo_create spec_find_def demo_add_a demo_add_b demo_exists
        demo_filter_stages)
qed

text \<open>The filter is deleted, created again and asked for an item the first one had.\<close>

definition demo_again :: "request list" where
  "demo_again = demo_requests @ [DeleteReq ''f'', demo_create_req, ExistsReq (\<lambda>_. id) ''f'' item_a]"

definition demo_replies :: "reply list" where
  "demo_replies = [CreateRep (Ok (spec_info ''f'' (demo_filter [demo_stage0 []]))), AddRep (Ok ()),
     AddRep (Ok ()), ExistsRep (Ok True)]"

lemma demo_service_again: "fst (demo_run demo_again) = demo_replies @
    [DeleteRep (Ok ()), CreateRep (Ok (spec_info ''f'' (demo_filter [demo_stage0 []]))),
     ExistsRep (Ok False)]"
proof -
  have "\<forall>q \<in> set demo_again. valid_request q \<and> typed_request q" "length demo_again \<le> 2 ^ 42"
    using demo_requests_ok
    by (auto simp: demo_again_def valid_request_def demo_p_ok demo_requests_def)
  then obtain b where "spec_run demo demo_again (\<lambda>_. None) (fst (demo_run demo_again)) b"
    using demo_run_spec by blast
  then show ?thesis
    by (auto simp del: spec_exists.simps simp: demo_again_def demo_requests_def demo_replies_def
        demo_create spec_find_def demo_add_a demo_add_b demo_exists demo_filter_stages)
qed

lemma demo_delete: "fst (demo_run (demo_requests @ [DeleteReq ''f''])) = demo_replies @ [DeleteRep (Ok ())]"
proof -
  let ?qs = "demo_requests @ [DeleteReq ''f'']"
  have "\<forall>q \<in> set ?qs. valid_request q \<and> typed_request q" "length ?qs \<le> 2 ^ 42"
    using demo_requests_ok by (auto simp: valid_request_def demo_requests_def)
  then obtain b where "spec_run demo ?qs (\<lambda>_. None) (fst (demo_run ?qs)) b"
    using demo_run_spec by blast
  then show ?thesis
    by (auto simp del: spec_exists.simps simp: demo_requests_def demo_replies_def demo_create
        spec_find_def demo_add_a demo_add_b demo_exists demo_filter_stages)
qed

lemma demo_run_eq:
  "fst (demo_run qs) = rs \<Longrightarrow> svc_run demo (memStore id) qs (demo_telemetry, NewMemStore)
     = (rs, (fst (snd (demo_run qs)), snd (snd (demo_run qs))))"
  by (auto simp: demo_run_def prod_eq_iff)

text \<open>A handle on the filter just created, and the store after an item went in through it.\<close>

definition demo_created :: memstore where
  "demo_created = snd (snd (demo_run [demo_create_req]))"

definition demo_F :: afilter where
  "demo_F = demo_filter [demo_stage0 []]"

definition demo_handle :: bloom where
  "demo_handle = concrete_filter ''f'' demo_F"

lemma demo_created_sim: "sim demo 1 (mem_view demo_created) [''f'' \<mapsto> demo_F]"
proof -
  obtain b tm t where t: "demo_run [demo_create_req] = (fst (demo_run [demo_create_req]), (tm, t))"
    and b: "spec_run demo [demo_create_req] (\<lambda>_. None) (fst (demo_run [demo_create_req])) b"
    and sim: "sim demo 1 (mem_view t) b"
    using demo_run_spec [of "[demo_create_req]"]
    by (auto simp: valid_request_def valid_name_def demo_p_ok)
  have "t = demo_created" using t unfolding demo_created_def by (metis snd_conv)
  moreover have "b = [''f'' \<mapsto> demo_F]" using b by (simp add: demo_create demo_F_def)
  ultimately show ?thesis using sim by simp
qed

lemma demo_F_ok: "afilter_ok 1 demo_F" "filter_sim demo (mem_view demo_created) ''f'' (Some demo_F)"
proof -
  show "afilter_ok 1 demo_F"
    using demo_created_sim unfolding sim_def by (metis fun_upd_same)
  show "filter_sim demo (mem_view demo_created) ''f'' (Some demo_F)"
    using sim_filter [OF demo_created_sim demo_requests_ok(3)] by simp
qed

lemma demo_load: "Load_view demo (mem_view demo_created) ''f'' = Ok demo_handle"
  using Load_view_filter [OF demo_F_ok(2) demo_requests_ok(3), of 1] demo_F_ok(1) demo_text_exact
  by (simp add: demo_handle_def)

lemma demo_counts: "counts_ok (mem_view demo_created)"
proof -
  have "evolves {} (mem_view NewMemStore) (mem_view demo_created)"
    using bit_store.svc_run_evolves [OF mem.bit_store_axioms demo_run_eq [of "[demo_create_req]"] , OF refl]
    by (simp add: demo_created_def valid_request_def valid_name_def)
  then show ?thesis using counts_ok_NewMemStore counts_ok_evolves by blast
qed

lemma demo_handle_ok: "handle (mem_view demo_created) demo_handle"
  using handle_Load [OF demo_load demo_counts demo_requests_ok(3)]
  by (simp add: demo_handle_def concrete_filter_def demo_F_def demo_filter_stages)

definition demo_added :: "unit res \<times> (bloom \<times> memstore)" where
  "demo_added = Add demo (memStore id) id item_a (demo_handle, demo_created)"

lemma demo_added_sim: "fst demo_added = Ok ()"
  "filter_sim demo (mem_view (snd (snd demo_added))) ''f''
     (Some (demo_filter [demo_stage0 [item_a], demo_stage1 []]))"
  using reliable_store.Add_sim [OF mem.reliable_store_axioms, of demo id id item_a "''f''" demo_F
      demo_created "fst demo_added" "fst (snd demo_added)" "snd (snd demo_added)" 1]
    demo_F_ok demo_requests_ok(3) demo_add_a
  by (simp_all add: demo_added_def demo_handle_def demo_F_def)

lemma demo_added_read: "\<exists>g t2 b u. Load demo (memStore id) ''f'' (snd (snd demo_added)) = (Ok g, t2)
     \<and> Exists demo (memStore id) (\<lambda>_. id) item_a g t2 = (Ok b, u)"
proof -
  let ?F = "demo_filter [demo_stage0 [item_a], demo_stage1 []]" and ?t = "snd (snd demo_added)"
  have ok: "afilter_ok 2 ?F" 
    using spec_add_ok [OF demo_F_ok(1), of demo item_a] demo_add_a
    by (simp add: demo_F_def numeral_2_eq_2)
  obtain r t2 where load: "Load demo (memStore id) ''f'' ?t = (r, t2)" by fastforce
  have "Load_view demo (mem_view ?t) ''f'' = Ok (concrete_filter ''f'' ?F)"
    using Load_view_filter [OF demo_added_sim(2) demo_requests_ok(3), of 2] ok demo_text_exact by simp
  then have r: "r = Ok (concrete_filter ''f'' ?F)" "mem_view t2 = mem_view ?t"
    using readsD [OF bit_store.reads_Load [OF mem.bit_store_axioms] load] by auto
  obtain r2 u where ex: "Exists demo (memStore id) (\<lambda>_. id) item_a (concrete_filter ''f'' ?F) t2 = (r2, u)"
    by fastforce
  have "spec_exists demo item_a [demo_stage1 [], demo_stage0 [item_a]] = Ok True"
    by (simp add: stage_bits_def demo_items demo_positions demo_positions_items [of "[item_a]"])
  then have "r2 = Ok True"
    using readsD [OF bit_store.reads_Exists [OF mem.bit_store_axioms] ex] r(2)
      Exists_view_sim [OF demo_added_sim(2), of item_a]
    by (simp add: demo_filter_stages)
  then show ?thesis using load r(1) ex by blast
qed

lemma demo_new: "fst (New demo (memStore id) ''now'' ''f'' 1 demo_p NewMemStore) = Ok demo_handle"
proof -
  obtain r t where "New demo (memStore id) ''now'' ''f'' 1 demo_p NewMemStore = (r, t)" by fastforce
  then show ?thesis
    using reliable_store.New_sim [OF mem.reliable_store_axioms _ _ demo_requests_ok(3), of demo id
        "''now''" 1 demo_p NewMemStore r t None] sim_filter [OF sim_NewMemStore demo_requests_ok(3)]
    by (simp add: demo_create demo_handle_def demo_F_def)
qed

text \<open>The same on the service.\<close>

lemma demo_svc_add:
  assumes "reliable_store B mem_view"
  obtains tm1 t where "SvcAdd demo B id ''f'' item_a (demo_telemetry, demo_created) = (Ok (), (tm1, t))"
    "sim demo 2 (mem_view t) [''f'' \<mapsto> demo_filter [demo_stage0 [item_a], demo_stage1 []]]"
proof -
  obtain r tm1 t where run: "SvcAdd demo B id ''f'' item_a (demo_telemetry, demo_created) = (r, (tm1, t))"
    by (metis surj_pair)
  from reliable_store.SvcAdd_sim [OF assms run demo_created_sim demo_requests_ok(3) _ demo_text_exact]
  have "r = Ok () \<and> sim demo 2 (mem_view t) [''f'' \<mapsto> demo_filter [demo_stage0 [item_a], demo_stage1 []]]"
    by (simp add: spec_find_def demo_add_a demo_F_def numeral_2_eq_2 fun_upd_def cong: if_cong)
  then show ?thesis using run that by simp
qed

lemma demo_svc_exists:
  assumes "reliable_store B mem_view"
    and "sim demo 2 (mem_view t) [''f'' \<mapsto> demo_filter [demo_stage0 [item_a], demo_stage1 []]]"
  shows "fst (SvcExists demo B (\<lambda>_. id) ''f'' item_a (tm, t)) = Ok True"
proof -
  obtain r tm1 u where run: "SvcExists demo B (\<lambda>_. id) ''f'' item_a (tm, t) = (r, (tm1, u))"
    by (metis surj_pair)
  have "spec_exists demo item_a [demo_stage1 [], demo_stage0 [item_a]] = Ok True"
    by (simp add: stage_bits_def demo_items demo_positions demo_positions_items [of "[item_a]"])
  then show ?thesis
    using reliable_store.SvcExists_sim [OF assms(1) run assms(2) demo_requests_ok(3) _ demo_text_exact]
      run by (simp add: spec_find_def demo_filter_stages del: spec_exists.simps)
qed

end
