(* ===== verification/Tracing.thy ===== *)
theory Tracing
  imports ServiceLaws
begin

text \<open>
  What the operations of the service leave in the telemetry: \<open>emits g c\<close> says that the call \<open>c\<close> ends no
  span and records exactly the metrics \<open>g\<close> gives for its result. The rules follow the way calls are
  put together, as those of \<open>reads\<close> do.
\<close>

section \<open>What a request is recorded as\<close>

fun request_op :: "request \<Rightarrow> string option" where
  "request_op (CreateReq now name n p) = Some ''create''"
| "request_op (AddReq ord name value) = Some ''add''"
| "request_op (ExistsReq ords name value) = Some ''exists''"
| "request_op (StatsReq name) = Some ''stats''"
| "request_op (DeleteReq name) = Some ''delete''"
| "request_op (SamplesReq mg) = None"

definition res_error :: "'a res \<Rightarrow> error option" where
  "res_error r = (case r of Err e \<Rightarrow> Some e | _ \<Rightarrow> None)"

fun reply_error :: "reply \<Rightarrow> error option" where
  "reply_error (CreateRep r) = res_error r"
| "reply_error (AddRep r) = res_error r"
| "reply_error (ExistsRep r) = res_error r"
| "reply_error (StatsRep r) = res_error r"
| "reply_error (DeleteRep r) = res_error r"
| "reply_error (SamplesRep r) = res_error r"

definition added_events :: "reply \<Rightarrow> metric_event list" where
  "added_events a = (if a = AddRep (Ok ()) then [ItemsAdded 1] else [])"

text \<open>\<open>emits g c\<close>: the call \<open>c\<close> ends no span and records the metrics \<open>g\<close> gives for its result.\<close>

definition emits :: "('a res \<Rightarrow> metric_event list) \<Rightarrow> (telemetry \<times> 's, 'a) call \<Rightarrow> bool" where
  "emits g c \<longleftrightarrow> (\<forall>tm s r tm' t. c (tm, s) = (r, (tm', t)) \<longrightarrow>
     tl_spans tm' = tl_spans tm \<and> tl_inst tm' = map_option (\<lambda>log. log @ g r) (tl_inst tm))"

named_theorems emits_intros \<open>what calls record\<close>

lemma emitsD: "emits g c \<Longrightarrow> c (tm, s) = (r, (tm', t)) \<Longrightarrow>
    tl_spans tm' = tl_spans tm \<and> tl_inst tm' = map_option (\<lambda>log. log @ g r) (tl_inst tm)"
  unfolding emits_def by blast

abbreviation silent :: "(telemetry \<times> 's, 'a) call \<Rightarrow> bool" where
  "silent c \<equiv> emits (\<lambda>_. []) c"

lemma map_option_append_Nil [simp]: "map_option (\<lambda>log. log) x = x"
  by (cases x) simp_all

lemma silent_resC [emits_intros]: "silent (resC r)"
  by (simp add: emits_def)

lemma silent_returnC [emits_intros]: "silent (returnC x)"
  by (simp add: emits_def)

lemma silent_onStore [emits_intros]: "silent (onStore c)"
  by (auto simp: emits_def elim: onStore_cases)

lemma silent_mapErrC [emits_intros]: "silent c \<Longrightarrow> silent (mapErrC c)"
  unfolding emits_def by (blast elim: mapErrC_cases)

lemma silent_if [emits_intros]: "silent c \<Longrightarrow> silent d \<Longrightarrow> silent (if b then c else d)"
  by simp

lemma emits_bindC [emits_intros]:
  assumes "silent c" "\<And>x. emits g (f x)" "\<And>e. g (Err e) = []" "\<And>p. g (Panic p) = []"
  shows "emits g (bindC c f)"
  unfolding emits_def
proof (intro allI impI)
  fix tm s r tm' t
  assume "bindC c f (tm, s) = (r, (tm', t))"
  then show "tl_spans tm' = tl_spans tm \<and> tl_inst tm' = map_option (\<lambda>log. log @ g r) (tl_inst tm)"
  proof (cases rule: bindC_cases)
    case (ok x u)
    then show ?thesis using emitsD [OF assms(1)] emitsD [OF assms(2)] by (cases u) fastforce
  qed (use emitsD [OF assms(1)] assms(3,4) in auto)
qed

lemma silent_bindC [emits_intros]: "silent c \<Longrightarrow> (\<And>x. silent (f x)) \<Longrightarrow> silent (bindC c f)"
  by (rule emits_bindC) simp_all

lemma emits_traced:
  assumes "emits g c" "traced span op c (tm, s) = (r, (tm', t))"
  shows "tl_spans tm' = tl_spans tm @ [(span, res_error r)]
    \<and> tl_inst tm' = map_option (\<lambda>log. log @ g r @ [FilterOp op (res_error r = None)]) (tl_inst tm)"
  using assms(2)
proof (cases rule: traced_cases)
  case (1 tm0)
  then show ?thesis using emitsD [OF assms(1) 1(1)]
    by (cases "tl_inst tm")
      (auto simp: finishSpan_def RecordOp_def record_metric_def res_error_def)
qed

lemma emits_item: "emits (\<lambda>r. if r = Ok () then [ItemsAdded 1] else [])
    (\<lambda>(tm, s). (Ok (), (tm\<lparr>tl_inst := RecordItemsAdded 1 (tl_inst tm)\<rparr>, s)))"
  by (auto simp: emits_def RecordItemsAdded_def record_metric_def split: option.split)

end
