(* ===== verification/Races.thy ===== *)
theory Races
  imports RefineService
begin

text \<open>
  The compare-and-set of a stage append, from the side of the handles: the one that comes first
  appends, and one that comes late, after others have appended, finds out and writes nothing.
\<close>

context reliable_store
begin

text \<open>A handle that does not know the newest stages tries to append one.\<close>

lemma appendNewStage_late:
  assumes run: "appendNewStage P B (g, s) = (r, (g', t))"
    and st: "computeStage P (f_n g) (f_p g) (f_r g) (f_s g) (int (length (f_stages g))) = Ok st"
    and fs: "filter_sim P (view s) (f_name g) (Some G)"
    and len: "length (f_stages g) < length (af_stages G)" "length (af_stages G) \<le> 2 ^ 42"
  shows "view t = view s \<and> (if length (af_stages G) = Suc (length (f_stages g))
      then r = Ok () \<and> g' = g\<lparr>f_stages := f_stages g @ [st]\<rparr>
      else \<exists>u. reload P B (g, u) = (r, (g', t)) \<and> view u = view s)"
proof -
  let ?n = "length (f_stages g)" and ?c = "length (af_stages G)"
  obtain r1 u where app: "AppendStage B (metaKey (f_name g)) (word_of_nat ?n) (stageToMap st)
      (stageMetaKey (f_name g) (int ?n)) s = (r1, u)" by fastforce
  have cnt: "fmlookup (vhash (view s) (metaKey (f_name g))) ''stage_count''
      = Some (FormatInt (word_of_nat ?c))"
    using fs by (auto simp: filter_sim_def meta_sim_def)
  have i64: "sint (word_of_nat ?c :: i64) = int ?c" "sint (word_of_nat ?n :: i64) = int ?n"
      "sint (word_of_nat ?n + 1 :: i64) = int ?n + 1"
    using int_in_i64(1) [of "int ?c"] int_in_i64(1) [of "int ?n"] int_in_i64(1) [of "int ?n + 1"] len
    by simp_all
  then have ne: "(word_of_nat ?c :: i64) \<noteq> word_of_nat ?n" using len(1) by (metis nat_less_le of_nat_eq_iff)
  have u: "r1 = Ok (word_of_nat ?c)" "view u = view s"
    using AppendStage_lose [OF app kinds(1,2) cnt ne] by auto
  show ?thesis
    using run st app u i64 len reload_law(1)
    by (auto simp: appendNewStage_def Let_def split: if_splits)
qed

lemma appendNewStage_first:
  assumes run: "appendNewStage P B (f, s) = (r, (f', t))"
    and st: "computeStage P (f_n f) (f_p f) (f_r f) (f_s f) (int (length (f_stages f))) = Ok st"
    and fs: "filter_sim P (view s) (f_name f) (Some F)" and name: "valid_name (f_name f)"
    and len: "length (f_stages f) = length (af_stages F)" "length (af_stages F) \<le> 2 ^ 42"
  shows "r = Ok () \<and> f' = f\<lparr>f_stages := f_stages f @ [st]\<rparr>"
proof -
  let ?n = "length (f_stages f)"
  obtain r1 u where app: "AppendStage B (metaKey (f_name f)) (word_of_nat ?n) (stageToMap st)
      (stageMetaKey (f_name f) (int ?n)) s = (r1, u)" by fastforce
  have ne: "stageMetaKey (f_name f) (int ?n) \<noteq> metaKey (f_name f)"
    using name keys_of_kinds(1) by metis
  have cnt: "fmlookup (vhash (view s) (metaKey (f_name f))) ''stage_count''
      = Some (FormatInt (word_of_nat ?n))"
    using fs len(1) by (auto simp: filter_sim_def meta_sim_def)
  have "r1 = Ok (word_of_nat ?n + 1)"
    using AppendStage_win [OF app kinds(1,2) ne cnt] int_in_i64(1) [of "int ?n"] len by auto
  then show ?thesis using run st app by (simp add: appendNewStage_def Let_def)
qed

end

end
