(* ===== verification/ServiceProps.thy ===== *)
theory ServiceProps
  imports Demo Tracing Races
begin

text \<open>
  Properties of single operations of the filter and of the service: membership, the gauges, what a
  corrupt store can cause, what is recorded, and how handles that race for a stage end up.
\<close>

section \<open>Membership and gauges\<close>

text \<open>
  C13 \<open>Exists\<close> is exact: what it answers without error is whether some stage of the filter value has
  all bits of the item set, whatever the order in which shards are visited; it changes nothing.
\<close>

theorem exists_is_exact:
  assumes "bit_store B view failing" "Exists P B ords item f s = (r, t)"
  shows "view t = view s \<and> (r = Ok b \<longrightarrow>
     b = (\<exists>st \<in> set (f_stages f). stage_has P (view s) (f_name f) item st))"
  using readsD [OF bit_store.reads_Exists [OF assms(1)] assms(2)] Exists_view_Ok by fastforce

lemma demo_absent: "fst (Exists demo (memStore id) (\<lambda>_. id) item_a demo_handle demo_created) = Ok False"
proof -
  obtain r t where ex: "Exists demo (memStore id) (\<lambda>_. id) item_a demo_handle demo_created = (r, t)"
    by fastforce
  then show ?thesis
    using readsD [OF bit_store.reads_Exists [OF mem.bit_store_axioms] ex]
      Exists_view_sim [OF demo_F_ok(2), of item_a]
    by (simp add: demo_handle_def demo_F_def demo_filter_stages demo_exists(3) del: spec_exists.simps)
qed

theorem exists_is_exact_witness:
  "\<not> (\<exists>st \<in> set (f_stages demo_handle). stage_has demo (mem_view demo_created) ''f'' item_a st)"
  using exists_is_exact [OF mem.bit_store_axioms, of demo id "\<lambda>_. id" item_a demo_handle demo_created
      "Ok False" "snd (Exists demo (memStore id) (\<lambda>_. id) item_a demo_handle demo_created)" False]
    demo_absent
  by (auto simp: demo_handle_def concrete_filter_def prod_eq_iff)

lemma Items_concrete: "Items (concrete_filter name F) = sum_list (map stage_fill (af_stages F))"
  by (simp add: Items_sum concrete_filter_def concrete_stage_def comp_def case_prod_beta
      flip: map_map [of stage_fill snd, unfolded comp_def])

lemma sum_list_of_nat: "sum_list (map (\<lambda>x. of_nat (g x)) xs) = (of_nat (sum_list (map g xs)) :: u64)"
  by (induction xs) simp_all

text \<open>Requests that add to a filter, and those among them that answered without error.\<close>

fun adds_to :: "string \<Rightarrow> request \<Rightarrow> bool" where
  "adds_to name (AddReq ord nm item) = (nm = name)"
| "adds_to name q = False"

definition item_count :: "afilter \<Rightarrow> nat" where
  "item_count F = sum_list (map (\<lambda>st. length (as_items st)) (af_stages F))"

lemma item_count_Items:
  "item_count F < 2 ^ 64 \<Longrightarrow> unat (Items (concrete_filter name F)) = item_count F"
  by (simp add: item_count_def Items_concrete stage_fill_def [abs_def] sum_list_of_nat unsigned_of_nat
      take_bit_nat_eq_self_iff)

lemma spec_grow_count [simp]: "item_count (snd (spec_grow P F)) = item_count F"
  by (auto simp: spec_grow_def item_count_def empty_stage_def Let_def split: res.split)

lemma spec_grow_stages: "af_stages F \<noteq> [] \<Longrightarrow> af_stages (snd (spec_grow P F)) \<noteq> []"
  by (simp add: spec_grow_def Let_def split: res.split)

text \<open>An item is counted when its \<open>Add\<close> answers without error, and at most once whatever it answers.\<close>

lemma spec_add_count:
  assumes "af_stages F \<noteq> []"
  shows "item_count (snd (spec_add P item F)) \<in> {item_count F, item_count F + 1}"
    "fst (spec_add P item F) = Ok () \<Longrightarrow> item_count (snd (spec_add P item F)) = item_count F + 1"
    "af_stages (snd (spec_add P item F)) \<noteq> []"
proof -
  obtain ys cur where F: "af_stages F = ys @ [cur]" using assms by (metis append_butlast_last_id)
  let ?F = "F\<lparr>af_stages := ys @ [cur\<lparr>as_items := as_items cur @ [item]\<rparr>]\<rparr>"
  have "item_count ?F = item_count F + 1" "af_stages ?F \<noteq> []" by (simp_all add: item_count_def F)
  then show "item_count (snd (spec_add P item F)) \<in> {item_count F, item_count F + 1}"
    "fst (spec_add P item F) = Ok () \<Longrightarrow> item_count (snd (spec_add P item F)) = item_count F + 1"
    "af_stages (snd (spec_add P item F)) \<noteq> []"
    using assms spec_grow_stages [of ?F P] by (auto simp: spec_add_def F Let_def split: res.split)
qed

definition adds :: "string \<Rightarrow> request list \<Rightarrow> nat" where
  "adds name qs = length (filter (adds_to name) qs)"

definition added :: "string \<Rightarrow> request list \<Rightarrow> reply list \<Rightarrow> nat" where
  "added name qs rs = length (filter (\<lambda>(q, r). adds_to name q \<and> r = AddRep (Ok ())) (zip qs rs))"

lemma adds_simps [simp]:
  "adds name [] = 0" "adds name (q # qs) = (if adds_to name q then 1 else 0) + adds name qs"
  "added name [] rs = 0"
  "added name (q # qs) (r # rs) = (if adds_to name q \<and> r = AddRep (Ok ()) then 1 else 0) + added name qs rs"
  by (simp_all add: adds_def added_def)

lemma adds_le: "adds name qs \<le> length qs"
  by (simp add: adds_def)

lemma spec_step_count:
  assumes "spec_reply P q a r" "a name = Some F" "af_stages F \<noteq> []" "name \<notin> dropped q"
  shows "\<exists>G. spec_next P q a name = Some G \<and> af_stages G \<noteq> []
    \<and> item_count F + (if adds_to name q \<and> r = AddRep (Ok ()) then 1 else 0) \<le> item_count G
    \<and> item_count G \<le> item_count F + (if adds_to name q then 1 else 0)"
proof (cases "adds_to name q")
  case True
  then obtain ord item where q: "q = AddReq ord name item" by (cases q) auto
  have "r = AddRep (Ok ()) \<Longrightarrow> fst (spec_add P item F) = Ok ()"
    using assms(1,2) by (cases "fst (spec_add P item F)") (auto simp: q spec_find_def)
  then show ?thesis using spec_add_count [OF assms(3), of P item] assms(2) by (auto simp: q)
next
  case False
  have "spec_next P q a name = Some F"
    using False assms(2,4) by (cases q) (auto simp: spec_create_def split: res.split option.split)
  then show ?thesis using False assms(3) by simp
qed

lemma spec_run_count:
  assumes "spec_run P qs a rs b" "a name = Some F" "af_stages F \<noteq> []" "\<forall>q \<in> set qs. name \<notin> dropped q"
  shows "\<exists>G. b name = Some G \<and> item_count F + added name qs rs \<le> item_count G
    \<and> item_count G \<le> item_count F + adds name qs"
  using assms
proof (induction qs arbitrary: a rs F)
  case (Cons q qs)
  obtain r rs' where r: "rs = r # rs'" "spec_reply P q a r" "spec_run P qs (spec_next P q a) rs' b"
    using Cons.prems(1) by auto
  obtain F1 where F1: "spec_next P q a name = Some F1" "af_stages F1 \<noteq> []"
      "item_count F + (if adds_to name q \<and> r = AddRep (Ok ()) then 1 else 0) \<le> item_count F1"
      "item_count F1 \<le> item_count F + (if adds_to name q then 1 else 0)"
    using spec_step_count [OF r(2) Cons.prems(2,3)] Cons.prems(4) by auto
  obtain G where "b name = Some G" "item_count F1 + added name qs rs' \<le> item_count G"
      "item_count G \<le> item_count F1 + adds name qs"
    using Cons.IH [OF r(3) F1(1,2)] Cons.prems(4) by auto
  then show ?case using F1(3,4) r(1) by (auto split: if_splits)
qed simp

text \<open>
  C32 The items gauge counts the insertions. At the end of any history on a reliable store, the samples
  list a filter that was created and not deleted since, unless the cap leaves it out, and its \<open>Items\<close> is at
  least the number of its \<open>Add\<close>s that answered without error, and at most the number of its \<open>Add\<close>s: it is
  exact when no \<open>Add\<close> of the filter has failed. So every \<open>Add\<close> has counted its item in the store, in the
  stage it went to, and nothing else has.
\<close>

theorem items_gauge_counts:
  assumes "reliable_store B view" "view s = empty_view"
    and "svc_run P B (qs @ CreateReq now name n p # qs' @ [SamplesReq mg]) (tm, s)
      = (rs @ CreateRep (Ok info) # rs' @ [a], (tm', t))" "length rs = length qs"
    and "\<forall>q \<in> set (CreateReq now name n p # qs @ qs'). valid_request q \<and> typed_request q"
    and "\<forall>q \<in> set qs'. name \<notin> dropped q"
    and "length qs + length qs' + 2 \<le> 2 ^ 42" "float_text_exact P"
  shows "\<exists>obs. a = SamplesRep (Ok obs) \<and> (mg \<le> 0 \<longrightarrow> name \<in> fs_Name ` set (fo_Samples obs))
    \<and> (\<forall>x \<in> set (fo_Samples obs). fs_Name x = name \<longrightarrow>
         added name qs' rs' \<le> unat (fs_Items x) \<and> unat (fs_Items x) \<le> adds name qs')"
proof -
  have len: "length rs' = length qs'" using svc_run_length [OF assms(3)] assms(4) by simp
  have "valid_request (SamplesReq mg)" by (simp add: valid_request_def)
  then obtain b where "spec_run P (qs @ CreateReq now name n p # qs' @ [SamplesReq mg]) (\<lambda>_. None)
      (rs @ CreateRep (Ok info) # rs' @ [a]) b"
    using reliable_store.svc_run_refines [OF assms(1,3,2)] assms(5,7,8) by auto
  then obtain c where c: "spec_run P (CreateReq now name n p # qs' @ [SamplesReq mg]) c (CreateRep (Ok info) # rs' @ [a]) b"
    using spec_run_append assms(4) by blast
  then obtain F where F: "spec_create P (c name) n p = Ok F"
    by (cases "spec_create P (c name) n p") auto
  then have new: "af_stages F \<noteq> []" "item_count F = 0"
    by (auto simp: spec_create_def item_count_def empty_stage_def bindR_Ok_iff split: if_splits)
  have "spec_run P (qs' @ [SamplesReq mg]) (c(name \<mapsto> F)) (rs' @ [a]) b" using c F by simp
  then obtain d where d: "spec_run P qs' (c(name \<mapsto> F)) rs' d" "spec_run P [SamplesReq mg] d [a] b"
    using spec_run_append len by blast
  obtain G where G: "d name = Some G" "added name qs' rs' \<le> item_count G" "item_count G \<le> adds name qs'"
    using spec_run_count [OF d(1) _ new(1) assms(6)] new(2) by auto
  obtain names where names: "set names = dom d" "a = SamplesRep (Ok \<lparr>fo_Count = int (length names),
      fo_Samples = map (\<lambda>name. sample_of P name (concrete_filter name (the (d name)))) (cap_names mg names)\<rparr>)"
    using d(2) by auto
  have "item_count G < 2 ^ 64" using G(3) adds_le [of name qs'] assms(7) by simp
  from item_count_Items [OF this, of name] G names show ?thesis
    by (auto simp: sample_of_def cap_names_def image_image)
qed

theorem items_gauge_counts_witness:
  "\<exists>obs x. fst (demo_run (demo_requests @ [SamplesReq 0])) ! 4 = SamplesRep (Ok obs) \<and> x \<in> set (fo_Samples obs)
    \<and> fs_Name x = ''f'' \<and> unat (fs_Items x) = 2"
proof -
  let ?qs = "[AddReq id ''f'' item_a, AddReq id ''f'' item_b, ExistsReq (\<lambda>_. id) ''f'' item_a]"
  let ?rs = "[AddRep (Ok ()), AddRep (Ok ()), ExistsRep (Ok True)]"
  let ?info = "spec_info ''f'' (demo_filter [demo_stage0 []])"
  obtain rs1 t1 where one: "svc_run demo (memStore id) demo_requests (demo_telemetry, NewMemStore) = (rs1, t1)"
    by (metis surj_pair)
  then have rs1: "rs1 = CreateRep (Ok ?info) # ?rs"
    using demo_service by (simp add: demo_run_def)
  obtain a tm t where two: "svc_step demo (memStore id) (SamplesReq 0) t1 = (a, (tm, t))" by (metis surj_pair)
  have run: "svc_run demo (memStore id) ([] @ demo_create_req # ?qs @ [SamplesReq 0]) (demo_telemetry, NewMemStore)
      = ([] @ CreateRep (Ok ?info) # ?rs @ [a], (tm, t))"
    using one two svc_run_append [of demo "memStore id" demo_requests "[SamplesReq 0]" "(demo_telemetry, NewMemStore)"]
    by (simp add: rs1 demo_requests_def del: svc_step.simps)
  have "\<exists>obs. a = SamplesRep (Ok obs) \<and> ((0 :: int) \<le> 0 \<longrightarrow> ''f'' \<in> fs_Name ` set (fo_Samples obs))
      \<and> (\<forall>x \<in> set (fo_Samples obs). fs_Name x = ''f'' \<longrightarrow>
           added ''f'' ?qs ?rs \<le> unat (fs_Items x) \<and> unat (fs_Items x) \<le> adds ''f'' ?qs)"
    by (rule items_gauge_counts [OF mem.reliable_store_axioms empty_NewMemStore run])
      (use demo_requests_ok demo_text_exact in \<open>auto simp: demo_requests_def\<close>)
  then obtain obs x where "a = SamplesRep (Ok obs)" "x \<in> set (fo_Samples obs)" "fs_Name x = ''f''" "unat (fs_Items x) = 2"
    by force
  moreover have "fst (demo_run (demo_requests @ [SamplesReq 0])) ! 4 = a"
    using run by (simp add: demo_run_def demo_requests_def del: svc_run.simps svc_step.simps)
  ultimately show ?thesis by blast
qed

text \<open>
  C31 Collecting the gauges never fails and changes nothing, on any store at any failure: an error
  only loses samples. The samples never exceed the cap (when it is positive) nor the reported count.
\<close>

theorem samples_never_fail:
  assumes "bit_store B view failing" "FilterSamples P B mg s = (r, t)"
  shows "view t = view s \<and> (\<forall>e. r \<noteq> Err e) \<and> (\<forall>obsv. r = Ok obsv \<longrightarrow>
     int (length (fo_Samples obsv)) \<le> fo_Count obsv
     \<and> (0 < mg \<longrightarrow> int (length (fo_Samples obsv)) \<le> mg))"
proof -
  have bound: "int (length xs) \<le> int (length names) \<and> (0 < mg \<longrightarrow> int (length xs) \<le> mg)"
    if "length xs \<le> length (cap_names mg names)" for xs :: "FilterSample list" and names
    using that by (auto simp: cap_names_def split: if_splits)
  have "(\<forall>e. r \<noteq> Err e) \<and> (\<forall>obsv. r = Ok obsv \<longrightarrow>
     int (length (fo_Samples obsv)) \<le> fo_Count obsv
     \<and> (0 < mg \<longrightarrow> int (length (fo_Samples obsv)) \<le> mg))"
    using assms(2) unfolding FilterSamples_def
    by (auto elim!: catchC_cases bindC_cases dest!: bit_store.sample_loop_length [OF assms(1)] bound)
  then show ?thesis using bit_store.FilterSamples_same [OF assms(1,2)] by blast
qed

lemma samples_NewMemStore:
  "FilterSamples P (memStore id) 1 NewMemStore = (Ok \<lparr>fo_Count = 0, fo_Samples = []\<rparr>, NewMemStore)"
proof -
  have "ListFilters (memStore id) NewMemStore = (Ok [], NewMemStore)"
    by (simp add: ListFilters_def mem_SMembers_def NewMemStore_def)
  then show ?thesis by (simp add: FilterSamples_def cap_names_def catchC_def bindC_def)
qed

theorem samples_never_fail_witness:
  "\<exists>obsv. FilterSamples demo (memStore id) 1 NewMemStore = (Ok obsv, NewMemStore)
     \<and> int (length (fo_Samples obsv)) \<le> 1"
  using samples_never_fail [OF mem.bit_store_axioms samples_NewMemStore [of demo]]
    samples_NewMemStore [of demo] by auto

section \<open>Corrupt stores\<close>

text \<open>
  C33 What a corrupt store can do: loading a filter panics only if the stored \<open>stage_count\<close> is a number
  that is negative or too large to allocate; every other corruption is an error. (Parsing a float
  does not panic.)
\<close>

theorem load_panics_only_on_count:
  assumes "bit_store B view failing" "Load P B name s = (Panic msg, t)"
    and "\<And>x p. ParseFloat P x \<noteq> Panic p"
  shows "\<exists>c. Atoi (field (vhash (view s) (metaKey name)) ''stage_count'') = Ok c
    \<and> (c < 0 \<or> 2 ^ 48 < 40 * c)"
proof -
  have "Load_view P (view s) name = Panic msg"
    using readsD [OF bit_store.reads_Load [OF assms(1)] assms(2)] by auto
  then show ?thesis
    by (auto simp: Load_view_def Let_def bindR_Panic_iff makeslice_def assms(3) split: if_splits)
qed

definition demo_corrupt :: memstore where
  "demo_corrupt = NewMemStore\<lparr>ms_hashes := [''bf:f:meta'' \<mapsto> fmupd ''stage_count'' ''-1''
     (filterMeta demo ''now'' 1 demo_p)]\<rparr>"

lemma demo_corrupt_meta: "vhash (mem_view demo_corrupt) (metaKey ''f'')
    = fmupd ''stage_count'' ''-1'' (filterMeta demo ''now'' 1 demo_p)"
  by (simp add: mem_view_def demo_corrupt_def metaKey_def)

lemma demo_corrupt_fields:
  "field (fmupd ''stage_count'' ''-1'' (filterMeta demo ''now'' 1 demo_p)) ''n'' = FormatUint 1"
  "field (fmupd ''stage_count'' ''-1'' (filterMeta demo ''now'' 1 demo_p)) ''p'' = FormatFloat demo demo_p"
  "field (fmupd ''stage_count'' ''-1'' (filterMeta demo ''now'' 1 demo_p)) ''r'' = FormatFloat demo DefaultR"
  "field (fmupd ''stage_count'' ''-1'' (filterMeta demo ''now'' 1 demo_p)) ''s'' = FormatFloat demo DefaultS"
  "field (fmupd ''stage_count'' ''-1'' (filterMeta demo ''now'' 1 demo_p)) ''stage_count'' = ''-1''"
  by (simp_all add: field_def filterMeta_def)

lemma demo_corrupt_panics: "\<exists>msg t. Load demo (memStore id) ''f'' demo_corrupt = (Panic msg, t)"
proof -
  let ?h = "fmupd ''stage_count'' ''-1'' (filterMeta demo ''now'' 1 demo_p)"
  have ne: "?h \<noteq> fmempty" by (metis fmempty_lookup fmupd_lookup option.distinct(1))
  have exact: "ParseFloat demo (FormatFloat demo x) = Ok x" if "finite64 x" "f64_ok x" for x
    using demo_text_exact that unfolding float_text_exact_def by blast
  have fl: "finite64 demo_p" "f64_ok demo_p" "finite64 DefaultR" "f64_ok DefaultR"
    "finite64 DefaultS" "f64_ok DefaultS" by code_simp+
  have cnt: "Atoi ''-1'' = Ok (-1)" by code_simp
  have "Load_view demo (mem_view demo_corrupt) ''f''
      = Panic ''runtime error: makeslice: len out of range''"
    unfolding Load_view_def demo_corrupt_meta Let_def demo_corrupt_fields
    by (simp add: ne exact fl cnt makeslice_def)
  moreover obtain r t where "Load demo (memStore id) ''f'' demo_corrupt = (r, t)" by fastforce
  ultimately show ?thesis
    using readsD [OF bit_store.reads_Load [OF mem.bit_store_axioms], of demo id "''f''" demo_corrupt r t]
    by auto
qed

theorem load_panics_only_on_count_witness:
  "\<exists>c. Atoi (field (vhash (mem_view demo_corrupt) (metaKey ''f'')) ''stage_count'') = Ok c
    \<and> (c < 0 \<or> 2 ^ 48 < 40 * c)"
proof -
  obtain msg t where "Load demo (memStore id) ''f'' demo_corrupt = (Panic msg, t)"
    using demo_corrupt_panics by blast
  then show ?thesis
    by (rule load_panics_only_on_count [OF mem.bit_store_axioms])
      (auto simp: demo_def demo_parse_def bindR_Panic_iff)
qed

section \<open>Telemetry\<close>

text \<open>
  C30 Every operation is recorded once: a service request ends one span with the error it answers and
  counts one operation, marked as failed exactly when it answers an error; an \<open>Add\<close> that answers
  without error, and nothing else, counts one added item. (A panic counts as no error: the deferred
  \<open>finishSpan\<close> sees the error that was assigned before it, none.)
\<close>

theorem operations_are_recorded:
  assumes "svc_step P B q (tm, s) = (a, (tm', t))" "request_op q = Some op"
  shows "(\<exists>span. tl_spans tm' = tl_spans tm @ [(span, reply_error a)])
    \<and> tl_inst tm' = map_option
        (\<lambda>log. log @ added_events a @ [FilterOp op (reply_error a = None)]) (tl_inst tm)"
proof (cases q)
  case (CreateReq now name n p)
  have "silent (bindC (mapErrC (onStore (New P B now name n p))) (\<lambda>f.
     let st = Stats f in
     if ss_stages st = []
     then resC (Panic ''runtime error: index out of range [0] with length 0'')
     else returnC \<lparr>fi_Name = ss_name st, fi_Stages = ss_stage_count st,
       fi_M = st_m (hd (ss_stages st)), fi_K = st_k (hd (ss_stages st))\<rparr>))"
    unfolding Let_def by (intro emits_intros)
  from emits_traced [OF this] show ?thesis using assms
    by (auto simp: CreateReq Create_def added_events_def dest!: map_prod_id_dest)
next
  case (AddReq ord name item)
  have "emits (\<lambda>r. if r = Ok () then [ItemsAdded 1] else [])
    (bindC (mapErrC (onStore (Load P B name))) (\<lambda>f.
     bindC (mapErrC (onStore (withFilter f (Add P B ord item)))) (\<lambda>_.
     (\<lambda>(tm, s). (Ok (), (tm\<lparr>tl_inst := RecordItemsAdded 1 (tl_inst tm)\<rparr>, s))))))"
    by (intro emits_bindC emits_item emits_intros) simp_all
  from emits_traced [OF this] show ?thesis using assms
    by (auto simp: AddReq SvcAdd_def added_events_def dest!: map_prod_id_dest)
next
  case (ExistsReq ords name item)
  have "silent (bindC (mapErrC (onStore (Load P B name))) (\<lambda>f.
     mapErrC (onStore (Exists P B ords item f))))"
    by (intro emits_intros)
  from emits_traced [OF this] show ?thesis using assms
    by (auto simp: ExistsReq SvcExists_def added_events_def dest!: map_prod_id_dest)
next
  case (StatsReq name)
  have "silent (bindC (mapErrC (onStore (Load P B name))) (\<lambda>f. returnC (toStats (Stats f))))"
    by (intro emits_intros)
  from emits_traced [OF this] show ?thesis using assms
    by (auto simp: StatsReq SvcStats_def added_events_def dest!: map_prod_id_dest)
next
  case (DeleteReq name)
  have "silent (bindC (mapErrC (onStore (Load P B name))) (\<lambda>f. mapErrC (onStore (Drop B f))))"
    by (intro emits_intros)
  from emits_traced [OF this] show ?thesis using assms
    by (auto simp: DeleteReq Delete_def added_events_def dest!: map_prod_id_dest)
qed (use assms in simp)

theorem operations_are_recorded_witness:
  "\<exists>a. tl_inst (fst (snd (svc_step demo (memStore id) demo_create_req (demo_telemetry, NewMemStore))))
     = Some (added_events a @ [FilterOp ''create'' (reply_error a = None)])"
  using operations_are_recorded [of demo "memStore id" demo_create_req demo_telemetry NewMemStore
      "fst (svc_step demo (memStore id) demo_create_req (demo_telemetry, NewMemStore))"
      "fst (snd (svc_step demo (memStore id) demo_create_req (demo_telemetry, NewMemStore)))"
      "snd (snd (svc_step demo (memStore id) demo_create_req (demo_telemetry, NewMemStore)))" "''create''"]
  by (auto simp: demo_telemetry_def simp del: svc_step.simps)

section \<open>Concurrent growth\<close>

text \<open>
  C14 A lost race is harmless. Two handles on the same full filter both try to append the next stage:
  the second call finds the count moved by one, writes nothing, and ends with exactly the stage the
  first one stored, although it treats the answer as a success of its own.
\<close>

theorem lost_race_agrees:
  assumes "reliable_store B view" "valid_name name" "filter_sim P (view s) name (Some F)"
    and "grows_as name f F" "grows_as name g F" "length (af_stages F) < 2 ^ 42"
    and "appendNewStage P B (f, s) = (Ok (), (f', t))" "appendNewStage P B (g, t) = (r, (g', u))"
  shows "r = Ok () \<and> view u = view t \<and> (\<exists>st. f_stages f' = f_stages f @ [st]
    \<and> f_stages g' = f_stages g @ [st]
    \<and> mapToStage (vhash (view u) (stageMetaKey name (st_index st))) (st_index st) = Ok st)"
proof -
  let ?n = "length (af_stages F)"
  have grow: "fst (spec_grow P F) = Ok ()" "filter_sim P (view t) name (Some (snd (spec_grow P F)))"
    using reliable_store.appendNewStage_sim [OF assms(1,7,4,3,2)] assms(6) by auto
  then obtain st where st: "computeStage P (af_n F) (af_p F) DefaultR DefaultS (int ?n) = Ok st"
    by (auto simp: spec_grow_def Let_def split: res.splits)
  have cs: "computeStage P (f_n h) (f_p h) (f_r h) (f_s h) (int (length (f_stages h))) = Ok st"
    "f_name h = name" "length (f_stages h) = ?n" if "grows_as name h F" for h
    using that st by (simp_all add: grows_as_def)
  define G where "G = F\<lparr>af_stages := af_stages F @ [empty_stage st]\<rparr>"
  have G: "filter_sim P (view t) name (Some G)"
    using grow(2) st by (simp add: spec_grow_def G_def)
  have f': "f' = f\<lparr>f_stages := f_stages f @ [st]\<rparr>"
    using reliable_store.appendNewStage_first [OF assms(1,7) cs(1) [OF assms(4)]] cs(2,3) [OF assms(4)]
      assms(2,3,6) by simp
  have g': "view u = view t" "r = Ok ()" "g' = g\<lparr>f_stages := f_stages g @ [st]\<rparr>"
    using reliable_store.appendNewStage_late [OF assms(1,8) cs(1) [OF assms(5)]] G
      cs(2,3) [OF assms(5)] assms(6) by (simp_all add: G_def)
  have "slot P (view t) name (int ?n) (Some (empty_stage st))"
    using filter_sim_slot [OF G, of ?n] by (simp add: G_def)
  then have "mapToStage (vhash (view u) (stageMetaKey name (st_index st))) (st_index st) = Ok st"
    using computeStage_Ok [OF st] g'(1) by (simp add: slot_def)
  then show ?thesis using f' g' by simp
qed

lemma demo_stage1_computed: "computeStage demo 1 demo_p DefaultR DefaultS 1
    = Ok \<lparr>st_index = 1, st_m = 30, st_k = 10, st_capacity = 2, st_fill = 0\<rparr>"
  by code_simp

lemma demo_handle_sel: "f_name demo_handle = ''f''" "f_n demo_handle = 1" "f_p demo_handle = demo_p"
    "f_r demo_handle = DefaultR" "f_s demo_handle = DefaultS" "length (f_stages demo_handle) = 1"
  by (simp_all add: demo_handle_def concrete_filter_def demo_F_def demo_filter_def)

definition demo_grown :: "unit res \<times> (bloom \<times> memstore)" where
  "demo_grown = appendNewStage demo (memStore id) (demo_handle, demo_created)"

lemma demo_grown_ok: "fst demo_grown = Ok ()"
  using reliable_store.appendNewStage_first [OF mem.reliable_store_axioms, of demo id demo_handle
      demo_created "fst demo_grown" "fst (snd demo_grown)" "snd (snd demo_grown)" _ demo_F]
    demo_F_ok demo_requests_ok(3) demo_stage1_computed
  by (simp add: demo_handle_sel demo_grown_def demo_F_def demo_filter_def)

theorem lost_race_agrees_witness:
  "\<exists>st. f_stages (fst (snd demo_grown)) = f_stages demo_handle @ [st]
    \<and> f_stages (fst (snd (appendNewStage demo (memStore id) (demo_handle, snd (snd demo_grown)))))
        = f_stages demo_handle @ [st]"
proof -
  have "grows_as ''f'' demo_handle demo_F"
    by (simp add: grows_as_def demo_handle_sel demo_F_def demo_filter_def)
  moreover have "appendNewStage demo (memStore id) (demo_handle, demo_created)
      = (Ok (), (fst (snd demo_grown), snd (snd demo_grown)))"
    using demo_grown_ok by (simp add: demo_grown_def prod_eq_iff)
  moreover have "length (af_stages demo_F) < 2 ^ 42" by (simp add: demo_F_def demo_filter_stages)
  moreover obtain r g' u where
    "appendNewStage demo (memStore id) (demo_handle, snd (snd demo_grown)) = (r, (g', u))"
    by (metis surj_pair)
  ultimately show ?thesis
    using lost_race_agrees [OF mem.reliable_store_axioms demo_requests_ok(3) demo_F_ok(2)] by fastforce
qed

text \<open>
  C15 A handle that was overtaken catches up: when others have appended at least two stages meanwhile,
  trying to append reloads, writes nothing, and leaves the handle with all stages the store has.
\<close>

theorem overtaken_handle_reloads:
  assumes "reliable_store B view" "valid_name (f_name g)" "float_text_exact P"
    and "filter_sim P (view s) (f_name g) (Some G)" "afilter_ok N G" "N \<le> 2 ^ 42"
    and "computeStage P (f_n g) (f_p g) (f_r g) (f_s g) (int (length (f_stages g))) = Ok st"
    and "length (f_stages g) + 2 \<le> length (af_stages G)"
    and "appendNewStage P B (g, s) = (r, (g', t))"
  shows "r = Ok () \<and> view t = view s \<and> f_stages g' = f_stages (concrete_filter (f_name g) G)"
proof -
  have "length (af_stages G) \<le> 2 ^ 42" using assms(5,6) by (simp add: afilter_ok_def)
  then obtain u where u: "view t = view s" "reload P B (g, u) = (r, (g', t))" "view u = view s"
    using reliable_store.appendNewStage_late [OF assms(1,9,7,4)] assms(8) by (auto split: if_splits)
  have load: "Load_view P (view u) (f_name g) = Ok (concrete_filter (f_name g) G)"
    using Load_view_filter [OF assms(4,2,6,3)] assms(5) u(3) by simp
  obtain r0 w where l: "Load P B (f_name g) u = (r0, w)" by fastforce
  have "r0 = Ok (concrete_filter (f_name g) G)"
    using readsD [OF bit_store.reads_Load [OF reliable_store.axioms [OF assms(1)]] l] load by auto
  then show ?thesis using u l by (auto simp: reload_def)
qed

definition demo_stage2 :: "bytes list \<Rightarrow> astage" where
  "demo_stage2 xs = \<lparr>as_m = 60, as_k = 10, as_cap = 4, as_items = xs\<rparr>"

lemma demo_add_c: "spec_add demo item_c (demo_filter [demo_stage0 [item_a], demo_stage1 [item_b]]) =
    (Ok (), demo_filter [demo_stage0 [item_a], demo_stage1 [item_b, item_c], demo_stage2 []])"
  by code_simp

definition demo_three :: "request list" where
  "demo_three = [demo_create_req, AddReq id ''f'' item_a, AddReq id ''f'' item_b, AddReq id ''f'' item_c]"

definition demo_G :: afilter where
  "demo_G = demo_filter [demo_stage0 [item_a], demo_stage1 [item_b, item_c], demo_stage2 []]"

definition demo_full :: memstore where
  "demo_full = snd (snd (demo_run demo_three))"

lemma demo_full_sim: "sim demo 4 (mem_view demo_full) [''f'' \<mapsto> demo_G]"
proof -
  have "\<forall>q \<in> set demo_three. valid_request q \<and> typed_request q" and n: "length demo_three = 4"
    by (simp_all add: demo_three_def valid_request_def valid_name_def demo_p_ok)
  then obtain b tm t where t: "demo_run demo_three = (fst (demo_run demo_three), (tm, t))"
    and b: "spec_run demo demo_three (\<lambda>_. None) (fst (demo_run demo_three)) b"
    and sim: "sim demo 4 (mem_view t) b"
    using demo_run_spec [of demo_three] unfolding n by force
  have "t = demo_full" using t unfolding demo_full_def by (metis snd_conv)
  moreover have "b = [''f'' \<mapsto> demo_G]"
    using b by (auto simp: demo_three_def demo_create demo_add_a demo_add_b demo_add_c demo_G_def
        simp del: spec_reply.simps)
  ultimately show ?thesis using sim by simp
qed

theorem overtaken_handle_reloads_witness:
  "f_stages (fst (snd (appendNewStage demo (memStore id) (demo_handle, demo_full))))
     = f_stages (concrete_filter ''f'' demo_G)"
proof -
  have G: "filter_sim demo (mem_view demo_full) ''f'' (Some demo_G)" "afilter_ok 4 demo_G"
    using sim_filter [OF demo_full_sim demo_requests_ok(3)] demo_full_sim
    unfolding sim_def by (simp, metis fun_upd_same)
  obtain r g' t where "appendNewStage demo (memStore id) (demo_handle, demo_full) = (r, (g', t))"
    by (metis surj_pair)
  then show ?thesis
    using overtaken_handle_reloads [OF mem.reliable_store_axioms, of demo_handle demo demo_full demo_G 4]
      G demo_requests_ok(3) demo_text_exact demo_stage1_computed
    by (fastforce simp: demo_handle_sel demo_G_def demo_filter_def)
qed

section \<open>Sizing and failed growth\<close>

text \<open>
  The overflow guard of \<open>StageCapacity\<close> misses one value: \<open>float64(math.MaxUint64)\<close> is \<open>2^64\<close>, so a
  capacity of exactly \<open>2^64\<close> passes it, and the conversion to \<open>uint64\<close> gives whatever the
  implementation gives. The smallest such call is the second stage of a filter for \<open>2^63\<close> items.
\<close>

lemma capacity_guard_misses_overflow:
  assumes "pow_documented P"
  shows "StageCapacity P (2 ^ 63) 1 [DefaultS] = Ok (u64_big P (Fin (2 ^ 52) 12))"
proof -
  have pow: "Pow P DefaultS 1 = DefaultS" using assms by (simp add: pow_documented_def)
  have fl: "f64_of_int 1 = 1" "IsNaN DefaultS \<or> DefaultS \<le> 1 \<longleftrightarrow> False" "(2 ^ 63 :: u64) \<noteq> 0"
    "f64_of_u64 (2 ^ 63) * DefaultS = Fin (2 ^ 52) 12" "MaxUint64f < Fin (2 ^ 52) 12 \<longleftrightarrow> False"
    "trunc64 (Fin (2 ^ 52) 12) = 2 ^ 64"
    by code_simp+
  have "u64_of_f64 big (Fin (2 ^ 52) 12) = big (Fin (2 ^ 52) 12)" for big
    unfolding u64_of_f64_def fl(6) Let_def by simp
  then show ?thesis
    unfolding StageCapacity_def optionalRatio.simps bindR_simps fl pow Let_def by simp
qed

text \<open>
  C16 An \<open>Add\<close> that fails may have added: on a store that does not fail the only error of an \<open>Add\<close> through
  a loaded filter comes from growing it, after the item was stored; the caller gets the error, and
  the item is a member from then on.
\<close>

theorem failed_add_has_added:
  assumes "reliable_store B view" "valid_name name" "afilter_ok N F" "N < 2 ^ 42" "float_text_exact P"
    and "filter_sim P (view s) name (Some F)"
    and "Add P B ord item (concrete_filter name F, s) = (Err e, (f', t))"
    and "Load P B name t = (r, t1)" "Exists P B ords item g t1 = (b, t2)" "r = Ok g"
  shows "b = Ok True \<and> (\<exists>p e'. e = Errorf p e')"
proof -
  have law: "Err e = fst (spec_add P item F)" "filter_sim P (view t) name (Some (snd (spec_add P item F)))"
    using reliable_store.Add_sim [OF assms(1,7,6,2,3)] assms(4) by auto
  let ?cur = "last (af_stages F)"
  have "item_positions P ?cur item \<noteq> Err e'" for e'
    by (simp add: item_positions_def split: prod.split)
  then obtain ps where ps: "item_positions P ?cur item = Ok ps"
    using law(1) by (cases "item_positions P ?cur item") (auto simp: spec_add_def Let_def)
  define cur' where "cur' = ?cur\<lparr>as_items := as_items ?cur @ [item]\<rparr>"
  define F' where "F' = F\<lparr>af_stages := butlast (af_stages F) @ [cur']\<rparr>"
  have add: "spec_add P item F = (if as_cap ?cur \<le> stage_fill cur' then spec_grow P F' else (Ok (), F'))"
    using ps by (simp add: spec_add_def Let_def cur'_def F'_def)
  then have grow: "fst (spec_grow P F') = Err e" "snd (spec_add P item F) = snd (spec_grow P F')"
    using law(1) by (auto split: if_splits)
  then have same: "snd (spec_grow P F') = F'" and wrapped: "\<exists>p e'. e = Errorf p e'"
    by (auto simp: spec_grow_def Let_def split: res.splits)
  have ok: "afilter_ok (Suc N) F'"
    using spec_add_ok [OF assms(3), of P item] grow(2) same by simp
  have fs: "filter_sim P (view t) name (Some F')" using law(2) grow(2) same by simp
  have g: "view t1 = view t" "g = concrete_filter name F'"
    using reliable_store.axioms [OF assms(1), THEN bit_store.reads_Load, THEN readsD, OF assms(8)]
      Load_view_filter [OF fs assms(2) _ assms(5), of "Suc N"] ok assms(4,10) by auto
  have "set ps \<subseteq> stage_bits P cur'" "item_positions P cur' item = Ok ps"
    using ps by (auto simp: cur'_def stage_bits_snoc)
  then have "spec_exists P item (rev (af_stages F')) = Ok True" by (simp add: F'_def)
  then have "b = Ok True"
    using readsD [OF bit_store.reads_Exists [OF reliable_store.axioms [OF assms(1)]] assms(9)]
      Exists_view_sim [OF fs] g by simp
  then show ?thesis using wrapped by simp
qed


text \<open>A platform on which no second stage can be computed.\<close>

definition demo_stuck :: platform where
  "demo_stuck = demo\<lparr>Pow := \<lambda>x y. if y = 0 then 1 else 0\<rparr>"

lemma demo_stuck_same:
  "filterMeta demo_stuck = filterMeta demo" "item_positions demo_stuck = item_positions demo"
  "float_text_exact demo_stuck = float_text_exact demo"
  by (simp_all add: fun_eq_iff filterMeta_def item_positions_def hashParts_def demo_stuck_def
      float_text_exact_def)

lemma demo_stuck_sim: "filter_sim demo_stuck v name F = filter_sim demo v name F"
proof -
  have "stage_bits demo_stuck = stage_bits demo"
    by (simp add: fun_eq_iff stage_bits_def demo_stuck_same)
  then have "slot demo_stuck = slot demo" by (simp add: fun_eq_iff slot_def split: option.split)
  then show ?thesis by (simp add: filter_sim_def meta_sim_def demo_stuck_same split: option.split)
qed

lemma demo_stuck_add: "fst (spec_add demo_stuck item_a demo_F)
    = Err (Errorf ''bloom: compute stage 1: '' ErrInvalidN)"
  by code_simp

definition demo_failed :: "unit res \<times> (bloom \<times> memstore)" where
  "demo_failed = Add demo_stuck (memStore id) id item_a (concrete_filter ''f'' demo_F, demo_created)"

lemma demo_failed_ok: "demo_failed = (Err (Errorf ''bloom: compute stage 1: '' ErrInvalidN), snd demo_failed)"
  "filter_sim demo_stuck (mem_view (snd (snd demo_failed))) ''f'' (Some (snd (spec_add demo_stuck item_a demo_F)))"
  using reliable_store.Add_sim [OF mem.reliable_store_axioms, of demo_stuck id id item_a "''f''" demo_F
      demo_created "fst demo_failed" "fst (snd demo_failed)" "snd (snd demo_failed)" 1]
    demo_F_ok demo_requests_ok(3) demo_stuck_add
  by (simp_all add: demo_failed_def demo_stuck_sim prod_eq_iff)

theorem failed_add_has_added_witness:
  "\<exists>g t1. Load demo_stuck (memStore id) ''f'' (snd (snd demo_failed)) = (Ok g, t1)
     \<and> fst (Exists demo_stuck (memStore id) (\<lambda>_. id) item_a g t1) = Ok True"
proof -
  have exact: "float_text_exact demo_stuck" using demo_text_exact by (simp add: demo_stuck_same)
  have "afilter_ok 2 (snd (spec_add demo_stuck item_a demo_F))"
    using spec_add_ok [OF demo_F_ok(1)] by (simp add: numeral_2_eq_2)
  then have load: "Load_view demo_stuck (mem_view (snd (snd demo_failed))) ''f''
      = Ok (concrete_filter ''f'' (snd (spec_add demo_stuck item_a demo_F)))"
    using Load_view_filter [OF demo_failed_ok(2) demo_requests_ok(3) _ exact, of 2] by simp
  obtain r t1 where run: "Load demo_stuck (memStore id) ''f'' (snd (snd demo_failed)) = (r, t1)" by fastforce
  then obtain g where g: "r = Ok g"
    using readsD [OF bit_store.reads_Load [OF mem.bit_store_axioms] run] load by auto
  obtain b t2 where ex: "Exists demo_stuck (memStore id) (\<lambda>_. id) item_a g t1 = (b, t2)" by fastforce
  have "Add demo_stuck (memStore id) id item_a (concrete_filter ''f'' demo_F, demo_created)
      = (Err (Errorf ''bloom: compute stage 1: '' ErrInvalidN), (fst (snd demo_failed), snd (snd demo_failed)))"
    using demo_failed_ok(1) by (simp add: demo_failed_def prod_eq_iff)
  from failed_add_has_added [OF mem.reliable_store_axioms demo_requests_ok(3) demo_F_ok(1) _ exact
      demo_F_ok(2) [folded demo_stuck_sim] this run ex g] run g ex
  show ?thesis by auto
qed

end
