(* ===== verification/Config.thy ===== *)
theory Config
  imports Strconv
begin

text \<open>
  \<open>internal/core/config\<close> and the level selection of \<open>internal/core/logger\<close>: the environment is a
  function from variables to values (an unset variable reads as the empty string);
  \<open>time.ParseDuration\<close> is an argument.
\<close>

record Config =
  cfg_Port :: string
  cfg_ValkeyAddr :: string
  cfg_LogLevel :: string
  cfg_RequestTimeout :: i64
  cfg_MaxBodyBytes :: i64
  cfg_ShutdownTimeout :: i64
  cfg_ServiceName :: string
  cfg_ObsExporter :: string
  cfg_ObsMaxFilterGauges :: int

definition envStr :: "(string \<Rightarrow> string) \<Rightarrow> string \<Rightarrow> string \<Rightarrow> string" where
  "envStr getenv key def = (if getenv key \<noteq> [] then getenv key else def)"

definition envInt64 :: "(string \<Rightarrow> string) \<Rightarrow> string \<Rightarrow> i64 \<Rightarrow> i64" where
  "envInt64 getenv key def = (if getenv key = [] then def
     else case ParseInt (getenv key) of Ok n \<Rightarrow> n | _ \<Rightarrow> def)"

definition envDuration :: "(string \<Rightarrow> i64 res) \<Rightarrow> (string \<Rightarrow> string) \<Rightarrow> string \<Rightarrow> i64 \<Rightarrow> i64" where
  "envDuration ParseDuration getenv key def = (if getenv key = [] then def
     else case ParseDuration (getenv key) of Ok d \<Rightarrow> d | _ \<Rightarrow> def)"

definition Second :: i64 where
  "Second = 1000000000"

definition LoadConfig :: "(string \<Rightarrow> i64 res) \<Rightarrow> (string \<Rightarrow> string) \<Rightarrow> Config" where
  "LoadConfig ParseDuration getenv =
    \<lparr>cfg_Port = envStr getenv ''PORT'' ''8080'',
     cfg_ValkeyAddr = envStr getenv ''VALKEY_ADDR'' ''localhost:6379'',
     cfg_LogLevel = envStr getenv ''LOG_LEVEL'' ''info'',
     cfg_RequestTimeout = envDuration ParseDuration getenv ''REQUEST_TIMEOUT'' (5 * Second),
     cfg_MaxBodyBytes = envInt64 getenv ''MAX_BODY_BYTES'' (push_bit 20 1),
     cfg_ShutdownTimeout = envDuration ParseDuration getenv ''SHUTDOWN_TIMEOUT'' (10 * Second),
     cfg_ServiceName = envStr getenv ''OTEL_SERVICE_NAME'' ''toybloom'',
     cfg_ObsExporter = envStr getenv ''OBS_EXPORTER'' ''stdout'',
     cfg_ObsMaxFilterGauges = sint (envInt64 getenv ''OBS_MAX_FILTER_GAUGES'' 100)\<rparr>"

text \<open>The levels of \<open>log/slog\<close> with their numbers, which order them.\<close>

datatype level = LevelDebug | LevelInfo | LevelWarn | LevelError

primrec level_value :: "level \<Rightarrow> int" where
  "level_value LevelDebug = - 4"
| "level_value LevelInfo = 0"
| "level_value LevelWarn = 4"
| "level_value LevelError = 8"

instantiation level :: linorder
begin

definition less_eq_level :: "level \<Rightarrow> level \<Rightarrow> bool" where
  "less_eq_level l m \<longleftrightarrow> level_value l \<le> level_value m"

definition less_level :: "level \<Rightarrow> level \<Rightarrow> bool" where
  "less_level l m \<longleftrightarrow> level_value l < level_value m"

instance
proof
  show "l = m" if "l \<le> m" "m \<le> l" for l m :: level
    using that by (cases l; cases m) (simp_all add: less_eq_level_def)
qed (auto simp: less_eq_level_def less_level_def)

end

lemma level_le_Error [simp]: "l \<le> LevelError"
  by (cases l) (simp_all add: less_eq_level_def)

definition lower_char :: "char \<Rightarrow> char" where
  "lower_char c = (let n = (of_char c :: nat) in if 65 \<le> n \<and> n \<le> 90 then char_of (n + 32) else c)"

text \<open>
  No letter outside ASCII lowers to a letter of the three names, so lowering the ASCII letters
  decides as \<open>strings.ToLower\<close> does.
\<close>

definition logger_level :: "string \<Rightarrow> level" where
  "logger_level s = (let l = map lower_char s in
     if l = ''debug'' then LevelDebug else if l = ''warn'' then LevelWarn
     else if l = ''error'' then LevelError else LevelInfo)"

section \<open>Property\<close>

text \<open>
  C39 Configuration never fails: an integer variable set to the decimal text of an \<open>int64\<close> is read back
  exactly, and without any variable set every field has its documented default.
\<close>

theorem config_reads_back:
  "(getenv ''MAX_BODY_BYTES'' = FormatInt n \<longrightarrow> cfg_MaxBodyBytes (LoadConfig pd getenv) = n)
   \<and> (getenv ''OBS_MAX_FILTER_GAUGES'' = FormatInt n \<longrightarrow>
        cfg_ObsMaxFilterGauges (LoadConfig pd getenv) = sint n)
   \<and> LoadConfig pd (\<lambda>_. []) = \<lparr>cfg_Port = ''8080'', cfg_ValkeyAddr = ''localhost:6379'',
        cfg_LogLevel = ''info'', cfg_RequestTimeout = 5 * Second, cfg_MaxBodyBytes = 1048576,
        cfg_ShutdownTimeout = 10 * Second, cfg_ServiceName = ''toybloom'', cfg_ObsExporter = ''stdout'',
        cfg_ObsMaxFilterGauges = 100\<rparr>"
proof -
  have ne: "FormatInt n \<noteq> []" by (simp add: FormatInt_def Itoa_def)
  show ?thesis
    by (auto simp: LoadConfig_def envInt64_def envStr_def envDuration_def ne push_bit_eq_mult)
qed

theorem config_reads_back_witness:
  "cfg_ObsMaxFilterGauges (LoadConfig (\<lambda>_. Ok 7) (\<lambda>k. if k = ''OBS_MAX_FILTER_GAUGES'' then FormatInt (- 3) else []))
     = - 3"
proof -
  have "sint (- 3 :: i64) = - 3" by simp
  then show ?thesis
    using config_reads_back [of "\<lambda>k. if k = ''OBS_MAX_FILTER_GAUGES'' then FormatInt (- 3) else []" "- 3" "\<lambda>_. Ok 7"]
    by simp
qed

end
