(* ===== verification/Api.thy ===== *)
theory Api
  imports Service Config
begin

text \<open>
  \<open>internal/core/response\<close> and \<open>internal/api\<close>: the envelope, the handlers, the generated parameter
  wrappers, and the middleware chain of \<open>NewRouter\<close> around them. A handler is a call on the
  telemetry and the store that returns the response it wrote. What gin, the OpenAPI validator and
  the uuid package do with the request is the argument \<open>external\<close>, with the levels at which the logger
  writes (\<open>ex_enabled\<close>); which route matched is part of the request. A path that only
  differs by a slash at its end from one of a route is redirected by gin before any of this runs, and the Swagger
  UI below \<open>/docs/\<close> is a handler of a third party; both are left out. \<open>Timeout\<close>, which only makes operations of
  the store fail, and the levels of the logger of the process are put around \<open>serve\<close> in theory \<^theory_text>\<open>Deadline\<close>.
\<close>

section \<open>Envelope\<close>

record ErrorDetail =
  ed_Code :: string
  ed_Message :: string
  ed_Field :: string

record gen_FilterInfo =
  gfi_K :: int
  gfi_M :: int
  gfi_Name :: string
  gfi_Stages :: int

record gen_StageInfo =
  gsi_Capacity :: int
  gsi_Fill :: int
  gsi_Index :: int
  gsi_K :: int
  gsi_M :: int

record gen_FilterStats =
  gfs_N :: int
  gfs_Name :: string
  gfs_P :: f64
  gfs_R :: f64
  gfs_S :: f64
  gfs_StageCount :: int
  gfs_Stages :: "gen_StageInfo list"

datatype payload =
    FilterInfoData gen_FilterInfo | FilterStatsData gen_FilterStats
  | AddedData bool | ExistsData bool | StatusData string

record Envelope =
  en_Success :: bool
  en_Message :: string
  en_Data :: "payload option"
  en_Errors :: "ErrorDetail list"
  en_CorrelationID :: string

definition NewSuccess :: "string \<Rightarrow> string \<Rightarrow> payload \<Rightarrow> Envelope" where
  "NewSuccess correlationID message data = \<lparr>en_Success = True, en_Message = message,
     en_Data = Some data, en_Errors = [], en_CorrelationID = correlationID\<rparr>"

definition NewError :: "string \<Rightarrow> string \<Rightarrow> ErrorDetail list \<Rightarrow> Envelope" where
  "NewError correlationID message errs = \<lparr>en_Success = False, en_Message = message,
     en_Data = None, en_Errors = errs, en_CorrelationID = correlationID\<rparr>"

datatype body = NoBody | JsonBody Envelope | RawBody string string

record response =
  rp_Status :: int
  rp_Body :: body

text \<open>The values the generated code takes for valid: \<open>success\<close> of both envelopes, and the codes of errors. The
  envelopes of single operations have types of their own for \<open>success\<close>.\<close>

definition EnvelopeSuccess_Valid :: "bool \<Rightarrow> bool" where
  "EnvelopeSuccess_Valid e = (if e = True then True else False)"

definition ErrorEnvelopeSuccess_Valid :: "bool \<Rightarrow> bool" where
  "ErrorEnvelopeSuccess_Valid e = (if e = False then True else False)"

definition CreateFilter201JSONResponseBodySuccess_Valid :: "bool \<Rightarrow> bool" where
  "CreateFilter201JSONResponseBodySuccess_Valid e = (if e = True then True else False)"

definition GetFilter200JSONResponseBodySuccess_Valid :: "bool \<Rightarrow> bool" where
  "GetFilter200JSONResponseBodySuccess_Valid e = (if e = True then True else False)"

definition AddItem200JSONResponseBodySuccess_Valid :: "bool \<Rightarrow> bool" where
  "AddItem200JSONResponseBodySuccess_Valid e = (if e = True then True else False)"

definition CheckItem200JSONResponseBodySuccess_Valid :: "bool \<Rightarrow> bool" where
  "CheckItem200JSONResponseBodySuccess_Valid e = (if e = True then True else False)"

definition ErrorDetailCode_Valid :: "string \<Rightarrow> bool" where
  "ErrorDetailCode_Valid e =
    (if e = ''ALREADY_EXISTS'' then True
     else if e = ''INTERNAL'' then True
     else if e = ''INVALID_ARGUMENT'' then True
     else if e = ''NOT_FOUND'' then True
     else if e = ''NOT_READY'' then True
     else False)"

section \<open>Requests\<close>

record CreateFilterRequest =
  cf_N :: i64
  cf_Name :: string
  cf_P :: f64

record AddItemRequest =
  ai_Value :: string

datatype route =
    Healthz | Readyz | OpenapiYaml | Docs
  | PostFilters | DeleteFilterName string | GetFilterName string
  | PostItems string | GetItem string string | Unmatched

text \<open>A body: the bytes that can be read, and the error that ends them when it is not the end of the body.\<close>

record reader =
  rd_data :: string
  rd_err :: "error option"

record http_req =
  hr_method :: string
  hr_route :: route
  hr_trace :: "string option"
  hr_correlation :: "string list"
  hr_body :: reader

record external =
  ex_uuid :: string
  ex_now :: string
  ex_seconds :: f64
  ex_latency_ms :: int
  ex_bindCreate :: "reader \<Rightarrow> CreateFilterRequest res"
  ex_bindAdd :: "reader \<Rightarrow> AddItemRequest res"
  ex_bindParam :: "string \<Rightarrow> string res"
  ex_bindHeader :: "string \<Rightarrow> string res"
  ex_validate :: "http_req \<Rightarrow> (int \<times> string) option"
  ex_quote :: "string \<Rightarrow> string"
  ex_spec :: string
  ex_enabled :: "level \<Rightarrow> bool"

fun FullPath :: "route \<Rightarrow> string" where
  "FullPath Healthz = ''/healthz''"
| "FullPath Readyz = ''/readyz''"
| "FullPath OpenapiYaml = ''/openapi.yaml''"
| "FullPath Docs = ''/docs''"
| "FullPath PostFilters = ''/v1/filters''"
| "FullPath (DeleteFilterName name) = ''/v1/filters/:name''"
| "FullPath (GetFilterName name) = ''/v1/filters/:name''"
| "FullPath (PostItems name) = ''/v1/filters/:name/items''"
| "FullPath (GetItem name v) = ''/v1/filters/:name/items/:value''"
| "FullPath Unmatched = []"

text \<open>\<open>err.Error()\<close>\<close>

fun error_text :: "(string \<Rightarrow> string) \<Rightarrow> error \<Rightarrow> string" where
  "error_text quote (Errorf p e) = p @ error_text quote e"
| "error_text quote (ErrorText s) = s"
| "error_text quote (NumErrSyntax fn s) =
     ''strconv.'' @ fn @ '': parsing '' @ quote s @ '': invalid syntax''"
| "error_text quote (NumErrRange fn s) =
     ''strconv.'' @ fn @ '': parsing '' @ quote s @ '': value out of range''"
| "error_text quote ErrEmptyName = ''bloom: filter name must not be empty''"
| "error_text quote ErrFilterExists = ''bloom: filter already exists''"
| "error_text quote ErrNotFound = ''bloom: filter not found''"
| "error_text quote ErrInvalidN = ''bloom: n must be greater than 0''"
| "error_text quote ErrInvalidP = ''bloom: p must be in the open interval (0, 1)''"
| "error_text quote ErrInvalidStage = ''bloom: stage index must be non-negative''"
| "error_text quote ErrSizeOverflow = ''bloom: computed size exceeds uint64 range''"
| "error_text quote ErrInvalidRatio = ''bloom: invalid tightening/growth ratio''"
| "error_text quote ErrTooManyArgs = ''bloom: at most one optional ratio may be provided''"
| "error_text quote ServiceErrInvalidArgument = ''service: invalid argument''"
| "error_text quote ServiceErrNotFound = ''service: filter not found''"
| "error_text quote ServiceErrAlreadyExists = ''service: filter already exists''"

section \<open>Handlers\<close>

definition writeSuccess :: "string \<Rightarrow> int \<Rightarrow> string \<Rightarrow> payload \<Rightarrow> response" where
  "writeSuccess cid status message data =
     \<lparr>rp_Status = status, rp_Body = JsonBody (NewSuccess cid message data)\<rparr>"

definition writeError :: "string \<Rightarrow> int \<Rightarrow> string \<Rightarrow> string \<Rightarrow> response" where
  "writeError cid status code msg = \<lparr>rp_Status = status, rp_Body = JsonBody (NewError cid msg
     [\<lparr>ed_Code = code, ed_Message = msg, ed_Field = []\<rparr>])\<rparr>"

definition errorToHTTP :: "error \<Rightarrow> int \<times> string" where
  "errorToHTTP err =
    (if errors_is err ServiceErrAlreadyExists then (409, ''ALREADY_EXISTS'')
     else if errors_is err ServiceErrNotFound then (404, ''NOT_FOUND'')
     else if errors_is err ServiceErrInvalidArgument then (400, ''INVALID_ARGUMENT'')
     else (500, ''INTERNAL''))"

text \<open>
  The logger in the context of a request is the one \<open>RequestLogger\<close> put there, which adds the correlation
  id to every line. Its handler drops the lines of levels that are not enabled.
\<close>

definition write_line :: "external \<Rightarrow> level \<Rightarrow> log_line \<Rightarrow> telemetry \<Rightarrow> telemetry" where
  "write_line E lvl l tm = (if ex_enabled E lvl then tm\<lparr>tl_log := tl_log tm @ [l]\<rparr> else tm)"

definition logC :: "external \<Rightarrow> level \<Rightarrow> log_line \<Rightarrow> (telemetry \<times> 's, unit) call" where
  "logC E lvl l = (\<lambda>(tm, s). (Ok (), (write_line E lvl l tm, s)))"

lemma write_line_sel [simp]:
  "tl_log (write_line E lvl l tm) = tl_log tm @ (if ex_enabled E lvl then [l] else [])"
  "tl_inst (write_line E lvl l tm) = tl_inst tm" "tl_spans (write_line E lvl l tm) = tl_spans tm"
  by (simp_all add: write_line_def)

definition mapError :: "external \<Rightarrow> string \<Rightarrow> error \<Rightarrow> (telemetry \<times> 's, response) call" where
  "mapError E cid err = (case errorToHTTP err of (status, code) \<Rightarrow>
     if status = 500
     then bindC (logC E LevelError (RequestFailed cid err)) (\<lambda>_. returnC (writeError cid status code ''internal server error''))
     else returnC (writeError cid status code (error_text (ex_quote E) err)))"

definition toFilterInfo :: "FilterInfo \<Rightarrow> gen_FilterInfo" where
  "toFilterInfo f = \<lparr>gfi_K = fi_K f, gfi_M = sint (fi_M f), gfi_Name = fi_Name f,
     gfi_Stages = fi_Stages f\<rparr>"

definition toFilterStats :: "FilterStats \<Rightarrow> gen_FilterStats" where
  "toFilterStats s = \<lparr>gfs_N = sint (fst_N s), gfs_Name = fst_Name s, gfs_P = fst_P s,
     gfs_R = fst_R s, gfs_S = fst_S s, gfs_StageCount = fst_StageCount s,
     gfs_Stages = map (\<lambda>st. \<lparr>gsi_Capacity = sint (si_Capacity st), gsi_Fill = sint (si_Fill st),
       gsi_Index = si_Index st, gsi_K = si_K st, gsi_M = sint (si_M st)\<rparr>) (fst_Stages s)\<rparr>"

text \<open>\<open>[]byte(s)\<close>\<close>

definition bytes_of :: "string \<Rightarrow> bytes" where
  "bytes_of s = map of_char s"

text \<open>The tail of every handler: an error is mapped, a result is written.\<close>

definition answer :: "external \<Rightarrow> string \<Rightarrow> (telemetry \<times> 's, 'a) call \<Rightarrow> ('a \<Rightarrow> response)
    \<Rightarrow> (telemetry \<times> 's, response) call" where
  "answer E cid c f = catchC (bindC c (\<lambda>x. returnC (f x))) (mapError E cid)"

text \<open>A request body that does not bind is answered without calling the service.\<close>

definition bound :: "external \<Rightarrow> string \<Rightarrow> 'a res \<Rightarrow> ('a \<Rightarrow> (telemetry \<times> 's, response) call)
    \<Rightarrow> (telemetry \<times> 's, response) call" where
  "bound E cid r f = (case r of Ok x \<Rightarrow> f x
     | Err e \<Rightarrow> returnC (writeError cid 400 ''INVALID_ARGUMENT'' (error_text (ex_quote E) e))
     | Panic p \<Rightarrow> resC (Panic p))"

definition CreateFilter :: "external \<Rightarrow> platform \<Rightarrow> 's bitstore \<Rightarrow> string \<Rightarrow> reader
    \<Rightarrow> (telemetry \<times> 's, response) call" where
  "CreateFilter E P B cid reqBody = bound E cid (ex_bindCreate E reqBody) (\<lambda>req.
     answer E cid (Create P B (ex_now E) (cf_Name req) (cf_N req) (cf_P req))
       (\<lambda>info. writeSuccess cid 201 ''filter created'' (FilterInfoData (toFilterInfo info))))"

definition AddItem :: "external \<Rightarrow> platform \<Rightarrow> 's bitstore \<Rightarrow> shard_order \<Rightarrow> string \<Rightarrow> string
    \<Rightarrow> reader \<Rightarrow> (telemetry \<times> 's, response) call" where
  "AddItem E P B ord cid name reqBody = bound E cid (ex_bindAdd E reqBody) (\<lambda>req.
     answer E cid (SvcAdd P B ord name (bytes_of (ai_Value req)))
       (\<lambda>_. writeSuccess cid 200 ''item added'' (AddedData True)))"

definition CheckItem :: "external \<Rightarrow> platform \<Rightarrow> 's bitstore \<Rightarrow> (nat \<Rightarrow> shard_order) \<Rightarrow> string
    \<Rightarrow> string \<Rightarrow> string \<Rightarrow> (telemetry \<times> 's, response) call" where
  "CheckItem E P B ords cid name v = answer E cid (SvcExists P B ords name (bytes_of v))
     (\<lambda>exists. writeSuccess cid 200 ''ok'' (ExistsData exists))"

definition GetFilter :: "external \<Rightarrow> platform \<Rightarrow> 's bitstore \<Rightarrow> string \<Rightarrow> string
    \<Rightarrow> (telemetry \<times> 's, response) call" where
  "GetFilter E P B cid name = answer E cid (SvcStats P B name)
     (\<lambda>stats. writeSuccess cid 200 ''ok'' (FilterStatsData (toFilterStats stats)))"

definition DeleteFilter :: "external \<Rightarrow> platform \<Rightarrow> 's bitstore \<Rightarrow> string \<Rightarrow> string
    \<Rightarrow> (telemetry \<times> 's, response) call" where
  "DeleteFilter E P B cid name = answer E cid (Delete P B name)
     (\<lambda>_. \<lparr>rp_Status = 204, rp_Body = NoBody\<rparr>)"

text \<open>\<open>health.go\<close>; the store's \<open>Ping\<close> is the argument \<open>ping\<close>.\<close>

definition HealthzHandler :: "string \<Rightarrow> (telemetry \<times> 's, response) call" where
  "HealthzHandler cid = returnC (writeSuccess cid 200 ''ok'' (StatusData ''alive''))"

definition ReadyzHandler :: "('s, unit) call \<Rightarrow> string \<Rightarrow> (telemetry \<times> 's, response) call" where
  "ReadyzHandler ping cid = catchC
     (bindC (onStore ping) (\<lambda>_. returnC (writeSuccess cid 200 ''ok'' (StatusData ''ready''))))
     (\<lambda>e. returnC (writeError cid 503 ''NOT_READY'' ''store unreachable''))"

section \<open>The generated wrappers\<close>

text \<open>The error handlers \<open>registerFilterRoutes\<close> gives to the validator and to the wrappers.\<close>

definition abortWith :: "string \<Rightarrow> int \<Rightarrow> string \<Rightarrow> response" where
  "abortWith cid statusCode message = \<lparr>rp_Status = statusCode, rp_Body = JsonBody
     (NewError cid message [\<lparr>ed_Code = ''INVALID_ARGUMENT'', ed_Message = message, ed_Field = []\<rparr>])\<rparr>"

definition bind_or_400 :: "external \<Rightarrow> string \<Rightarrow> string \<Rightarrow> string res
    \<Rightarrow> (string \<Rightarrow> (telemetry \<times> 's, response) call) \<Rightarrow> (telemetry \<times> 's, response) call" where
  "bind_or_400 E cid what r f = (case r of Ok x \<Rightarrow> f x
     | Err e \<Rightarrow> returnC (abortWith cid 400
         (''Invalid format for parameter '' @ what @ '': '' @ error_text (ex_quote E) e))
     | Panic p \<Rightarrow> resC (Panic p))"

text \<open>The optional header, given at most once, and then the middlewares: the validator.\<close>

definition correlation_param :: "external \<Rightarrow> string \<Rightarrow> http_req
    \<Rightarrow> (telemetry \<times> 's, response) call \<Rightarrow> (telemetry \<times> 's, response) call" where
  "correlation_param E cid rq next = (case hr_correlation rq of [] \<Rightarrow> next
     | [v] \<Rightarrow> bind_or_400 E cid ''X-Correlation-ID'' (ex_bindHeader E v) (\<lambda>_. next)
     | vs \<Rightarrow> returnC (abortWith cid 400
         (''Expected one value for X-Correlation-ID, got '' @ Itoa (int (length vs)))))"

definition validated :: "external \<Rightarrow> string \<Rightarrow> http_req
    \<Rightarrow> (telemetry \<times> 's, response) call \<Rightarrow> (telemetry \<times> 's, response) call" where
  "validated E cid rq next = (case ex_validate E rq of
     Some (statusCode, message) \<Rightarrow> returnC (abortWith cid statusCode message) | None \<Rightarrow> next)"

definition wrapCreateFilter :: "external \<Rightarrow> platform \<Rightarrow> 's bitstore \<Rightarrow> string \<Rightarrow> http_req
    \<Rightarrow> (telemetry \<times> 's, response) call" where
  "wrapCreateFilter E P B cid rq =
    correlation_param E cid rq (validated E cid rq (CreateFilter E P B cid (hr_body rq)))"

definition wrapDeleteFilter :: "external \<Rightarrow> platform \<Rightarrow> 's bitstore \<Rightarrow> string \<Rightarrow> string \<Rightarrow> http_req
    \<Rightarrow> (telemetry \<times> 's, response) call" where
  "wrapDeleteFilter E P B cid nameParam rq =
    bind_or_400 E cid ''name'' (ex_bindParam E nameParam) (\<lambda>name.
    correlation_param E cid rq (validated E cid rq (DeleteFilter E P B cid name)))"

definition wrapGetFilter :: "external \<Rightarrow> platform \<Rightarrow> 's bitstore \<Rightarrow> string \<Rightarrow> string \<Rightarrow> http_req
    \<Rightarrow> (telemetry \<times> 's, response) call" where
  "wrapGetFilter E P B cid nameParam rq =
    bind_or_400 E cid ''name'' (ex_bindParam E nameParam) (\<lambda>name.
    correlation_param E cid rq (validated E cid rq (GetFilter E P B cid name)))"

definition wrapAddItem :: "external \<Rightarrow> platform \<Rightarrow> 's bitstore \<Rightarrow> shard_order \<Rightarrow> string \<Rightarrow> string
    \<Rightarrow> http_req \<Rightarrow> (telemetry \<times> 's, response) call" where
  "wrapAddItem E P B ord cid nameParam rq =
    bind_or_400 E cid ''name'' (ex_bindParam E nameParam) (\<lambda>name.
    correlation_param E cid rq (validated E cid rq (AddItem E P B ord cid name (hr_body rq))))"

definition wrapCheckItem :: "external \<Rightarrow> platform \<Rightarrow> 's bitstore \<Rightarrow> (nat \<Rightarrow> shard_order) \<Rightarrow> string
    \<Rightarrow> string \<Rightarrow> string \<Rightarrow> http_req \<Rightarrow> (telemetry \<times> 's, response) call" where
  "wrapCheckItem E P B ords cid nameParam valueParam rq =
    bind_or_400 E cid ''name'' (ex_bindParam E nameParam) (\<lambda>name.
    bind_or_400 E cid ''value'' (ex_bindParam E valueParam) (\<lambda>v.
    correlation_param E cid rq (validated E cid rq (CheckItem E P B ords cid name v))))"

section \<open>Middleware and router\<close>

definition CorrelationID :: "external \<Rightarrow> http_req \<Rightarrow> string" where
  "CorrelationID E rq = (let header = (case hr_correlation rq of [] \<Rightarrow> [] | v # _ \<Rightarrow> v) in
     case hr_trace rq of Some t \<Rightarrow> t | None \<Rightarrow> if header = [] then ex_uuid E else header)"

text \<open>\<open>http.MaxBytesReader\<close>: one byte more than the limit is an error, and only the bytes up to it are read.\<close>

definition MaxBytesReader :: "reader \<Rightarrow> i64 \<Rightarrow> reader" where
  "MaxBytesReader b n = (let limit = nat (max 0 (sint n)) in
     if length (rd_data b) \<le> limit then b
     else \<lparr>rd_data = take limit (rd_data b), rd_err = Some (ErrorText ''http: request body too large'')\<rparr>)"

definition BodyLimit :: "i64 \<Rightarrow> http_req \<Rightarrow> http_req" where
  "BodyLimit limit rq = rq\<lparr>hr_body := MaxBytesReader (hr_body rq) limit\<rparr>"

lemma BodyLimit_sel [simp]:
  "hr_method (BodyLimit n rq) = hr_method rq" "hr_route (BodyLimit n rq) = hr_route rq"
  "hr_trace (BodyLimit n rq) = hr_trace rq" "hr_correlation (BodyLimit n rq) = hr_correlation rq"
  "hr_body (BodyLimit n rq) = MaxBytesReader (hr_body rq) n"
  by (simp_all add: BodyLimit_def)

lemma MaxBytesReader_length: "int (length (rd_data (MaxBytesReader b n))) \<le> max 0 (sint n)"
  by (simp add: MaxBytesReader_def Let_def min_def) linarith

lemma MaxBytesReader_err:
  assumes "max 0 (sint n) < int (length (rd_data b))"
  shows "rd_err (MaxBytesReader b n) \<noteq> None"
proof -
  have "\<not> length (rd_data b) \<le> nat (max 0 (sint n))" using assms by linarith
  then show ?thesis by (simp add: MaxBytesReader_def Let_def)
qed

definition recoveryHandler :: "external \<Rightarrow> string \<Rightarrow> (telemetry \<times> 's, response) call
    \<Rightarrow> telemetry \<times> 's \<Rightarrow> response \<times> (telemetry \<times> 's)" where
  "recoveryHandler E cid c s = (case c s of (Ok r, t) \<Rightarrow> (r, t)
     | (Panic p, t) \<Rightarrow> (writeError cid 500 ''INTERNAL'' ''internal server error'', snd (logC E LevelError (PanicRecovered cid p) t))
     | (Err e, t) \<Rightarrow> (writeError cid 500 ''INTERNAL'' ''internal server error'', t))"

definition RequestLogger :: "external \<Rightarrow> string \<Rightarrow> http_req \<Rightarrow> response \<times> (telemetry \<times> 's)
    \<Rightarrow> response \<times> (telemetry \<times> 's)" where
  "RequestLogger E cid rq out = (case out of (r, t) \<Rightarrow>
     (r, snd (logC E LevelInfo (RequestLine cid (hr_method rq) (FullPath (hr_route rq)) (rp_Status r) (ex_latency_ms E)) t)))"

definition HTTPMetrics :: "external \<Rightarrow> http_req \<Rightarrow> response \<times> (telemetry \<times> 's)
    \<Rightarrow> response \<times> (telemetry \<times> 's)" where
  "HTTPMetrics E rq out = (case out of (r, (tm, s)) \<Rightarrow>
     let route = (if FullPath (hr_route rq) = [] then ''unmatched'' else FullPath (hr_route rq))
     in (r, (tm\<lparr>tl_inst := RecordRequest route (hr_method rq) (rp_Status r) (ex_seconds E)
          (tl_inst tm)\<rparr>, s)))"

text \<open>\<open>docs.go\<close>: the raw document, and the redirection with the body that \<open>http.Redirect\<close> writes.\<close>

definition openapiDoc :: "external \<Rightarrow> (telemetry \<times> 's, response) call" where
  "openapiDoc E = returnC \<lparr>rp_Status = 200, rp_Body = RawBody ''application/yaml'' (ex_spec E)\<rparr>"

definition docsRedirect :: "(telemetry \<times> 's, response) call" where
  "docsRedirect = returnC \<lparr>rp_Status = 301, rp_Body = RawBody ''text/html; charset=utf-8''
     (''<a href='' @ [CHR 34] @ ''/docs/'' @ [CHR 34] @ ''>Moved Permanently</a>.'' @ [CHR 10, CHR 10])\<rparr>"

lemmas docs_defs [simp] = openapiDoc_def docsRedirect_def

text \<open>
  The documents (the Swagger UI below \<open>/docs/\<close> is third-party and left out), the routes of the API, and
  gin's own answer without a matching route.
\<close>

definition dispatch :: "external \<Rightarrow> platform \<Rightarrow> 's bitstore \<Rightarrow> ('s, unit) call \<Rightarrow> (nat \<Rightarrow> shard_order)
    \<Rightarrow> string \<Rightarrow> http_req \<Rightarrow> (telemetry \<times> 's, response) call" where
  "dispatch E P B ping ords cid rq = (case hr_route rq of
     Healthz \<Rightarrow> HealthzHandler cid
   | Readyz \<Rightarrow> ReadyzHandler ping cid
   | OpenapiYaml \<Rightarrow> openapiDoc E
   | Docs \<Rightarrow> docsRedirect
   | PostFilters \<Rightarrow> wrapCreateFilter E P B cid rq
   | DeleteFilterName name \<Rightarrow> wrapDeleteFilter E P B cid name rq
   | GetFilterName name \<Rightarrow> wrapGetFilter E P B cid name rq
   | PostItems name \<Rightarrow> wrapAddItem E P B (ords 0) cid name rq
   | GetItem name v \<Rightarrow> wrapCheckItem E P B ords cid name v rq
   | Unmatched \<Rightarrow> returnC \<lparr>rp_Status = 404, rp_Body = RawBody ''text/plain'' ''404 page not found''\<rparr>)"

text \<open>The answer to a request, with the body limit of the configuration: the \<open>X-Correlation-ID\<close> header and the response.\<close>

definition serve :: "external \<Rightarrow> platform \<Rightarrow> 's bitstore \<Rightarrow> ('s, unit) call \<Rightarrow> (nat \<Rightarrow> shard_order)
    \<Rightarrow> i64 \<Rightarrow> http_req \<Rightarrow> telemetry \<times> 's \<Rightarrow> (string \<times> response) \<times> (telemetry \<times> 's)" where
  "serve E P B ping ords limit rq s = (let cid = CorrelationID E rq in
     case HTTPMetrics E rq (RequestLogger E cid rq (recoveryHandler E cid (dispatch E P B ping ords cid (BodyLimit limit rq)) s)) of
       (r, t) \<Rightarrow> ((cid, r), t))"

end
