(* ===== verification/ApiLaws.thy ===== *)
theory ApiLaws
  imports Api ServiceLaws
begin

text \<open>
  What the HTTP layer guarantees of every response: \<open>responds Q c\<close> says that the handler \<open>c\<close>
  returns no error and that what it writes satisfies \<open>Q\<close>, unless it panics.
\<close>

definition responds :: "('r \<Rightarrow> bool) \<Rightarrow> ('t, 'r) call \<Rightarrow> bool" where
  "responds Q c \<longleftrightarrow> (\<forall>s. case c s of (Ok r, _) \<Rightarrow> Q r | (Err _, _) \<Rightarrow> False | (Panic _, _) \<Rightarrow> True)"

text \<open>What \<open>mapError\<close> writes.\<close>

definition mapped :: "external \<Rightarrow> string \<Rightarrow> error \<Rightarrow> response" where
  "mapped E cid e = writeError cid (fst (errorToHTTP e)) (snd (errorToHTTP e))
     (if fst (errorToHTTP e) = 500 then ''internal server error'' else error_text (ex_quote E) e)"

lemma logC_apply [simp]: "logC E lvl l (tm, s) = (Ok (), (write_line E lvl l tm, s))"
  by (simp add: logC_def)

lemma mapError_apply [simp]: "mapError E cid e (tm, s) = (Ok (mapped E cid e),
    (if fst (errorToHTTP e) = 500 then write_line E LevelError (RequestFailed cid e) tm else tm, s))"
  by (simp add: mapError_def mapped_def split: prod.split)

named_theorems responds_intros \<open>what handlers write\<close>

lemma responds_returnC [responds_intros]: "Q x \<Longrightarrow> responds Q (returnC x)"
  by (simp add: responds_def)

lemma responds_panic [responds_intros]: "responds Q (resC (Panic p))"
  by (simp add: responds_def)

lemma responds_answer [responds_intros]:
  "(\<And>x. Q (f x)) \<Longrightarrow> (\<And>e. Q (mapped E cid e)) \<Longrightarrow> responds Q (answer E cid c f)"
  by (auto simp: responds_def answer_def catchC_def bindC_def split: prod.split res.split)

lemma responds_bound [responds_intros]:
  "(\<And>x. responds Q (f x)) \<Longrightarrow> (\<And>msg. Q (writeError cid 400 ''INVALID_ARGUMENT'' msg)) \<Longrightarrow>
     responds Q (bound E cid r f)"
  by (cases r) (simp_all add: bound_def responds_returnC responds_panic)

lemma responds_bind_or_400 [responds_intros]:
  "(\<And>x. responds Q (f x)) \<Longrightarrow> (\<And>msg. Q (abortWith cid 400 msg)) \<Longrightarrow>
     responds Q (bind_or_400 E cid what r f)"
  by (cases r) (simp_all add: bind_or_400_def responds_returnC responds_panic)

lemma responds_correlation_param [responds_intros]:
  "responds Q c \<Longrightarrow> (\<And>msg. Q (abortWith cid 400 msg)) \<Longrightarrow>
     responds Q (correlation_param E cid rq c)"
  unfolding correlation_param_def
  by (auto intro: responds_intros split: list.split)

lemma responds_validated [responds_intros]:
  "responds Q c \<Longrightarrow> (\<And>code msg. ex_validate E rq = Some (code, msg) \<Longrightarrow> Q (abortWith cid code msg)) \<Longrightarrow>
     responds Q (validated E cid rq c)"
  by (auto simp: validated_def intro: responds_intros split: option.split)

lemma responds_case_prod [responds_intros]:
  "(\<And>a b. responds Q (f a b)) \<Longrightarrow> responds Q (case x of (a, b) \<Rightarrow> f a b)"
  by (cases x) simp

lemma responds_ready [responds_intros]:
  "Q (writeSuccess cid 200 ''ok'' (StatusData ''ready'')) \<Longrightarrow>
     Q (writeError cid 503 ''NOT_READY'' ''store unreachable'') \<Longrightarrow> responds Q (ReadyzHandler ping cid)"
  by (auto simp: responds_def ReadyzHandler_def catchC_def bindC_def onStore_def
      split: prod.split res.split)

lemmas handler_defs = HealthzHandler_def CreateFilter_def AddItem_def CheckItem_def GetFilter_def
  DeleteFilter_def wrapCreateFilter_def wrapDeleteFilter_def wrapGetFilter_def wrapAddItem_def
  wrapCheckItem_def

text \<open>All a response can be: an answer of a handler, a mapped error, an aborted request, a document.\<close>

lemma responds_dispatch:
  assumes success: "\<And>msg data status. status \<in> {200, 201} \<Longrightarrow> Q (writeSuccess cid status msg data)"
    and deleted: "Q \<lparr>rp_Status = 204, rp_Body = NoBody\<rparr>"
    and raw: "\<And>status ct b. status \<in> {200, 301, 404} \<Longrightarrow> Q \<lparr>rp_Status = status, rp_Body = RawBody ct b\<rparr>"
    and errors: "\<And>e. Q (mapped E cid e)"
    and bad: "\<And>msg. Q (writeError cid 400 ''INVALID_ARGUMENT'' msg)"
    and not_ready: "Q (writeError cid 503 ''NOT_READY'' ''store unreachable'')"
    and abort: "\<And>msg. Q (abortWith cid 400 msg)"
    and rejected: "\<And>code msg. ex_validate E rq = Some (code, msg) \<Longrightarrow> Q (abortWith cid code msg)"
  shows "responds Q (dispatch E P B ping ords cid rq)"
proof -
  have "responds Q (wrapCreateFilter E P B cid rq)"
    "responds Q (wrapDeleteFilter E P B cid name rq)"
    "responds Q (wrapGetFilter E P B cid name rq)"
    "responds Q (wrapAddItem E P B (ords 0) cid name rq)"
    "responds Q (wrapCheckItem E P B ords cid name v rq)" for name v
    unfolding handler_defs by (intro responds_intros; simp add: assms)+
  moreover have "responds Q (HealthzHandler cid)" "responds Q (ReadyzHandler ping cid)"
    unfolding HealthzHandler_def by (intro responds_intros; simp add: assms)+
  ultimately show ?thesis
    by (cases "hr_route rq") (simp_all add: dispatch_def responds_returnC raw)
qed

lemma serve_responds:
  assumes run: "serve E P B ping ords limit rq s = ((hdr, r), t)"
    and disp: "responds Q (dispatch E P B ping ords (CorrelationID E rq) (BodyLimit limit rq))"
    and panic: "Q (writeError (CorrelationID E rq) 500 ''INTERNAL'' ''internal server error'')"
  shows "hdr = CorrelationID E rq" "Q r"
proof -
  obtain r0 u where d: "dispatch E P B ping ords (CorrelationID E rq) (BodyLimit limit rq) s = (r0, u)"
    by (metis surj_pair)
  have "case r0 of Ok x \<Rightarrow> Q x | Err _ \<Rightarrow> False | Panic _ \<Rightarrow> True"
    using disp [unfolded responds_def, rule_format, of s] d by (cases r0) simp_all
  then show "hdr = CorrelationID E rq" "Q r"
    using run d panic
    by (auto simp: serve_def HTTPMetrics_def RequestLogger_def recoveryHandler_def Let_def split: res.splits prod.splits)
qed

section \<open>The request metric\<close>

fun is_request :: "metric_event \<Rightarrow> bool" where
  "is_request (RequestDuration route method status seconds) = True"
| "is_request e = False"

definition requests_of :: "instruments \<Rightarrow> metric_event list option" where
  "requests_of i = map_option (filter is_request) i"

text \<open>
  \<open>keeps g c\<close>: the call does not change what \<open>g\<close> reads of the telemetry. The operations of the service do
  not when \<open>g\<close> is unaffected by them: spans, operations and items do not matter to it.
\<close>

definition keeps :: "(telemetry \<Rightarrow> 'x) \<Rightarrow> (telemetry \<times> 's, 'a) call \<Rightarrow> bool" where
  "keeps g c \<longleftrightarrow> (\<forall>tm s r tm' t. c (tm, s) = (r, (tm', t)) \<longrightarrow> g tm' = g tm)"

definition unaffected :: "(telemetry \<Rightarrow> 'x) \<Rightarrow> bool" where
  "unaffected g \<longleftrightarrow> (\<forall>span op e tm. g (finishSpan span op e tm) = g tm)
     \<and> (\<forall>n tm. g (tm\<lparr>tl_inst := RecordItemsAdded n (tl_inst tm)\<rparr>) = g tm)"

named_theorems keeps_intros \<open>calls that leave a part of the telemetry\<close>

lemma keepsD: "keeps g c \<Longrightarrow> c (tm, s) = (r, (tm', t)) \<Longrightarrow> g tm' = g tm"
  unfolding keeps_def by blast

lemma keeps_basic [keeps_intros]: "keeps g (returnC x)" "keeps g (resC a)" "keeps g (onStore d)"
  by (auto simp: keeps_def elim: onStore_cases)

lemma keeps_bindC [keeps_intros]:
  assumes "keeps g c" "\<And>x. keeps g (f x)"
  shows "keeps g (bindC c f)"
  unfolding keeps_def
proof (intro allI impI)
  fix tm s r tm' t
  assume "bindC c f (tm, s) = (r, (tm', t))"
  then show "g tm' = g tm"
  proof (cases rule: bindC_cases)
    case (ok x u)
    then show ?thesis using keepsD [OF assms(1)] keepsD [OF assms(2)] by (metis surj_pair)
  qed (use keepsD [OF assms(1)] in auto)
qed

lemma keeps_catchC [keeps_intros]:
  assumes "keeps g c" "\<And>e. keeps g (h e)"
  shows "keeps g (catchC c h)"
  unfolding keeps_def
proof (intro allI impI)
  fix tm s r tm' t
  assume "catchC c h (tm, s) = (r, (tm', t))"
  then show "g tm' = g tm"
  proof (cases rule: catchC_cases)
    case (err e u)
    then show ?thesis using keepsD [OF assms(1)] keepsD [OF assms(2)] by (metis surj_pair)
  qed (use keepsD [OF assms(1)] in auto)
qed

lemma keeps_mapErrC [keeps_intros]: "keeps g c \<Longrightarrow> keeps g (mapErrC c)"
  unfolding mapErrC_def by (intro keeps_intros)

lemma keeps_traced [keeps_intros]:
  assumes "unaffected g" "keeps g c"
  shows "keeps g (traced span op c)"
  unfolding keeps_def
proof (intro allI impI)
  fix tm s r tm' t
  assume "traced span op c (tm, s) = (r, (tm', t))"
  then show "g tm' = g tm"
    by (cases rule: traced_cases) (use assms(1) in \<open>auto simp: unaffected_def dest!: keepsD [OF assms(2)]\<close>)
qed

lemma keeps_items [keeps_intros]:
  "unaffected g \<Longrightarrow> keeps g (\<lambda>(tm, s). (Ok (), (tm\<lparr>tl_inst := RecordItemsAdded n (tl_inst tm)\<rparr>, s)))"
  by (simp add: keeps_def unaffected_def)

lemma keeps_structure [keeps_intros]:
  "(\<And>a b. keeps g (f a b)) \<Longrightarrow> keeps g (case x of (a, b) \<Rightarrow> f a b)"
  "keeps g c \<Longrightarrow> keeps g d \<Longrightarrow> keeps g (if b then c else d)"
  by (cases x; simp)+

lemma keeps_service [keeps_intros]:
  assumes "unaffected g"
  shows "keeps g (Create P B now name n p)" "keeps g (SvcAdd P B ord name item)"
    "keeps g (SvcExists P B ords name item)" "keeps g (SvcStats P B name)" "keeps g (Delete P B name)"
  unfolding Create_def SvcAdd_def SvcExists_def SvcStats_def Delete_def Let_def
  using assms by (intro keeps_intros; assumption)+

lemma keeps_handlers [keeps_intros]:
  "keeps g c \<Longrightarrow> (\<And>e. keeps g (mapError E cid e :: (telemetry \<times> 's, response) call)) \<Longrightarrow>
     keeps g (answer E cid (c :: (telemetry \<times> 's, 'a) call) f)"
  "(\<And>x. keeps g (h x)) \<Longrightarrow> keeps g (bound E cid r h)"
  "(\<And>x. keeps g (h' x)) \<Longrightarrow> keeps g (bind_or_400 E cid what r' h')"
  "keeps g c' \<Longrightarrow> keeps g (correlation_param E cid rq c')"
  "keeps g c' \<Longrightarrow> keeps g (validated E cid rq c')"
  unfolding answer_def bound_def bind_or_400_def correlation_param_def validated_def
  by (auto intro!: keeps_intros split: res.split list.split option.split)

lemma unaffected_requests: "unaffected (\<lambda>tm. requests_of (tl_inst tm))"
  by (simp add: unaffected_def requests_of_def finishSpan_def RecordOp_def RecordItemsAdded_def record_metric_def
      split: option.split)

lemma mapError_requests: "keeps (\<lambda>tm. requests_of (tl_inst tm)) (mapError E cid e)"
  by (simp add: keeps_def)

lemma dispatch_requests: "keeps (\<lambda>tm. requests_of (tl_inst tm)) (dispatch E P B ping ords cid rq)" (is "keeps ?g _")
proof -
  note intros = keeps_intros unaffected_requests mapError_requests
  have "keeps ?g (HealthzHandler cid)" "keeps ?g (ReadyzHandler ping cid)"
    unfolding HealthzHandler_def ReadyzHandler_def by (intro intros)+
  moreover have "keeps ?g (wrapCreateFilter E P B cid rq)"
    "keeps ?g (wrapDeleteFilter E P B cid name rq)" "keeps ?g (wrapGetFilter E P B cid name rq)"
    "keeps ?g (wrapAddItem E P B (ords 0) cid name rq)"
    "keeps ?g (wrapCheckItem E P B ords cid name v rq)" for name v
    unfolding handler_defs by (intro intros)+
  ultimately show ?thesis
    by (cases "hr_route rq") (simp_all add: dispatch_def keeps_basic(1))
qed

lemma serve_records:
  assumes "serve E P B ping ords limit rq (tm, s) = ((hdr, r), (tm', t))" "tl_inst tm = Some log"
  shows "\<exists>new. tl_inst tm' = Some (new @ [RequestDuration
      (if hr_route rq = Unmatched then ''unmatched'' else FullPath (hr_route rq)) (hr_method rq)
      (rp_Status r) (ex_seconds E)]) \<and> filter is_request new = filter is_request log"
proof -
  obtain r0 tm1 u where d: "dispatch E P B ping ords (CorrelationID E rq) (BodyLimit limit rq) (tm, s) = (r0, (tm1, u))"
    by (metis surj_pair)
  have "requests_of (tl_inst tm1) = Some (filter is_request log)"
    using keepsD [OF dispatch_requests d] assms(2) by (simp add: requests_of_def)
  then obtain new where new: "tl_inst tm1 = Some new" "filter is_request new = filter is_request log"
    by (auto simp: requests_of_def)
  have "FullPath (hr_route rq) = [] \<longleftrightarrow> hr_route rq = Unmatched" by (cases "hr_route rq") simp_all
  then show ?thesis using assms(1) d new
    by (auto simp: serve_def HTTPMetrics_def RequestLogger_def recoveryHandler_def RecordRequest_def record_metric_def
        Let_def split: res.splits)
qed

section \<open>Statuses and envelopes\<close>

text \<open>The OpenAPI validator rejects with an error of the client.\<close>

definition rejects_as_client :: "external \<Rightarrow> http_req \<Rightarrow> bool" where
  "rejects_as_client E rq \<longleftrightarrow>
     (\<forall>code msg. ex_validate E rq = Some (code, msg) \<longrightarrow> 400 \<le> code \<and> code < 500)"

text \<open>The validator reads the body of the request and rejects one it cannot read to its end.\<close>

definition reads_body :: "external \<Rightarrow> http_req \<Rightarrow> bool" where
  "reads_body E rq \<longleftrightarrow> (rd_err (hr_body rq) \<noteq> None \<longrightarrow> ex_validate E rq \<noteq> None)"

lemma oversized_rejected:
  assumes "reads_body E (BodyLimit n rq)" "max 0 (sint n) < int (length (rd_data (hr_body rq)))"
  shows "ex_validate E (BodyLimit n rq) \<noteq> None"
  using assms MaxBytesReader_err [OF assms(2)] by (simp add: reads_body_def)

lemma rejects_as_clientD:
  "rejects_as_client E rq \<Longrightarrow> ex_validate E rq = Some (code, msg) \<Longrightarrow> 400 \<le> code \<and> code < 500"
  by (simp add: rejects_as_client_def)

lemma errorToHTTP_status: "fst (errorToHTTP e) \<in> {400, 404, 409, 500}"
  by (simp add: errorToHTTP_def)

lemma errorToHTTP_code: "ErrorDetailCode_Valid (snd (errorToHTTP e))"
  by (simp add: errorToHTTP_def ErrorDetailCode_Valid_def)

lemma success_valid:
  "CreateFilter201JSONResponseBodySuccess_Valid = EnvelopeSuccess_Valid"
  "GetFilter200JSONResponseBodySuccess_Valid = EnvelopeSuccess_Valid"
  "AddItem200JSONResponseBodySuccess_Valid = EnvelopeSuccess_Valid"
  "CheckItem200JSONResponseBodySuccess_Valid = EnvelopeSuccess_Valid"
  by (simp_all add: fun_eq_iff EnvelopeSuccess_Valid_def CreateFilter201JSONResponseBodySuccess_Valid_def
      GetFilter200JSONResponseBodySuccess_Valid_def AddItem200JSONResponseBodySuccess_Valid_def
      CheckItem200JSONResponseBodySuccess_Valid_def)

lemmas valid_defs = EnvelopeSuccess_Valid_def ErrorEnvelopeSuccess_Valid_def ErrorDetailCode_Valid_def

lemma error_root_not_wraps: "\<not> wraps (error_root e)"
  by (induction e) auto

definition truthful :: "string \<Rightarrow> response \<Rightarrow> bool" where
  "truthful cid r \<longleftrightarrow> (case rp_Body r of
       JsonBody e \<Rightarrow> en_CorrelationID e = cid \<and> en_Success e = (rp_Status r < 400)
         \<and> (en_Data e \<noteq> None) = (rp_Status r < 400) \<and> (en_Errors e = []) = (rp_Status r < 400)
         \<and> (if rp_Status r < 400 then EnvelopeSuccess_Valid (en_Success e)
            else ErrorEnvelopeSuccess_Valid (en_Success e) \<and> (\<forall>d \<in> set (en_Errors e). ErrorDetailCode_Valid (ed_Code d)))
     | NoBody \<Rightarrow> rp_Status r = 204
     | RawBody _ _ \<Rightarrow> rp_Status r \<in> {200, 301, 404})"

lemma mapped_status: "rp_Status (mapped E cid e) = fst (errorToHTTP e)"
  "rp_Body (mapped E cid e) = JsonBody (NewError cid
     (if fst (errorToHTTP e) = 500 then ''internal server error'' else error_text (ex_quote E) e)
     [\<lparr>ed_Code = snd (errorToHTTP e), ed_Message = (if fst (errorToHTTP e) = 500
        then ''internal server error'' else error_text (ex_quote E) e), ed_Field = []\<rparr>])"
  by (simp_all add: mapped_def writeError_def)

definition opaque :: "string \<Rightarrow> response \<Rightarrow> bool" where
  "opaque cid r \<longleftrightarrow> (rp_Status r = 500 \<longrightarrow> rp_Body r = JsonBody (NewError cid ''internal server error''
     [\<lparr>ed_Code = ''INTERNAL'', ed_Message = ''internal server error'', ed_Field = []\<rparr>]))"

section \<open>What was behind a response\<close>

lemma mapped_not_ok [simp]: "rp_Status (mapped E cid e) \<noteq> 200"
  "rp_Body (mapped E cid e) \<noteq> JsonBody (NewSuccess cid' msg d)"
  using errorToHTTP_status [of e]
  by (auto simp: mapped_def writeError_def NewSuccess_def NewError_def)

text \<open>What \<open>serve\<close> sends is what the route's handler wrote, unless the handler panicked.\<close>

lemma serve_cases:
  assumes "serve E P B ping ords limit rq (tm, s) = ((hdr, r), (tm', t))"
  obtains (written) tm1 where
      "dispatch E P B ping ords (CorrelationID E rq) (BodyLimit limit rq) (tm, s) = (Ok r, (tm1, t))"
    | (aborted) tm1 r0 where
      "dispatch E P B ping ords (CorrelationID E rq) (BodyLimit limit rq) (tm, s) = (r0, (tm1, t))" "\<nexists>x. r0 = Ok x"
      "r = writeError (CorrelationID E rq) 500 ''INTERNAL'' ''internal server error''"
  using assms
  by (auto simp: serve_def recoveryHandler_def RequestLogger_def HTTPMetrics_def Let_def split: prod.splits res.splits)

lemma answer_cases:
  assumes "answer E cid c f (tm, s) = (Ok r, (tm', t))"
  obtains (ok) x where "c (tm, s) = (Ok x, (tm', t))" "r = f x"
    | (err) e tm1 where "c (tm, s) = (Err e, (tm1, t))" "r = mapped E cid e"
  using assms by (auto simp: answer_def elim!: catchC_cases bindC_cases)

lemmas param_defs = correlation_param_def validated_def bind_or_400_def bound_def

lemma AddItem_ok:
  assumes run: "serve E P B ping ords limit rq (tm, s) = ((hdr, r), (tm', t))"
    and route: "hr_route rq = PostItems nm" and ok: "rp_Status r = 200"
    and codes: "rejects_as_client E (BodyLimit limit rq)"
  shows "\<exists>name v tm1. ex_bindParam E nm = Ok name \<and> ex_bindAdd E (MaxBytesReader (hr_body rq) limit) = Ok v
    \<and> SvcAdd P B (ords 0) name (bytes_of (ai_Value v)) (tm, s) = (Ok (), (tm1, t))"
  using run
proof (cases rule: serve_cases)
  case (written tm1)
  then show ?thesis using route ok codes
    by (auto dest: rejects_as_clientD simp: dispatch_def wrapAddItem_def AddItem_def param_defs abortWith_def writeError_def
        elim!: answer_cases split: res.splits list.splits option.splits prod.splits if_splits)
qed (use ok in \<open>simp add: writeError_def\<close>)

lemma CheckItem_ok:
  assumes run: "serve E P B ping ords limit rq (tm, s) = ((hdr, r), (tm', t))"
    and route: "hr_route rq = GetItem nm v0" and ok: "rp_Body r = JsonBody e" "en_Data e = Some (ExistsData b)"
  shows "\<exists>name v tm1. ex_bindParam E nm = Ok name \<and> ex_bindParam E v0 = Ok v
    \<and> SvcExists P B ords name (bytes_of v) (tm, s) = (Ok b, (tm1, t))"
  using run
proof (cases rule: serve_cases)
  case (written tm1)
  then show ?thesis using route ok
    by (auto simp: dispatch_def wrapCheckItem_def CheckItem_def param_defs abortWith_def writeError_def
        writeSuccess_def NewSuccess_def NewError_def mapped_def
        elim!: answer_cases split: res.splits list.splits option.splits prod.splits if_splits)
qed (use ok in \<open>auto simp add: writeError_def NewError_def\<close>)

section \<open>Rejected requests\<close>

text \<open>\<open>rejects cid c\<close>: the handler \<open>c\<close> does nothing but answer an error of the client.\<close>

definition rejects :: "string \<Rightarrow> ('t, response) call \<Rightarrow> bool" where
  "rejects cid c \<longleftrightarrow> (\<exists>code m. 400 \<le> code \<and> code < 500 \<and> c = returnC (abortWith cid code m))"

named_theorems rejects_intros \<open>requests that are not served\<close>

lemma rejects_abort [rejects_intros]:
  "400 \<le> code \<Longrightarrow> code < 500 \<Longrightarrow> rejects cid (returnC (abortWith cid code m))"
  unfolding rejects_def by blast

lemma rejects_validated [rejects_intros]:
  "ex_validate E rq = Some (code, msg) \<Longrightarrow> 400 \<le> code \<Longrightarrow> code < 500 \<Longrightarrow>
     rejects cid (validated E cid rq c)"
  by (simp add: validated_def rejects_abort)

lemma rejects_bind_or_400 [rejects_intros]:
  "(\<forall>p. r \<noteq> Panic p) \<Longrightarrow> (\<And>x. rejects cid (f x)) \<Longrightarrow> rejects cid (bind_or_400 E cid what r f)"
  by (cases r) (simp_all add: bind_or_400_def rejects_abort)

lemma rejects_correlation_param [rejects_intros]:
  "(\<And>x p. ex_bindHeader E x \<noteq> Panic p) \<Longrightarrow> rejects cid c \<Longrightarrow> rejects cid (correlation_param E cid rq c)"
  by (auto simp: correlation_param_def intro!: rejects_intros split: list.split)

section \<open>The log\<close>

text \<open>
  \<open>logs E cid c\<close>: the handler \<open>c\<close> writes one line, with the error, when it answers 500 and errors are
  logged at all, and else none; before a panic it has written none.
\<close>

definition logs :: "external \<Rightarrow> string \<Rightarrow> (telemetry \<times> 's, response) call \<Rightarrow> bool" where
  "logs E cid c \<longleftrightarrow> (\<forall>tm s. case c (tm, s) of
     (Ok r, (tm', _)) \<Rightarrow> if rp_Status r = 500 \<and> ex_enabled E LevelError then \<exists>e. tl_log tm' = tl_log tm @ [RequestFailed cid e] else tl_log tm' = tl_log tm
   | (Err e, _) \<Rightarrow> False
   | (Panic p, (tm', _)) \<Rightarrow> tl_log tm' = tl_log tm)"

named_theorems logs_intros \<open>what handlers log\<close>

lemma logs_returnC [logs_intros]: "rp_Status r \<noteq> 500 \<Longrightarrow> logs E cid (returnC r)"
  by (simp add: logs_def)

lemma logs_panic [logs_intros]: "logs E cid (resC (Panic p))"
  by (simp add: logs_def)

lemma logs_answer [logs_intros]:
  assumes "keeps tl_log c" "\<And>x. rp_Status (f x) \<noteq> 500"
  shows "logs E cid (answer E cid c f)"
  unfolding logs_def
proof (intro allI)
  fix tm s
  obtain r tm1 t where c: "c (tm, s) = (r, (tm1, t))" by (metis surj_pair)
  then show "case answer E cid c f (tm, s) of
     (Ok r, (tm', _)) \<Rightarrow> if rp_Status r = 500 \<and> ex_enabled E LevelError then \<exists>e. tl_log tm' = tl_log tm @ [RequestFailed cid e] else tl_log tm' = tl_log tm
   | (Err e, _) \<Rightarrow> False
   | (Panic p, (tm', _)) \<Rightarrow> tl_log tm' = tl_log tm"
    using keepsD [OF assms(1) c] assms(2)
    by (cases r) (auto simp: answer_def mapped_status)
qed

lemma logs_handlers [logs_intros]:
  "(\<And>x. logs E cid (h x)) \<Longrightarrow> logs E cid (bound E cid r h)"
  "(\<And>x. logs E cid (h' x)) \<Longrightarrow> logs E cid (bind_or_400 E cid what r' h')"
  "logs E cid c \<Longrightarrow> logs E cid (correlation_param E cid rq c)"
  "logs E cid c \<Longrightarrow> rejects_as_client E rq \<Longrightarrow> logs E cid (validated E cid rq c)"
  unfolding bound_def bind_or_400_def correlation_param_def validated_def
  by (auto intro!: logs_intros simp: abortWith_def writeError_def dest: rejects_as_clientD
      split: res.split list.split option.split)

lemma logs_case_prod [logs_intros]: "(\<And>a b. logs E cid (f a b)) \<Longrightarrow> logs E cid (case x of (a, b) \<Rightarrow> f a b)"
  by (cases x) simp

lemma logs_ready: "logs E cid (ReadyzHandler ping cid)"
  by (auto simp: logs_def ReadyzHandler_def catchC_def bindC_def onStore_def writeSuccess_def writeError_def
      split: prod.split res.split)

lemma logs_dispatch:
  assumes "rejects_as_client E rq"
  shows "logs E cid (dispatch E P B ping ords cid rq)"
proof -
  have "unaffected tl_log" by (simp add: unaffected_def finishSpan_def)
  note intros = logs_intros keeps_service [OF this] assms
  have "logs E cid (wrapCreateFilter E P B cid rq)"
    "logs E cid (wrapDeleteFilter E P B cid name rq)" "logs E cid (wrapGetFilter E P B cid name rq)"
    "logs E cid (wrapAddItem E P B (ords 0) cid name rq)"
    "logs E cid (wrapCheckItem E P B ords cid name v rq)" for name v
    unfolding handler_defs by (intro intros; simp add: writeSuccess_def)+
  moreover have "logs E cid (HealthzHandler cid)"
    unfolding HealthzHandler_def by (intro logs_intros) (simp add: writeSuccess_def)
  ultimately show ?thesis
    by (cases "hr_route rq") (simp_all add: dispatch_def logs_returnC logs_ready)
qed

lemma serve_logs:
  assumes "serve E P B ping ords limit rq (tm, s) = ((hdr, r), (tm', t))" "rejects_as_client E (BodyLimit limit rq)"
  shows "\<exists>ls. tl_log tm' = tl_log tm @ ls
        @ (if ex_enabled E LevelInfo then [RequestLine hdr (hr_method rq) (FullPath (hr_route rq)) (rp_Status r) (ex_latency_ms E)] else [])
    \<and> (if rp_Status r = 500 \<and> ex_enabled E LevelError then (\<exists>e. ls = [RequestFailed hdr e]) \<or> (\<exists>p. ls = [PanicRecovered hdr p]) else ls = [])"
proof -
  obtain r0 tm1 u where d: "dispatch E P B ping ords (CorrelationID E rq) (BodyLimit limit rq) (tm, s) = (r0, (tm1, u))"
    by (metis surj_pair)
  show ?thesis
    using logs_dispatch [OF assms(2), of "CorrelationID E rq" P B ping ords, unfolded logs_def, rule_format, of tm s] assms(1) d
    by (cases r0; cases "ex_enabled E LevelError")
      (auto simp: serve_def HTTPMetrics_def RequestLogger_def recoveryHandler_def writeError_def Let_def split: if_splits)
qed

end
