(* ===== verification/ApiProps.thy ===== *)
theory ApiProps
  imports ServiceProps ApiLaws
begin

text \<open>
  Properties of the HTTP layer: what every response carries, which status an error gets, what is
  recorded of a request, and that the guarantee of the filter reaches the client.
\<close>

section \<open>A server for the witnesses\<close>

definition demo_ext :: external where
  "demo_ext = \<lparr>ex_uuid = ''id-1'', ex_now = ''now'', ex_seconds = 0, ex_latency_ms = 1,
     ex_bindCreate = (\<lambda>b. Ok \<lparr>cf_N = 1, cf_Name = ''f'', cf_P = demo_p\<rparr>),
     ex_bindAdd = (\<lambda>b. Ok \<lparr>ai_Value = rd_data b\<rparr>), ex_bindParam = Ok, ex_bindHeader = Ok,
     ex_validate = (\<lambda>rq. if rd_err (hr_body rq) \<noteq> None then Some (400, ''request body has an error'') else None),
     ex_quote = id, ex_spec = [], ex_enabled = (\<lambda>_. True)\<rparr>"

definition demo_http :: "route \<Rightarrow> string \<Rightarrow> http_req" where
  "demo_http rt b = \<lparr>hr_method = ''POST'', hr_route = rt, hr_trace = None, hr_correlation = [],
     hr_body = \<lparr>rd_data = b, rd_err = None\<rparr>\<rparr>"

definition demo_serve :: "http_req \<Rightarrow> telemetry \<times> memstore \<Rightarrow> (string \<times> response) \<times> (telemetry \<times> memstore)" where
  "demo_serve = serve demo_ext demo (memStore id) mem_Ping (\<lambda>_. id) 4"

lemma demo_ext_rejects: "rejects_as_client demo_ext rq"
  by (simp add: rejects_as_client_def demo_ext_def)

lemma demo_small [simp]: "length b \<le> 4 \<Longrightarrow> MaxBytesReader \<lparr>rd_data = b, rd_err = x\<rparr> 4 = \<lparr>rd_data = b, rd_err = x\<rparr>"
  by (simp add: MaxBytesReader_def)

lemma demo_serve_eq: "serve demo_ext demo (memStore id) mem_Ping (\<lambda>_. id) 4 rq s
    = ((fst (fst (demo_serve rq s)), snd (fst (demo_serve rq s))),
       (fst (snd (demo_serve rq s)), snd (snd (demo_serve rq s))))"
  by (simp add: demo_serve_def)

lemma demo_serve_header: "fst (fst (demo_serve rq s)) = CorrelationID demo_ext rq"
  by (simp add: demo_serve_def serve_def Let_def split: prod.split)

section \<open>Responses\<close>

text \<open>
  C34 The status of every failure: however often an error of the filter package was wrapped on its way
  up, the response has the status of the sentinel at its root, and 500 for every other error.
\<close>

theorem status_of_error:
  "errorToHTTP (mapErr e) = (case error_root e of
       ErrFilterExists \<Rightarrow> (409, ''ALREADY_EXISTS'') | ServiceErrAlreadyExists \<Rightarrow> (409, ''ALREADY_EXISTS'')
     | ErrNotFound \<Rightarrow> (404, ''NOT_FOUND'') | ServiceErrNotFound \<Rightarrow> (404, ''NOT_FOUND'')
     | ErrEmptyName \<Rightarrow> (400, ''INVALID_ARGUMENT'') | ErrInvalidN \<Rightarrow> (400, ''INVALID_ARGUMENT'')
     | ErrInvalidP \<Rightarrow> (400, ''INVALID_ARGUMENT'')
     | ServiceErrInvalidArgument \<Rightarrow> (400, ''INVALID_ARGUMENT'')
     | _ \<Rightarrow> (500, ''INTERNAL''))"
  using error_root_not_wraps [of e]
  by (cases "error_root e") (auto simp: errorToHTTP_def mapErr_def errors_is_root)

text \<open>
  C35 Every response tells the truth about itself: the envelope carries the correlation id of the
  header, \<open>success\<close> says that the status is below 400, and then there are data and no errors,
  otherwise errors and no data, and every code is one the generated schema types know; only a deletion
  has no body. (The validator rejects with an error of the client.)
\<close>

theorem responses_are_truthful:
  assumes "serve E P B ping ords limit rq s = ((hdr, r), t)"
    and "rejects_as_client E (BodyLimit limit rq)"
  shows "hdr = CorrelationID E rq \<and> truthful hdr r"
proof -
  have "truthful cid (mapped E cid e)" for cid e
    using errorToHTTP_status [of e] errorToHTTP_code [of e]
    by (auto simp: truthful_def mapped_status NewError_def valid_defs(1,2))
  then have "responds (truthful (CorrelationID E rq)) (dispatch E P B ping ords (CorrelationID E rq) (BodyLimit limit rq))"
    using rejects_as_clientD [OF assms(2)]
    by (intro responds_dispatch)
      (auto simp: truthful_def writeSuccess_def writeError_def abortWith_def NewSuccess_def NewError_def valid_defs)
  from serve_responds [OF assms(1) this] show ?thesis
    by (simp add: truthful_def writeError_def NewError_def valid_defs)
qed

theorem responses_are_truthful_witness:
  "truthful ''id-1'' (snd (fst (demo_serve (demo_http (GetFilterName ''f'') []) (demo_telemetry, NewMemStore))))"
  using responses_are_truthful [OF demo_serve_eq demo_ext_rejects, of "demo_http (GetFilterName ''f'') []"
      "(demo_telemetry, NewMemStore)"]
  by (auto simp: CorrelationID_def demo_http_def demo_ext_def)

text \<open>
  C36 Internal errors stay internal: every response with status 500, from a failing store, a corrupt
  filter or a panic, is the same opaque envelope, with no text of the error.
\<close>

theorem internal_errors_are_opaque:
  assumes "serve E P B ping ords limit rq s = ((hdr, r), t)"
    and "rejects_as_client E (BodyLimit limit rq)"
  shows "opaque hdr r"
proof -
  have "fst (errorToHTTP e) = 500 \<Longrightarrow> snd (errorToHTTP e) = ''INTERNAL''" for e
    by (simp add: errorToHTTP_def split: if_splits)
  then have "opaque cid (mapped E cid e)" for cid e
    by (simp add: opaque_def mapped_status)
  moreover have client: "code < 500" if "ex_validate E (BodyLimit limit rq) = Some (code, msg)" for code msg
    using rejects_as_clientD [OF assms(2) that] by simp
  ultimately have "responds (opaque (CorrelationID E rq)) (dispatch E P B ping ords (CorrelationID E rq) (BodyLimit limit rq))"
    using client
    by (intro responds_dispatch) (auto simp: opaque_def writeSuccess_def writeError_def abortWith_def)
  from serve_responds [OF assms(1) this] show ?thesis
    by (simp add: opaque_def writeError_def)
qed

lemma demo_corrupt_500: "rp_Status (snd (fst (demo_serve (demo_http (GetFilterName ''f'') [])
    (demo_telemetry, demo_corrupt)))) = 500"
proof -
  obtain msg t where "Load demo (memStore id) ''f'' demo_corrupt = (Panic msg, t)"
    using demo_corrupt_panics by blast
  then have "SvcStats demo (memStore id) ''f'' (demo_telemetry, demo_corrupt)
      = (Panic msg, (finishSpan ''FilterService.Stats'' ''stats'' None demo_telemetry, t))"
    by (simp add: SvcStats_def traced_def mapErrC_def onStore_def bindC_def catchC_def)
  then show ?thesis
    by (simp add: demo_serve_def serve_def dispatch_def wrapGetFilter_def GetFilter_def demo_http_def
        demo_ext_def param_defs answer_def recoveryHandler_def RequestLogger_def HTTPMetrics_def Let_def writeError_def
        bindC_def catchC_def)
qed

theorem internal_errors_are_opaque_witness:
  "rp_Body (snd (fst (demo_serve (demo_http (GetFilterName ''f'') []) (demo_telemetry, demo_corrupt))))
     = JsonBody (NewError ''id-1'' ''internal server error''
         [\<lparr>ed_Code = ''INTERNAL'', ed_Message = ''internal server error'', ed_Field = []\<rparr>])"
  using internal_errors_are_opaque [OF demo_serve_eq demo_ext_rejects, of "demo_http (GetFilterName ''f'') []"
      "(demo_telemetry, demo_corrupt)"] demo_corrupt_500
    responses_are_truthful [OF demo_serve_eq demo_ext_rejects, of "demo_http (GetFilterName ''f'') []"
      "(demo_telemetry, demo_corrupt)"]
  by (simp add: opaque_def CorrelationID_def demo_http_def demo_ext_def)

text \<open>
  C37 Every request is measured once: whatever happens inside, also a panic, serving a request adds
  exactly one request duration, with the route's template, the method and the status sent.
\<close>

theorem requests_are_measured:
  assumes "serve E P B ping ords limit rq (tm, s) = ((hdr, r), (tm', t))" "tl_inst tm = Some log"
  shows "\<exists>new. tl_inst tm' = Some (new @ [RequestDuration
      (if hr_route rq = Unmatched then ''unmatched'' else FullPath (hr_route rq)) (hr_method rq)
      (rp_Status r) (ex_seconds E)]) \<and> filter is_request new = filter is_request log"
  using assms by (rule serve_records)

theorem requests_are_measured_witness:
  "\<exists>new st. tl_inst (fst (snd (demo_serve (demo_http (GetFilterName ''f'') []) (demo_telemetry, NewMemStore))))
     = Some (new @ [RequestDuration ''/v1/filters/:name'' ''POST'' st 0]) \<and> filter is_request new = []"
  using requests_are_measured [OF demo_serve_eq, of demo_telemetry "[]" "demo_http (GetFilterName ''f'') []" NewMemStore]
  by (auto simp: demo_http_def demo_telemetry_def demo_ext_def)

text \<open>
  C38 A rejected request has no effect: when the OpenAPI validator rejects a request of the API with a
  status of the client, or its body is longer than the limit and the validator reads it, then neither the
  store nor the spans change, and the answer is an error of the client. (Binding a parameter does not panic.)
\<close>

theorem rejected_requests_have_no_effect:
  assumes "serve E P B ping ords limit rq (tm, s) = ((hdr, r), (tm', t))"
    and "hr_route rq \<notin> {Healthz, Readyz, OpenapiYaml, Docs, Unmatched}"
    and "ex_validate E (BodyLimit limit rq) \<noteq> None
      \<or> reads_body E (BodyLimit limit rq) \<and> max 0 (sint limit) < int (length (rd_data (hr_body rq)))"
    and "rejects_as_client E (BodyLimit limit rq)"
    and "\<And>x p. ex_bindParam E x \<noteq> Panic p" "\<And>x p. ex_bindHeader E x \<noteq> Panic p"
  shows "t = s \<and> tl_spans tm' = tl_spans tm \<and> 400 \<le> rp_Status r \<and> rp_Status r < 500"
proof -
  let ?rq = "BodyLimit limit rq"
  have "ex_validate E ?rq \<noteq> None" using assms(3) oversized_rejected by blast
  then obtain code msg where "ex_validate E ?rq = Some (code, msg)" "400 \<le> code" "code < 500"
    using assms(4) by (auto dest: rejects_as_clientD)
  then have "rejects (CorrelationID E rq) (dispatch E P B ping ords (CorrelationID E rq) ?rq)"
    using assms(2,5,6)
    by (cases "hr_route rq") (auto simp: dispatch_def wrapCreateFilter_def wrapAddItem_def
        wrapDeleteFilter_def wrapGetFilter_def wrapCheckItem_def intro!: rejects_intros)
  then obtain c m where "400 \<le> c" "c < 500" "dispatch E P B ping ords (CorrelationID E rq) ?rq
      = returnC (abortWith (CorrelationID E rq) c m)"
    unfolding rejects_def by blast
  then show ?thesis
    using assms(1)
    by (auto simp: serve_def recoveryHandler_def RequestLogger_def HTTPMetrics_def abortWith_def Let_def)
qed

text \<open>A body of five bytes, with a limit of four.\<close>

theorem rejected_requests_have_no_effect_witness:
  "snd (snd (demo_serve (demo_http (PostItems ''f'') ''large'') (demo_telemetry, demo_created))) = demo_created"
  using rejected_requests_have_no_effect [OF demo_serve_eq, of "demo_http (PostItems ''f'') ''large''"
      demo_telemetry demo_created]
  by (simp add: rejects_as_client_def reads_body_def demo_ext_def demo_http_def)

section \<open>From one request to another\<close>

text \<open>
  C4 No false negatives, over HTTP. Once \<open>POST /v1/filters/:name/items\<close> was answered with 200, no
  \<open>GET /v1/filters/:name/items/:value\<close> of the same name and value answers \<open>exists: false\<close>, after any
  evolution of the store that does not drop the filter (which is what all other requests, also ones
  that run concurrently on a failing store, amount to).
\<close>

theorem http_no_false_negatives:
  assumes "bit_store B view failing" "counts_ok (view s)"
    and "serve E P B ping ords limit rq (tm, s) = ((hdr, r), (tm1, t))"
    and "hr_route rq = PostItems nm" "rp_Status r = 200"
    and "rejects_as_client E (BodyLimit limit rq)"
    and "ex_bindParam E nm = Ok name" "ex_bindAdd E (MaxBytesReader (hr_body rq) limit) = Ok \<lparr>ai_Value = v\<rparr>" "valid_name name"
    and "evolves X (view t) (view s')" "name \<notin> X"
    and "serve E' P B ping' ords' limit' rq' (tm2, s') = ((hdr', r'), (tm3, t'))"
    and "hr_route rq' = GetItem nm' v'" "ex_bindParam E' nm' = Ok name" "ex_bindParam E' v' = Ok v"
    and "rp_Body r' = JsonBody e" "en_Data e = Some (ExistsData b)"
  shows b
proof -
  obtain tm4 where add: "SvcAdd P B (ords 0) name (bytes_of v) (tm, s) = (Ok (), (tm4, t))"
    using AddItem_ok [OF assms(3,4,5,6)] assms(7,8) by auto
  obtain tm5 where ex: "SvcExists P B ords' name (bytes_of v) (tm2, s') = (Ok b, (tm5, t'))"
    using CheckItem_ok [OF assms(12,13,16,17)] assms(14,15) by auto
  note law = bit_store.SvcAdd_law [OF assms(1) add assms(9)]
  have "present P (view s') name (bytes_of v)"
    using present_evolves [OF _ assms(10) _ assms(9,11)] law assms(2) counts_ok_evolves by blast
  then show b using bit_store.SvcExists_law [OF assms(1) ex] by auto
qed

definition demo_post :: "(string \<times> response) \<times> (telemetry \<times> memstore)" where
  "demo_post = demo_serve (demo_http (PostItems ''f'') ''a'') (demo_telemetry, demo_created)"

definition demo_get :: "(string \<times> response) \<times> (telemetry \<times> memstore)" where
  "demo_get = demo_serve (demo_http (GetItem ''f'' ''a'') []) (snd demo_post)"

lemma bytes_of_a: "bytes_of ''a'' = item_a"
  by (simp add: bytes_of_def item_a_def)

theorem http_no_false_negatives_witness:
  "rp_Status (snd (fst demo_post)) = 200 \<and> rp_Body (snd (fst demo_get))
     = JsonBody (NewSuccess ''id-1'' ''ok'' (ExistsData True))"
proof -
  let ?W = "demo_http (PostItems ''f'') ''a''" and ?R = "demo_http (GetItem ''f'' ''a'') []"
  obtain tm1 t where add: "SvcAdd demo (memStore id) id ''f'' item_a (demo_telemetry, demo_created) = (Ok (), (tm1, t))"
      "sim demo 2 (mem_view t) [''f'' \<mapsto> demo_filter [demo_stage0 [item_a], demo_stage1 []]]"
    by (rule demo_svc_add [OF mem.reliable_store_axioms])
  have post: "fst demo_post = (''id-1'', writeSuccess ''id-1'' 200 ''item added'' (AddedData True))
      \<and> snd (snd demo_post) = t"
    using add(1) by (simp add: demo_post_def demo_serve_def serve_def dispatch_def wrapAddItem_def
        AddItem_def demo_http_def demo_ext_def param_defs answer_def recoveryHandler_def RequestLogger_def HTTPMetrics_def
        bytes_of_a CorrelationID_def Let_def bindC_def catchC_def writeSuccess_def)
  obtain tm2 where tm2: "snd demo_post = (tm2, t)" using post by (metis prod.collapse)
  obtain b tm3 u where ex: "SvcExists demo (memStore id) (\<lambda>_. id) ''f'' item_a (tm2, t) = (Ok b, (tm3, u))"
    using demo_svc_exists [OF mem.reliable_store_axioms add(2), where tm = tm2] by (metis prod.collapse)
  have get: "snd (fst demo_get) = writeSuccess ''id-1'' 200 ''ok'' (ExistsData b)"
    using ex by (simp add: demo_get_def tm2 demo_serve_def serve_def dispatch_def wrapCheckItem_def
        CheckItem_def demo_http_def demo_ext_def param_defs answer_def recoveryHandler_def RequestLogger_def HTTPMetrics_def
        bytes_of_a CorrelationID_def Let_def bindC_def catchC_def writeSuccess_def)
  have b
    by (rule http_no_false_negatives [OF mem.bit_store_axioms demo_counts, of demo_ext demo id mem_Ping
          "\<lambda>_. id" 4 ?W demo_telemetry "fst (fst demo_post)" "snd (fst demo_post)" tm2 t "''f''" "''f''" "''a''"
          "{}" t demo_ext mem_Ping "\<lambda>_. id" 4 ?R tm2 "fst (fst demo_get)" "snd (fst demo_get)"
          "fst (snd demo_get)" "snd (snd demo_get)" "''f''" "''a''"
          "NewSuccess ''id-1'' ''ok'' (ExistsData b)"])
      (use post get tm2 demo_requests_ok(3) in \<open>auto simp: demo_post_def demo_get_def demo_serve_def
         rejects_as_client_def demo_http_def demo_ext_def writeSuccess_def NewSuccess_def prod_eq_iff\<close>)
  then show ?thesis using post get by (simp add: writeSuccess_def)
qed

end
