(* ===== verification/Valkey.thy ===== *)
theory Valkey
  imports Store
begin

text \<open>
  \<open>pkg/store/valkey.go\<close> and \<open>instrument.go\<close>: the store over a Valkey server. The client library and the
  server are third-party: the client is a record of its methods over an abstract server state and an
  abstract result type, \<open>redis.call\<close> inside the script another record, and their documented behaviour is
  the locale below. The methods of \<open>ValkeyStore\<close> and the Lua script are definitions.
\<close>

section \<open>The client\<close>

datatype command =
    PingCmd
  | SetbitCmd string i64 i64
  | GetbitCmd string i64
  | HgetallCmd string
  | HsetCmd string "(string \<times> string) list"
  | IncrCmd string
  | GetCmd string
  | SaddCmd string "string list"
  | SremCmd string "string list"
  | SmembersCmd string
  | DelCmd "string list"

datatype lua_value = LuaFalse | LuaString string | LuaNumber i64

record 's redis_calls =
  rc_HGET :: "string \<Rightarrow> string \<Rightarrow> ('s, lua_value) call"
  rc_HSET :: "string \<Rightarrow> string \<Rightarrow> string \<Rightarrow> ('s, lua_value) call"
  rc_HINCRBY :: "string \<Rightarrow> string \<Rightarrow> i64 \<Rightarrow> ('s, lua_value) call"

type_synonym 's script = "string list \<Rightarrow> string list \<Rightarrow> ('s, lua_value) call"

record ('s, 'r) valkey_client =
  vc_Do :: "command \<Rightarrow> 's \<Rightarrow> 'r \<times> 's"
  vc_DoMulti :: "command list \<Rightarrow> 's \<Rightarrow> 'r list \<times> 's"
  vc_Exec :: "'s script \<Rightarrow> string list \<Rightarrow> string list \<Rightarrow> 's \<Rightarrow> 'r \<times> 's"
  vr_Error :: "'r \<Rightarrow> error option"
  vr_AsInt64 :: "'r \<Rightarrow> i64 res"
  vr_AsStrMap :: "'r \<Rightarrow> fields res"
  vr_ToString :: "'r \<Rightarrow> string res"
  vr_AsStrSlice :: "'r \<Rightarrow> string list res"
  vc_IsValkeyNil :: "error \<Rightarrow> bool"

section \<open>The script\<close>

fun lua_hset_loop :: "'s redis_calls \<Rightarrow> string \<Rightarrow> string list \<Rightarrow> ('s, unit) call" where
  "lua_hset_loop R key [] = returnC ()"
| "lua_hset_loop R key [f] =
     resC (Err (ErrorText ''Lua redis lib command arguments must be strings or integers''))"
| "lua_hset_loop R key (f # v # args) = bindC (rc_HSET R key f v) (\<lambda>_. lua_hset_loop R key args)"

definition appendStageLua :: "'s redis_calls \<Rightarrow> 's script" where
  "appendStageLua R KEYS ARGV = (case (KEYS, ARGV) of
     (k1 # k2 # _, expected # args) \<Rightarrow>
       bindC (rc_HGET R k1 ''stage_count'') (\<lambda>current.
       if current \<noteq> LuaString expected then rc_HGET R k1 ''stage_count''
       else bindC (lua_hset_loop R k2 args) (\<lambda>_. rc_HINCRBY R k1 ''stage_count'' 1))
   | _ \<Rightarrow> resC (Err (ErrorText ''Lua redis lib command arguments must be strings or integers'')))"

section \<open>The methods\<close>

text \<open>
  The store's own state is the spans it has ended, each with the error recorded on it. \<open>startSpan\<close> and
  the deferred finisher surround what a method does after its early return.
\<close>

type_synonym valkey_spans = "(string \<times> error option) list"

definition startSpan :: "string \<Rightarrow> ('s, 'a) call \<Rightarrow> (valkey_spans \<times> 's, 'a) call" where
  "startSpan op body = (\<lambda>(spans, s). case body s of (r, t) \<Rightarrow>
     (r, (spans @ [(''valkey.'' @ op, case r of Err e \<Rightarrow> Some e | _ \<Rightarrow> None)], t)))"

definition doCmd :: "('s, 'r) valkey_client \<Rightarrow> command \<Rightarrow> ('r \<Rightarrow> 'a res) \<Rightarrow> ('s, 'a) call" where
  "doCmd C cmd parse = (\<lambda>s. case vc_Do C cmd s of (resp, t) \<Rightarrow> (parse resp, t))"

definition errorOf :: "('s, 'r) valkey_client \<Rightarrow> 'r \<Rightarrow> unit res" where
  "errorOf C resp = (case vr_Error C resp of None \<Rightarrow> Ok () | Some e \<Rightarrow> Err e)"

text \<open>A nil reply counts as the value \<open>def\<close>.\<close>

definition orNil :: "('s, 'r) valkey_client \<Rightarrow> 'a \<Rightarrow> 'a res \<Rightarrow> 'a res" where
  "orNil C def r = (case r of Err e \<Rightarrow> if vc_IsValkeyNil C e then Ok def else Err e | _ \<Rightarrow> r)"

definition vs_Ping :: "('s, 'r) valkey_client \<Rightarrow> (valkey_spans \<times> 's, unit) call" where
  "vs_Ping C = onStore (doCmd C PingCmd (errorOf C))"

fun setbits_loop :: "('s, 'r) valkey_client \<Rightarrow> 'r list \<Rightarrow> unit res" where
  "setbits_loop C [] = Ok ()"
| "setbits_loop C (resp # resps) =
     bindR (wrapR ''valkeystore: setbit: '' (errorOf C resp)) (\<lambda>_. setbits_loop C resps)"

definition vs_SetBits :: "('s, 'r) valkey_client \<Rightarrow> string \<Rightarrow> u64 list \<Rightarrow> (valkey_spans \<times> 's, unit) call" where
  "vs_SetBits C key offsets = (if offsets = [] then returnC ()
     else startSpan ''setbit'' (\<lambda>s.
       case vc_DoMulti C (map (\<lambda>off. SetbitCmd key off 1) offsets) s of
         (resps, t) \<Rightarrow> (setbits_loop C resps, t)))"

fun getbits_loop :: "('s, 'r) valkey_client \<Rightarrow> nat \<Rightarrow> bool list \<Rightarrow> 'r list \<Rightarrow> bool list res" where
  "getbits_loop C i result [] = Ok result"
| "getbits_loop C i result (resp # resps) =
     bindR (wrapR ''valkeystore: getbit: '' (vr_AsInt64 C resp)) (\<lambda>val.
     if length result \<le> i then Panic ''runtime error: index out of range''
     else getbits_loop C (Suc i) (result[i := (val = 1)]) resps)"

definition vs_GetBits :: "('s, 'r) valkey_client \<Rightarrow> string \<Rightarrow> u64 list \<Rightarrow> (valkey_spans \<times> 's, bool list) call" where
  "vs_GetBits C key offsets = (if offsets = [] then returnC []
     else startSpan ''getbit'' (\<lambda>s.
       case vc_DoMulti C (map (GetbitCmd key) offsets) s of
         (resps, t) \<Rightarrow> (getbits_loop C 0 (replicate (length offsets) False) resps, t)))"

definition vs_HGetAll :: "('s, 'r) valkey_client \<Rightarrow> string \<Rightarrow> (valkey_spans \<times> 's, fields) call" where
  "vs_HGetAll C key = startSpan ''hgetall'' (doCmd C (HgetallCmd key) (\<lambda>resp.
     wrapR ''valkeystore: hgetall: '' (orNil C fmempty (vr_AsStrMap C resp))))"

text \<open>\<open>ord\<close> is the order in which \<open>range\<close> visits the fields.\<close>

type_synonym field_order = "(string \<times> string) list \<Rightarrow> (string \<times> string) list"

definition range_fields :: "field_order \<Rightarrow> fields \<Rightarrow> (string \<times> string) list" where
  "range_fields ord fs = visit ord (sorted_list_of_fmap fs)"

definition vs_HSet :: "('s, 'r) valkey_client \<Rightarrow> field_order \<Rightarrow> string \<Rightarrow> fields
    \<Rightarrow> (valkey_spans \<times> 's, unit) call" where
  "vs_HSet C ord key fs = (if fs = fmempty then returnC ()
     else startSpan ''hset'' (doCmd C (HsetCmd key (range_fields ord fs)) (\<lambda>resp.
       wrapR ''valkeystore: hset: '' (errorOf C resp))))"

definition vs_Incr :: "('s, 'r) valkey_client \<Rightarrow> string \<Rightarrow> (valkey_spans \<times> 's, i64) call" where
  "vs_Incr C key = startSpan ''incr'' (doCmd C (IncrCmd key) (\<lambda>resp.
     wrapR ''valkeystore: incr: '' (vr_AsInt64 C resp)))"

definition vs_Get :: "('s, 'r) valkey_client \<Rightarrow> string \<Rightarrow> (valkey_spans \<times> 's, string \<times> bool) call" where
  "vs_Get C key = startSpan ''get'' (doCmd C (GetCmd key) (\<lambda>resp.
     wrapR ''valkeystore: get: '' (orNil C ([], False)
       (bindR (vr_ToString C resp) (\<lambda>val. Ok (val, True))))))"

definition vs_SAdd :: "('s, 'r) valkey_client \<Rightarrow> string \<Rightarrow> string list \<Rightarrow> (valkey_spans \<times> 's, unit) call" where
  "vs_SAdd C key members = (if members = [] then returnC ()
     else startSpan ''sadd'' (doCmd C (SaddCmd key members) (\<lambda>resp.
       wrapR ''valkeystore: sadd: '' (errorOf C resp))))"

definition vs_SRem :: "('s, 'r) valkey_client \<Rightarrow> string \<Rightarrow> string list \<Rightarrow> (valkey_spans \<times> 's, unit) call" where
  "vs_SRem C key members = (if members = [] then returnC ()
     else startSpan ''srem'' (doCmd C (SremCmd key members) (\<lambda>resp.
       wrapR ''valkeystore: srem: '' (errorOf C resp))))"

definition vs_SMembers :: "('s, 'r) valkey_client \<Rightarrow> string \<Rightarrow> (valkey_spans \<times> 's, string list) call" where
  "vs_SMembers C key = startSpan ''smembers'' (doCmd C (SmembersCmd key) (\<lambda>resp.
     wrapR ''valkeystore: smembers: '' (orNil C [] (vr_AsStrSlice C resp))))"

definition vs_Del :: "('s, 'r) valkey_client \<Rightarrow> string list \<Rightarrow> (valkey_spans \<times> 's, unit) call" where
  "vs_Del C keys = (if keys = [] then returnC ()
     else startSpan ''del'' (doCmd C (DelCmd keys) (\<lambda>resp.
       wrapR ''valkeystore: del: '' (errorOf C resp))))"

definition vs_AppendStage :: "('s, 'r) valkey_client \<Rightarrow> 's redis_calls \<Rightarrow> field_order
    \<Rightarrow> string \<Rightarrow> i64 \<Rightarrow> fields \<Rightarrow> string \<Rightarrow> (valkey_spans \<times> 's, i64) call" where
  "vs_AppendStage C R ord metaKey expected newStageFields newStageMetaKey =
     startSpan ''append_stage'' (\<lambda>s.
       let args = FormatInt expected # concat (map (\<lambda>(f, v). [f, v]) (range_fields ord newStageFields)) in
       case vc_Exec C (appendStageLua R) [metaKey, newStageMetaKey] args s of
         (resp, t) \<Rightarrow> (wrapR ''valkeystore: append stage: '' (vr_AsInt64 C resp), t))"

definition ValkeyStore :: "('s, 'r) valkey_client \<Rightarrow> 's redis_calls \<Rightarrow> field_order
    \<Rightarrow> (valkey_spans \<times> 's) bitstore" where
  "ValkeyStore C R ord = \<lparr>SetBits = vs_SetBits C, GetBits = vs_GetBits C, HGetAll = vs_HGetAll C,
     HSet = vs_HSet C ord, Incr = vs_Incr C, Get = vs_Get C, SAdd = vs_SAdd C, SRem = vs_SRem C,
     SMembers = vs_SMembers C, Del = vs_Del C, AppendStage = vs_AppendStage C R ord\<rparr>"

section \<open>The documented behaviour of client and server\<close>

text \<open>
  What a command does to the data, and what its reply says, on keys of the right kind (of \<open>SETBIT\<close>
  only the value 1 is used).
\<close>

fun effect :: "command \<Rightarrow> view \<Rightarrow> view" where
  "effect (SetbitCmd k off x) v = v_setbits k {off} v"
| "effect (HsetCmd k fvs) v = v_hset k (fold (\<lambda>(f, x). fmupd f x) fvs fmempty) v"
| "effect (IncrCmd k) v = v_incr k v"
| "effect (SaddCmd k ms) v = v_sadd k ms v"
| "effect (SremCmd k ms) v = v_srem k ms v"
| "effect (DelCmd ks) v = v_del ks v"
| "effect c v = v"

fun well_kinded :: "command \<Rightarrow> bool" where
  "well_kinded (SetbitCmd k off x) = (kind_of k = BitKey \<and> x = 1)"
| "well_kinded (GetbitCmd k off) = (kind_of k = BitKey)"
| "well_kinded (HgetallCmd k) = (kind_of k = HashKey)"
| "well_kinded (HsetCmd k fvs) = (kind_of k = HashKey)"
| "well_kinded (IncrCmd k) = (kind_of k = CounterKey)"
| "well_kinded (GetCmd k) = (kind_of k = CounterKey)"
| "well_kinded (SaddCmd k ms) = (kind_of k = SetKey)"
| "well_kinded (SremCmd k ms) = (kind_of k = SetKey)"
| "well_kinded (SmembersCmd k) = (kind_of k = SetKey)"
| "well_kinded c = True"

fun replies :: "('s, 'r) valkey_client \<Rightarrow> command \<Rightarrow> view \<Rightarrow> 'r \<Rightarrow> bool" where
  "replies C (GetbitCmd k off) v resp = (vr_AsInt64 C resp = Ok (if off \<in> vbits v k then 1 else 0))"
| "replies C (HgetallCmd k) v resp = (vr_AsStrMap C resp = Ok (vhash v k))"
| "replies C (IncrCmd k) v resp = (vr_AsInt64 C resp = Ok (ctr_next (vctr v k)))"
| "replies C (GetCmd k) v resp = (case vctr v k of
     None \<Rightarrow> (\<exists>e. vr_ToString C resp = Err e \<and> vc_IsValkeyNil C e)
   | Some c \<Rightarrow> vr_ToString C resp = Ok (FormatInt c))"
| "replies C (SmembersCmd k) v resp =
     (\<exists>ms. vr_AsStrSlice C resp = Ok ms \<and> set ms = vset v k \<and> distinct ms)"
| "replies C c v resp = (vr_Error C resp = None)"

text \<open>A result that reports an error other than a nil reply, whichever way it is read.\<close>

definition reports :: "('s, 'r) valkey_client \<Rightarrow> 'r \<Rightarrow> error \<Rightarrow> bool" where
  "reports C resp e \<longleftrightarrow> \<not> vc_IsValkeyNil C e \<and> vr_Error C resp = Some e \<and> vr_AsInt64 C resp = Err e
     \<and> vr_AsStrMap C resp = Err e \<and> vr_ToString C resp = Err e \<and> vr_AsStrSlice C resp = Err e"

text \<open>A command was executed and answered, or failed before or after it was executed.\<close>

definition outcome :: "('s, 'r) valkey_client \<Rightarrow> ('s \<Rightarrow> view) \<Rightarrow> command \<Rightarrow> 's \<Rightarrow> 'r \<Rightarrow> 's \<Rightarrow> bool" where
  "outcome C vw c s resp t \<longleftrightarrow> (well_kinded c \<longrightarrow>
     replies C c (vw s) resp \<and> vw t = effect c (vw s)
     \<or> (\<exists>e. reports C resp e) \<and> vw t \<in> {vw s, effect c (vw s)})"

fun outcomes :: "('s, 'r) valkey_client \<Rightarrow> ('s \<Rightarrow> view) \<Rightarrow> command list \<Rightarrow> 's \<Rightarrow> 'r list \<Rightarrow> 's \<Rightarrow> bool" where
  "outcomes C vw [] s resps t \<longleftrightarrow> resps = [] \<and> vw t = vw s"
| "outcomes C vw (c # cs) s resps t \<longleftrightarrow> (\<exists>resp rest u. resps = resp # rest
     \<and> outcome C vw c s resp u \<and> outcomes C vw cs u rest t)"

text \<open>What the client returns of the value a script returned.\<close>

fun script_reply :: "('s, 'r) valkey_client \<Rightarrow> lua_value res \<Rightarrow> 'r \<Rightarrow> bool" where
  "script_reply C (Ok (LuaNumber n)) resp = (vr_AsInt64 C resp = Ok n)"
| "script_reply C (Ok (LuaString x)) resp = (vr_AsInt64 C resp = ParseInt x)"
| "script_reply C r resp = (\<exists>e. vr_AsInt64 C resp = Err e)"

text \<open>
  The calls inside a script cannot lose the connection; a script that the server refuses, for want of
  memory for instance, is a call of \<open>Exec\<close> that failed with nothing done.
\<close>

locale valkey_client =
  fixes C :: "('s, 'r) valkey_client" and R :: "'s redis_calls" and vw :: "'s \<Rightarrow> view"
  assumes Do_law: "\<And>c s resp t. vc_Do C c s = (resp, t) \<Longrightarrow> outcome C vw c s resp t"
    and DoMulti_law: "\<And>cs s resps t. vc_DoMulti C cs s = (resps, t) \<Longrightarrow> outcomes C vw cs s resps t"
    and HGET_law: "\<And>k f s r t. rc_HGET R k f s = (r, t) \<Longrightarrow> kind_of k = HashKey \<Longrightarrow> vw t = vw s
      \<and> r = Ok (case fmlookup (vhash (vw s) k) f of None \<Rightarrow> LuaFalse | Some x \<Rightarrow> LuaString x)"
    and HSET_law: "\<And>k f x s r t. rc_HSET R k f x s = (r, t) \<Longrightarrow> kind_of k = HashKey \<Longrightarrow>
      vw t = v_hset k (fmupd f x fmempty) (vw s) \<and> (\<exists>n. r = Ok (LuaNumber n))"
    and HINCRBY_law: "\<And>k f n c s r t. rc_HINCRBY R k f n s = (r, t) \<Longrightarrow> kind_of k = HashKey \<Longrightarrow>
      fmlookup (vhash (vw s) k) f = Some (FormatInt c) \<Longrightarrow> sint c + sint n < 2 ^ 63 \<Longrightarrow> 0 \<le> sint n \<Longrightarrow>
      vw t = v_hset k (fmupd f (FormatInt (c + n)) fmempty) (vw s) \<and> r = Ok (LuaNumber (c + n))"
    and Exec_law: "\<And>f keys argv s resp t. vc_Exec C f keys argv s = (resp, t) \<Longrightarrow>
      \<exists>r u. f keys argv s = (r, u) \<and> (script_reply C r resp \<and> vw t = vw u
        \<or> (\<exists>e. reports C resp e) \<and> vw t \<in> {vw s, vw u})"

section \<open>Lemmas\<close>

lemma v_setbits_simps [simp]:
  "v_setbits k {} v = v" "v_setbits k B (v_setbits k A v) = v_setbits k (A \<union> B) v"
  by (simp_all add: v_setbits_def Un_assoc)

lemma v_hset_empty [simp]: "v_hset k fmempty v = v"
  by (simp add: v_hset_def)

lemma v_hset_twice [simp]: "v_hset k b (v_hset k a v) = v_hset k (fmadd a b) v"
  by (simp add: v_hset_def fmadd_assoc)

lemma fmlookup_fold_fmupd:
  "distinct (map fst fvs) \<Longrightarrow> fmlookup (fold (\<lambda>(f, x). fmupd f x) fvs m) k
     = (case map_of fvs k of None \<Rightarrow> fmlookup m k | Some x \<Rightarrow> Some x)"
proof (induction fvs arbitrary: m)
  case (Cons p fvs)
  obtain f x where p: "p = (f, x)" by (cases p)
  have "map_of fvs f = None" using Cons.prems by (simp add: p map_of_eq_None_iff)
  then show ?case using Cons by (auto simp: p split: option.split)
qed simp

lemma fold_fmupd_add:
  "fold (\<lambda>(f, x). fmupd f x) fvs m = fmadd m (fold (\<lambda>(f, x). fmupd f x) fvs fmempty)"
proof (induction fvs arbitrary: m)
  case (Cons p fvs)
  obtain f x where p: "p = (f, x)" by (cases p)
  have "fmadd m (fmadd (fmupd f x fmempty) n) = fmadd (fmupd f x m) n" for n
    by (rule fmap_ext) simp
  then show ?case using Cons [of "fmupd f x m"] Cons [of "fmupd f x fmempty"] by (simp add: p)
qed simp

lemma range_fields_distinct: "distinct (map fst (range_fields ord fs))"
  unfolding range_fields_def
  by (rule distinct_keys_visit)
    (simp add: sorted_list_of_fmap_def comp_def sorted_list_of_fset.rep_eq)

lemma range_fields_fold: "fold (\<lambda>(f, x). fmupd f x) (range_fields ord fs) fmempty = fs"
proof (rule fmap_ext)
  fix k
  have "set (range_fields ord fs) = {(k, x). fmlookup fs k = Some x}"
    by (auto simp: range_fields_def sorted_list_of_fmap_def image_iff fmlookup_dom_iff
        sorted_list_of_fset.rep_eq)
  then have "map_of (range_fields ord fs) k = fmlookup fs k"
    using range_fields_distinct [of ord fs]
    by (cases "fmlookup fs k") (auto simp: map_of_eq_None_iff)
  then show "fmlookup (fold (\<lambda>(f, x). fmupd f x) (range_fields ord fs) fmempty) k = fmlookup fs k"
    by (simp add: fmlookup_fold_fmupd range_fields_distinct split: option.split)
qed

lemma startSpan_cases:
  assumes "startSpan op c (sp, s) = (r, spt)"
  obtains t where "c s = (r, t)" "snd spt = t"
  using assms by (auto simp: startSpan_def split: prod.splits)

lemma reports_simps [simp]:
  assumes "reports C resp e"
  shows "errorOf C resp = Err e" "vr_AsInt64 C resp = Err e" "orNil C d (vr_AsStrMap C resp) = Err e"
    "orNil C d' (bindR (vr_ToString C resp) g) = Err e" "orNil C d'' (vr_AsStrSlice C resp) = Err e"
  using assms by (simp_all add: reports_def errorOf_def orNil_def)

lemma parse_simps [simp]:
  "vr_Error C resp = None \<Longrightarrow> errorOf C resp = Ok ()" "orNil C d (Ok x) = Ok x"
  "vc_IsValkeyNil C e \<Longrightarrow> orNil C d (Err e) = Ok d"
  by (simp_all add: errorOf_def orNil_def)

lemma outcomes_setbit:
  assumes "outcomes C vw (map (\<lambda>off. SetbitCmd k off 1) os) s resps t" "kind_of k = BitKey"
  shows "setbits_loop C resps = Ok () \<and> vw t = v_setbits k (set os) (vw s)
    \<or> (\<exists>e os'. setbits_loop C resps = Err e \<and> os' \<subseteq> set os \<and> vw t = v_setbits k os' (vw s))"
  using assms(1)
proof (induction os arbitrary: s resps)
  case (Cons o' os)
  then obtain resp rest u where c: "resps = resp # rest" "outcome C vw (SetbitCmd k o' 1) s resp u"
      "outcomes C vw (map (\<lambda>off. SetbitCmd k off 1) os) u rest t" by auto
  note IH = Cons.IH [OF c(3)]
  from c(2) assms(2) consider (ok) "vr_Error C resp = None" "vw u = v_setbits k {o'} (vw s)"
    | (err) e where "reports C resp e" "vw u = vw s \<or> vw u = v_setbits k {o'} (vw s)"
    by (auto simp: outcome_def)
  then show ?case
  proof cases
    case ok
    then have "setbits_loop C resps = setbits_loop C rest" by (simp add: errorOf_def c(1))
    with IH consider (all) "setbits_loop C resps = Ok ()" "vw t = v_setbits k (set os) (vw u)"
      | (some) e os' where "setbits_loop C resps = Err e" "os' \<subseteq> set os" "vw t = v_setbits k os' (vw u)"
      by auto
    then show ?thesis
    proof cases
      case all
      then show ?thesis using ok(2) by simp
    next
      case some
      then have "insert o' os' \<subseteq> set (o' # os)" "vw t = v_setbits k (insert o' os') (vw s)"
        using ok(2) by auto
      then show ?thesis using some(1) by blast
    qed
  next
    case err
    have "\<exists>os'. os' \<subseteq> set os \<and> vw t = v_setbits k os' (vw u)" using IH by auto
    then obtain os' where os': "os' \<subseteq> set os" "vw t = v_setbits k os' (vw u)" by blast
    then have "os' \<subseteq> set (o' # os) \<and> insert o' os' \<subseteq> set (o' # os)
        \<and> (vw t = v_setbits k os' (vw s) \<or> vw t = v_setbits k (insert o' os') (vw s))"
      using err(2) by auto
    moreover have "setbits_loop C resps = Err (Errorf ''valkeystore: setbit: '' e)"
      using err(1) c(1) by simp
    ultimately show ?thesis by metis
  qed
qed simp

lemma outcomes_getbit:
  assumes "outcomes C vw (map (GetbitCmd k) os) s resps t" "kind_of k = BitKey"
    and "length result = i + length os"
  shows "vw t = vw s \<and> (getbits_loop C i result resps
      = Ok (take i result @ map (\<lambda>o'. o' \<in> vbits (vw s) k) os)
    \<or> (\<exists>e. getbits_loop C i result resps = Err e))"
  using assms(1,3)
proof (induction os arbitrary: s resps i result)
  case (Cons o' os)
  then obtain resp rest u where c: "resps = resp # rest" "outcome C vw (GetbitCmd k o') s resp u"
      "outcomes C vw (map (GetbitCmd k) os) u rest t" by auto
  have u: "vw u = vw s" using c(2) assms(2) by (auto simp: outcome_def)
  have len: "length (result[i := b]) = Suc i + length os" for b using Cons.prems(2) by simp
  note IH = Cons.IH [OF c(3) len]
  from c(2) assms(2) consider (ok) "vr_AsInt64 C resp = Ok (if o' \<in> vbits (vw s) k then 1 else 0)"
    | (err) e where "reports C resp e"
    by (auto simp: outcome_def)
  then show ?case
  proof cases
    case ok
    have "take (Suc i) (result[i := b]) = take i result @ [b]" for b
      using Cons.prems(2) by (simp add: take_Suc_conv_app_nth)
    then show ?thesis using IH [of "o' \<in> vbits (vw s) k"] ok c(1) u Cons.prems(2) by auto
  next
    case err
    then show ?thesis using IH c(1) u by auto
  qed
qed auto

section \<open>The contract\<close>

context valkey_client
begin

lemma Do_cases:
  assumes "doCmd C c parse s = (r, t)" "well_kinded c"
  obtains (ok) resp where "replies C c (vw s) resp" "vw t = effect c (vw s)" "r = parse resp"
    | (err) resp e where "reports C resp e" "vw t \<in> {vw s, effect c (vw s)}" "r = parse resp"
proof -
  obtain resp u where "vc_Do C c s = (resp, u)" by fastforce
  with Do_law [OF this] assms that show ?thesis by (auto simp: doCmd_def outcome_def)
qed

lemma lua_hset_loop_law:
  assumes "kind_of k = HashKey"
  shows "lua_hset_loop R k (concat (map (\<lambda>(f, x). [f, x]) fvs)) s = (r, t) \<Longrightarrow>
     r = Ok () \<and> vw t = v_hset k (fold (\<lambda>(f, x). fmupd f x) fvs fmempty) (vw s)"
proof (induction fvs arbitrary: s)
  case (Cons p fvs)
  obtain f x where p: "p = (f, x)" by (cases p)
  obtain r1 u where set: "rc_HSET R k f x s = (r1, u)" by fastforce
  from HSET_law [OF this assms] obtain n where u: "vw u = v_hset k (fmupd f x fmempty) (vw s)"
      "r1 = Ok (LuaNumber n)" by auto
  then have "lua_hset_loop R k (concat (map (\<lambda>(f, x). [f, x]) fvs)) u = (r, t)"
    using Cons.prems set by (simp add: p)
  from Cons.IH [OF this] show ?case
    using u(1) fold_fmupd_add [of fvs "fmupd f x fmempty"] by (simp add: p)
qed simp

lemma appendStageLua_win:
  assumes "appendStageLua R [mk, nk] (FormatInt x # concat (map (\<lambda>(f, x). [f, x]) fvs)) s = (r, t)"
    and "kind_of mk = HashKey" "kind_of nk = HashKey" "nk \<noteq> mk"
    and "fmlookup (vhash (vw s) mk) ''stage_count'' = Some (FormatInt x)" "sint x < 2 ^ 63 - 1"
  shows "r = Ok (LuaNumber (x + 1)) \<and> vw t = v_append mk x
      (fmadd (vhash (vw s) nk) (fold (\<lambda>(f, x). fmupd f x) fvs fmempty)) nk (vw s)"
proof -
  obtain r1 s1 where get: "rc_HGET R mk ''stage_count'' s = (r1, s1)" by fastforce
  then have g: "vw s1 = vw s" "r1 = Ok (LuaString (FormatInt x))"
    using HGET_law [OF get assms(2)] assms(5) by auto
  obtain r2 s2 where loop: "lua_hset_loop R nk (concat (map (\<lambda>(f, x). [f, x]) fvs)) s1 = (r2, s2)"
    by fastforce
  note l = lua_hset_loop_law [OF assms(3) loop]
  have "fmlookup (vhash (vw s2) mk) ''stage_count'' = Some (FormatInt x)"
    using l g(1) assms(4,5) by (simp add: v_hset_def)
  moreover obtain r3 s3 where inc: "rc_HINCRBY R mk ''stage_count'' 1 s2 = (r3, s3)" by fastforce
  ultimately have "vw s3 = v_hset mk (fmupd ''stage_count'' (FormatInt (x + 1)) fmempty) (vw s2)
      \<and> r3 = Ok (LuaNumber (x + 1))"
    using HINCRBY_law [OF inc assms(2)] assms(6) by simp
  then show ?thesis
    using assms(1,4) get g loop l inc
    by (auto simp: appendStageLua_def v_hset_def v_append_def fun_eq_iff)
qed

lemma appendStageLua_other:
  assumes "appendStageLua R [mk, nk] (FormatInt x # args) s = (r, t)" "kind_of mk = HashKey"
    and "fmlookup (vhash (vw s) mk) ''stage_count'' \<noteq> Some (FormatInt x)"
  shows "vw t = vw s \<and> r = Ok (case fmlookup (vhash (vw s) mk) ''stage_count'' of
      None \<Rightarrow> LuaFalse | Some c \<Rightarrow> LuaString c)"
proof -
  obtain r1 s1 where get: "rc_HGET R mk ''stage_count'' s = (r1, s1)" by fastforce
  obtain r2 s2 where get2: "rc_HGET R mk ''stage_count'' s1 = (r2, s2)" by fastforce
  show ?thesis
    using assms get get2 HGET_law [OF get assms(2)] HGET_law [OF get2 assms(2)]
    by (auto simp: appendStageLua_def split: option.splits)
qed

lemma ValkeyStore_sel [simp]:
  "SetBits (ValkeyStore C R ord) = vs_SetBits C" "GetBits (ValkeyStore C R ord) = vs_GetBits C"
  "HGetAll (ValkeyStore C R ord) = vs_HGetAll C" "HSet (ValkeyStore C R ord) = vs_HSet C ord"
  "Incr (ValkeyStore C R ord) = vs_Incr C" "Get (ValkeyStore C R ord) = vs_Get C"
  "SAdd (ValkeyStore C R ord) = vs_SAdd C" "SRem (ValkeyStore C R ord) = vs_SRem C"
  "SMembers (ValkeyStore C R ord) = vs_SMembers C" "Del (ValkeyStore C R ord) = vs_Del C"
  "AppendStage (ValkeyStore C R ord) = vs_AppendStage C R ord"
  by (simp_all add: ValkeyStore_def)

lemma vs_AppendStage_cases:
  assumes "vs_AppendStage C R ord mk x fs nk (sp, s) = (r, spt)"
  obtains resp t r' u where "snd spt = t" "r = wrapR ''valkeystore: append stage: '' (vr_AsInt64 C resp)"
    "appendStageLua R [mk, nk] (FormatInt x # concat (map (\<lambda>(f, v). [f, v]) (range_fields ord fs))) s = (r', u)"
    "script_reply C r' resp \<and> vw t = vw u \<or> (\<exists>e. reports C resp e) \<and> vw t \<in> {vw s, vw u}"
proof -
  let ?args = "FormatInt x # concat (map (\<lambda>(f, v). [f, v]) (range_fields ord fs))"
  obtain resp t where ex: "vc_Exec C (appendStageLua R) [mk, nk] ?args s = (resp, t)" by fastforce
  from Exec_law [OF this] obtain r' u where
    "appendStageLua R [mk, nk] ?args s = (r', u)"
    "script_reply C r' resp \<and> vw t = vw u \<or> (\<exists>e. reports C resp e) \<and> vw t \<in> {vw s, vw u}"
    by blast
  moreover have "snd spt = t" "r = wrapR ''valkeystore: append stage: '' (vr_AsInt64 C resp)"
    using assms ex by (auto simp: vs_AppendStage_def startSpan_def)
  ultimately show ?thesis using that by blast
qed

text \<open>The laws of \<open>BitStore\<close>, method by method, over the view of the server's data.\<close>

abbreviation svw :: "valkey_spans \<times> 's \<Rightarrow> view" where
  "svw st \<equiv> vw (snd st)"

lemma vs_SetBits_law:
  assumes "vs_SetBits C k os st = (r, t)" "kind_of k = BitKey"
  shows "(r = Ok () \<and> svw t = v_setbits k (set os) (svw st))
    \<or> (\<exists>e os'. r = Err e \<and> os' \<subseteq> set os \<and> svw t = v_setbits k os' (svw st))"
proof (cases "os = []")
  case False
  obtain resps u where run: "vc_DoMulti C (map (\<lambda>off. SetbitCmd k off 1) os) (snd st) = (resps, u)"
    by fastforce
  have "r = setbits_loop C resps" "snd t = u"
    using assms(1) False run by (cases st; auto simp: vs_SetBits_def startSpan_def)+
  then show ?thesis using outcomes_setbit [OF DoMulti_law [OF run] assms(2)] by simp
qed (use assms(1) in \<open>auto simp: vs_SetBits_def\<close>)

lemma vs_GetBits_law:
  assumes "vs_GetBits C k os st = (r, t)" "kind_of k = BitKey"
  shows "svw t = svw st \<and> (r = Ok (map (\<lambda>o'. o' \<in> vbits (svw st) k) os) \<or> (\<exists>e. r = Err e))"
proof (cases "os = []")
  case False
  obtain resps u where run: "vc_DoMulti C (map (GetbitCmd k) os) (snd st) = (resps, u)" by fastforce
  have "r = getbits_loop C 0 (replicate (length os) False) resps" "snd t = u"
    using assms(1) False run by (cases st; auto simp: vs_GetBits_def startSpan_def)+
  then show ?thesis
    using outcomes_getbit [OF DoMulti_law [OF run] assms(2), of "replicate (length os) False" 0] by simp
qed (use assms(1) in \<open>auto simp: vs_GetBits_def\<close>)

lemma span_Do_cases:
  assumes "startSpan op (doCmd C c parse) st = (r, t)" "well_kinded c"
  obtains (ok) resp where "replies C c (svw st) resp" "svw t = effect c (svw st)" "r = parse resp"
    | (err) resp e where "reports C resp e" "svw t \<in> {svw st, effect c (svw st)}" "r = parse resp"
  using assms
  by (cases st) (fastforce elim!: startSpan_cases elim: Do_cases [OF _ assms(2)])

lemma vs_reads_laws:
  "vs_HGetAll C k st = (r, t) \<Longrightarrow> kind_of k = HashKey \<Longrightarrow>
     svw t = svw st \<and> (r = Ok (vhash (svw st) k) \<or> (\<exists>e. r = Err e))"
  "vs_Get C k st = (r', t) \<Longrightarrow> kind_of k = CounterKey \<Longrightarrow> svw t = svw st
     \<and> (r' = Ok (case vctr (svw st) k of None \<Rightarrow> ([], False) | Some c \<Rightarrow> (FormatInt c, True))
        \<or> (\<exists>e. r' = Err e))"
  "vs_SMembers C k st = (r'', t) \<Longrightarrow> kind_of k = SetKey \<Longrightarrow> svw t = svw st
     \<and> ((\<exists>ms. r'' = Ok ms \<and> set ms = vset (svw st) k \<and> distinct ms) \<or> (\<exists>e. r'' = Err e))"
  unfolding vs_HGetAll_def vs_Get_def vs_SMembers_def
  by (elim span_Do_cases; auto split: option.splits)+

lemma vs_HSet_law:
  "vs_HSet C ord k fs st = (r, t) \<Longrightarrow> kind_of k = HashKey \<Longrightarrow>
     (r = Ok () \<and> svw t = v_hset k fs (svw st))
     \<or> ((\<exists>e. r = Err e) \<and> svw t \<in> {svw st, v_hset k fs (svw st)})"
  unfolding vs_HSet_def
  by (cases "fs = fmempty")
    (auto elim!: span_Do_cases simp: range_fields_fold)

lemma vs_Incr_law:
  "vs_Incr C k st = (r, t) \<Longrightarrow> kind_of k = CounterKey \<Longrightarrow>
     (r = Ok (ctr_next (vctr (svw st) k)) \<and> svw t = v_incr k (svw st))
     \<or> ((\<exists>e. r = Err e) \<and> svw t \<in> {svw st, v_incr k (svw st)})"
  unfolding vs_Incr_def by (auto elim!: span_Do_cases)

lemma v_nothing [simp]: "v_sadd k [] v = v" "v_srem k [] v = v" "v_del [] v = v"
  by (simp_all add: v_sadd_def v_srem_def v_del_def)

lemma vs_set_laws:
  "vs_SAdd C k ms st = (r, t) \<Longrightarrow> kind_of k = SetKey \<Longrightarrow>
     (r = Ok () \<and> svw t = v_sadd k ms (svw st))
     \<or> ((\<exists>e. r = Err e) \<and> svw t \<in> {svw st, v_sadd k ms (svw st)})"
  "vs_SRem C k ms st = (r, t) \<Longrightarrow> kind_of k = SetKey \<Longrightarrow>
     (r = Ok () \<and> svw t = v_srem k ms (svw st))
     \<or> ((\<exists>e. r = Err e) \<and> svw t \<in> {svw st, v_srem k ms (svw st)})"
  "vs_Del C ks st = (r, t) \<Longrightarrow>
     (r = Ok () \<and> svw t = v_del ks (svw st))
     \<or> ((\<exists>e. r = Err e) \<and> svw t \<in> {svw st, v_del ks (svw st)})"
  unfolding vs_SAdd_def vs_SRem_def vs_Del_def
  by (auto elim!: span_Do_cases split: if_splits)

lemma vs_Append_win:
  assumes "vs_AppendStage C R ord mk x fs nk st = (r, t)" "kind_of mk = HashKey" "kind_of nk = HashKey"
    and "nk \<noteq> mk" "fmlookup (vhash (svw st) mk) ''stage_count'' = Some (FormatInt x)"
    and "sint x < 2 ^ 63 - 1"
  shows "(\<exists>h. fmsubset fs h \<and> svw t = v_append mk x h nk (svw st) \<and> (r = Ok (x + 1) \<or> (\<exists>e. r = Err e)))
    \<or> svw t = svw st \<and> (\<exists>e. r = Err e)"
proof -
  obtain sp s where st: "st = (sp, s)" by (cases st)
  obtain resp u r' v where c: "snd t = u" "r = wrapR ''valkeystore: append stage: '' (vr_AsInt64 C resp)"
      "appendStageLua R [mk, nk] (FormatInt x # concat (map (\<lambda>(f, v). [f, v]) (range_fields ord fs))) s = (r', v)"
      "script_reply C r' resp \<and> vw u = vw v \<or> (\<exists>e. reports C resp e) \<and> vw u \<in> {vw s, vw v}"
    using vs_AppendStage_cases [OF assms(1) [unfolded st]] by metis
  let ?h = "fmadd (vhash (vw s) nk) fs"
  have v: "r' = Ok (LuaNumber (x + 1))" "vw v = v_append mk x ?h nk (vw s)"
    using appendStageLua_win [OF c(3) assms(2-4)] assms(5,6) st by (simp_all add: range_fields_fold)
  moreover have "fmsubset fs ?h"
    by (auto simp: fmsubset.rep_eq map_le_def fmlookup_dom'_iff)
  ultimately show ?thesis using c(1,2,4) st by auto
qed

lemma vs_Append_other:
  assumes "vs_AppendStage C R ord mk x fs nk st = (r, t)" "kind_of mk = HashKey"
    and "fmlookup (vhash (svw st) mk) ''stage_count'' = o'" "o' \<noteq> Some (FormatInt x)"
  shows "svw t = svw st \<and> ((\<exists>c. o' = Some c \<and> r = wrapR ''valkeystore: append stage: '' (ParseInt c))
    \<or> (\<exists>e. r = Err e))"
proof -
  obtain sp s where st: "st = (sp, s)" by (cases st)
  obtain resp u r' v where c: "snd t = u" "r = wrapR ''valkeystore: append stage: '' (vr_AsInt64 C resp)"
      "appendStageLua R [mk, nk] (FormatInt x # concat (map (\<lambda>(f, v). [f, v]) (range_fields ord fs))) s = (r', v)"
      "script_reply C r' resp \<and> vw u = vw v \<or> (\<exists>e. reports C resp e) \<and> vw u \<in> {vw s, vw v}"
    using vs_AppendStage_cases [OF assms(1) [unfolded st]] by metis
  have "vw v = vw s" "r' = Ok (case o' of None \<Rightarrow> LuaFalse | Some c \<Rightarrow> LuaString c)"
    using appendStageLua_other [OF c(3) assms(2)] assms(3,4) st by auto
  then show ?thesis using c(1,2,4) st by (cases o') auto
qed

end

sublocale valkey_client \<subseteq> store: bit_store "ValkeyStore C R ord" "\<lambda>st. vw (snd st)" True for ord
proof (unfold_locales, goal_cases)
  case (11 mk x fs nk s r t)
  then show ?case using vs_Append_win [of ord mk x fs nk s r t] by simp
next
  case (12 mk x fs nk s r t c)
  then show ?case using vs_Append_other [of ord mk x fs nk s r t "Some (FormatInt c)"] by auto
next
  case (13 mk x fs nk s r t)
  then show ?case using vs_Append_other [of ord mk x fs nk s r t None] by auto
qed (auto dest: vs_SetBits_law vs_GetBits_law vs_reads_laws vs_HSet_law vs_Incr_law vs_set_laws)

context valkey_client
begin

lemma valkey_contract: "bit_store (ValkeyStore C R ord) (\<lambda>st. vw (snd st)) True"
  by (rule store.bit_store_axioms)

end

end
