(* ===== verification/ValkeyServer.thy ===== *)
theory ValkeyServer
  imports Valkey MemStore
begin

text \<open>
  A server and a client that behave as documented, over the data of the in-memory store: the instance
  that shows the contract of the Valkey client can be met. The connection breaks after a given number
  of calls, and from then on every call reports an error.
\<close>

datatype resp = RespNil | RespInt i64 | RespString string | RespMap fields | RespArray "string list"
  | RespError string

type_synonym server = "nat \<times> memstore"

definition valkey_nil :: error where
  "valkey_nil = ErrorText ''valkey nil message''"

fun resp_error :: "resp \<Rightarrow> error option" where
  "resp_error RespNil = Some valkey_nil"
| "resp_error (RespError e) = Some (Errorf ''valkey: '' (ErrorText e))"
| "resp_error r = None"

definition resp_as :: "(resp \<Rightarrow> 'a res) \<Rightarrow> resp \<Rightarrow> 'a res" where
  "resp_as f r = (case resp_error r of Some e \<Rightarrow> Err e | None \<Rightarrow> f r)"

fun resp_int :: "resp \<Rightarrow> i64 res" where
  "resp_int (RespInt n) = Ok n"
| "resp_int (RespString s) = ParseInt s"
| "resp_int r = Err (ErrorText ''valkey: unexpected reply'')"

fun resp_map :: "resp \<Rightarrow> fields res" where
  "resp_map (RespMap m) = Ok m"
| "resp_map r = Err (ErrorText ''valkey: unexpected reply'')"

fun resp_string :: "resp \<Rightarrow> string res" where
  "resp_string (RespString s) = Ok s"
| "resp_string r = Err (ErrorText ''valkey: unexpected reply'')"

fun resp_array :: "resp \<Rightarrow> string list res" where
  "resp_array (RespArray xs) = Ok xs"
| "resp_array r = Err (ErrorText ''valkey: unexpected reply'')"

definition resp_of :: "('a \<Rightarrow> resp) \<Rightarrow> 'a res \<Rightarrow> resp" where
  "resp_of f r = (case r of Ok x \<Rightarrow> f x | _ \<Rightarrow> RespError ''ERR'')"

fun execute :: "command \<Rightarrow> memstore \<Rightarrow> resp \<times> memstore" where
  "execute PingCmd m = (RespString ''PONG'', m)"
| "execute (SetbitCmd k off x) m = map_prod (\<lambda>_. RespInt (if mem_bit m k off then 1 else 0)) id (mem_SetBits k [off] m)"
| "execute (GetbitCmd k off) m = (RespInt (if mem_bit m k off then 1 else 0), m)"
| "execute (HgetallCmd k) m = map_prod (resp_of RespMap) id (mem_HGetAll k m)"
| "execute (HsetCmd k fvs) m = map_prod (resp_of (\<lambda>_. RespInt (word_of_nat (length fvs)))) id
     (mem_HSet k (fold (\<lambda>(f, x). fmupd f x) fvs fmempty) m)"
| "execute (IncrCmd k) m = map_prod (resp_of RespInt) id (mem_Incr k m)"
| "execute (GetCmd k) m = map_prod (resp_of (\<lambda>(v, ok). if ok then RespString v else RespNil)) id (mem_Get k m)"
| "execute (SaddCmd k ms) m = map_prod (resp_of (\<lambda>_. RespInt (word_of_nat (length ms)))) id (mem_SAdd k ms m)"
| "execute (SremCmd k ms) m = map_prod (resp_of (\<lambda>_. RespInt (word_of_nat (length ms)))) id (mem_SRem k ms m)"
| "execute (SmembersCmd k) m = map_prod (resp_of RespArray) id (mem_SMembers id k m)"
| "execute (DelCmd ks) m = map_prod (resp_of (\<lambda>_. RespInt (word_of_nat (length ks)))) id (mem_Del ks m)"

fun ref_Do :: "command \<Rightarrow> server \<Rightarrow> resp \<times> server" where
  "ref_Do c (0, m) = (RespError ''connection refused'', (0, m))"
| "ref_Do c (Suc n, m) = (case execute c m of (r, m') \<Rightarrow> (r, (n, m')))"

fun ref_DoMulti :: "command list \<Rightarrow> server \<Rightarrow> resp list \<times> server" where
  "ref_DoMulti [] s = ([], s)"
| "ref_DoMulti (c # cs) s = (case ref_Do c s of (r, t) \<Rightarrow>
     case ref_DoMulti cs t of (rs, u) \<Rightarrow> (r # rs, u))"

fun resp_of_lua :: "lua_value \<Rightarrow> resp" where
  "resp_of_lua LuaFalse = RespNil"
| "resp_of_lua (LuaString s) = RespString s"
| "resp_of_lua (LuaNumber n) = RespInt n"

fun ref_Exec :: "server script \<Rightarrow> string list \<Rightarrow> string list \<Rightarrow> server \<Rightarrow> resp \<times> server" where
  "ref_Exec f keys argv (0, m) = (RespError ''connection refused'', (0, m))"
| "ref_Exec f keys argv (Suc n, m) = (case f keys argv (Suc n, m) of (r, t) \<Rightarrow> (resp_of resp_of_lua r, t))"

definition refClient :: "(server, resp) valkey_client" where
  "refClient = \<lparr>vc_Do = ref_Do, vc_DoMulti = ref_DoMulti, vc_Exec = ref_Exec, vr_Error = resp_error,
     vr_AsInt64 = resp_as resp_int, vr_AsStrMap = resp_as resp_map, vr_ToString = resp_as resp_string,
     vr_AsStrSlice = resp_as resp_array, vc_IsValkeyNil = (\<lambda>e. e = valkey_nil)\<rparr>"

definition ref_HGET :: "string \<Rightarrow> string \<Rightarrow> (server, lua_value) call" where
  "ref_HGET k f = (\<lambda>(n, m). (Ok (case fmlookup (vhash (mem_view m) k) f of
     None \<Rightarrow> LuaFalse | Some x \<Rightarrow> LuaString x), (n, m)))"

definition ref_HSET :: "string \<Rightarrow> string \<Rightarrow> string \<Rightarrow> (server, lua_value) call" where
  "ref_HSET k f x = (\<lambda>(n, m). case mem_HSet k (fmupd f x fmempty) m of
     (_, m') \<Rightarrow> (Ok (LuaNumber 1), (n, m')))"

definition ref_HINCRBY :: "string \<Rightarrow> string \<Rightarrow> i64 \<Rightarrow> (server, lua_value) call" where
  "ref_HINCRBY k f d = (\<lambda>(n, m).
     case (case fmlookup (vhash (mem_view m) k) f of None \<Rightarrow> Ok 0 | Some x \<Rightarrow> ParseInt x) of
       Ok c \<Rightarrow> if sint c + sint d < 2 ^ 63 \<and> - (2 ^ 63) \<le> sint c + sint d
         then (case mem_HSet k (fmupd f (FormatInt (c + d)) fmempty) m of
                 (_, m') \<Rightarrow> (Ok (LuaNumber (c + d)), (n, m')))
         else (Err (ErrorText ''ERR increment or decrement would overflow''), (n, m))
     | _ \<Rightarrow> (Err (ErrorText ''ERR hash value is not an integer''), (n, m)))"

definition refCalls :: "server redis_calls" where
  "refCalls = \<lparr>rc_HGET = ref_HGET, rc_HSET = ref_HSET, rc_HINCRBY = ref_HINCRBY\<rparr>"

section \<open>The documented behaviour\<close>

lemma refClient_sel [simp]:
  "vc_Do refClient = ref_Do" "vc_DoMulti refClient = ref_DoMulti" "vc_Exec refClient = ref_Exec"
  "vr_Error refClient = resp_error" "vr_AsInt64 refClient = resp_as resp_int"
  "vr_AsStrMap refClient = resp_as resp_map" "vr_ToString refClient = resp_as resp_string"
  "vr_AsStrSlice refClient = resp_as resp_array" "vc_IsValkeyNil refClient e = (e = valkey_nil)"
  "rc_HGET refCalls = ref_HGET" "rc_HSET refCalls = ref_HSET" "rc_HINCRBY refCalls = ref_HINCRBY"
  by (simp_all add: refClient_def refCalls_def)

lemma refused: "\<exists>e. reports refClient (RespError msg) e"
  by (simp add: reports_def resp_as_def valkey_nil_def)

lemma execute_law: "execute c m = (r, m') \<Longrightarrow> well_kinded c \<Longrightarrow>
    replies refClient c (mem_view m) r \<and> mem_view m' = effect c (mem_view m)"
  by (cases c) (auto dest!: mem_view_SetBits mem_view_HSet mem_view_Incr mem_view_SAdd mem_view_SRem
      mem_view_Del simp: map_prod_def resp_of_def resp_as_def mem_HGetAll_def mem_Get_def mem_SMembers_def
      split: prod.splits option.splits if_splits, auto simp: mem_view_def)

definition ref_view :: "server \<Rightarrow> view" where
  "ref_view s = mem_view (snd s)"

lemma ref_Do_law:
  assumes "ref_Do c s = (r, t)"
  shows "outcome refClient ref_view c s r t"
proof (cases s)
  case (Pair n m)
  show ?thesis
  proof (cases n)
    case 0
    then show ?thesis using assms refused Pair by (auto simp: outcome_def)
  next
    case (Suc n')
    then obtain m' where "execute c m = (r, m')" "t = (n', m')"
      using assms Pair by (auto split: prod.splits)
    then show ?thesis using execute_law Pair by (auto simp: outcome_def ref_view_def)
  qed
qed

lemma ref_DoMulti_law: "ref_DoMulti cs s = (rs, t) \<Longrightarrow> outcomes refClient ref_view cs s rs t"
proof (induction cs arbitrary: s rs)
  case (Cons c cs)
  obtain r u where "ref_Do c s = (r, u)" by (metis surj_pair)
  moreover obtain rest where "ref_DoMulti cs u = (rest, t)" "rs = r # rest"
    using Cons.prems calculation by (auto split: prod.splits)
  ultimately have "rs = r # rest \<and> outcome refClient ref_view c s r u
      \<and> outcomes refClient ref_view cs u rest t"
    using ref_Do_law Cons.IH by blast
  then show ?case unfolding outcomes.simps by blast
qed (simp add: ref_view_def)

lemma ref_script_reply: "script_reply refClient r (resp_of resp_of_lua r)"
proof (cases r)
  case (Ok x)
  then show ?thesis by (cases x) (simp_all add: resp_of_def resp_as_def)
qed (simp_all add: resp_of_def resp_as_def)

lemma ref_HSET_law: "ref_HSET k f x s = (r, t) \<Longrightarrow>
    ref_view t = v_hset k (fmupd f x fmempty) (ref_view s) \<and> r = Ok (LuaNumber 1)"
  by (cases s) (auto simp: ref_HSET_def ref_view_def dest!: mem_view_HSet split: prod.splits)

interpretation ref: valkey_client refClient refCalls ref_view
proof (unfold_locales, goal_cases)
  case (1 c s resp t)
  then show ?case using ref_Do_law by simp
next
  case (2 cs s resps t)
  then show ?case using ref_DoMulti_law by simp
next
  case (3 k f s r t)
  then show ?case by (cases s) (auto simp: ref_HGET_def ref_view_def)
next
  case (4 k f x s r t)
  then show ?case using ref_HSET_law [of k f x s r t] by simp
next
  case (5 k f n c s r t)
  have "- (2 ^ 63) \<le> sint c + sint n" using sint_range(1) [of c] 5(5) by simp
  with 5 show ?case
    by (cases s) (auto simp: ref_HINCRBY_def ref_view_def dest!: mem_view_HSet split: prod.splits)
next
  case (6 f keys argv s resp t)
  obtain n m where s: "s = (n, m)" by (cases s)
  obtain r u where run: "f keys argv s = (r, u)" by (metis surj_pair)
  show ?case
  proof (cases n)
    case 0
    then show ?thesis using 6 s run refused by auto
  next
    case (Suc n')
    then have "resp = resp_of resp_of_lua r" "t = u" using 6 s run by auto
    then show ?thesis using run ref_script_reply by blast
  qed
qed

section \<open>Racing appends\<close>

text \<open>Calls of \<open>AppendStage\<close> by handles that all expect the same count, each with its own stage.\<close>

fun appends :: "'s bitstore \<Rightarrow> string \<Rightarrow> i64 \<Rightarrow> string \<Rightarrow> fields list \<Rightarrow> 's \<Rightarrow> i64 res list \<times> 's" where
  "appends B mk x nk [] s = ([], s)"
| "appends B mk x nk (fs # fss) s = (case AppendStage B mk x fs nk s of (r, t) \<Rightarrow>
     case appends B mk x nk fss t of (rs, u) \<Rightarrow> (r # rs, u))"

lemma appends_length: "appends B mk x nk fss s = (rs, t) \<Longrightarrow> length rs = length fss"
  by (induction fss arbitrary: s rs) (auto split: prod.splits)

context bit_store
begin

lemma appends_after:
  assumes "appends B mk x nk fss s = (rs, t)" "kind_of mk = HashKey" "kind_of nk = HashKey"
    and "fmlookup (vhash (view s) mk) ''stage_count'' = Some (FormatInt (x + 1))"
  shows "view t = view s \<and> (\<forall>r \<in> set rs. r = Ok (x + 1) \<or> (\<exists>e. r = Err e))"
  using assms
proof (induction fss arbitrary: s rs)
  case (Cons fs fss)
  obtain r u rs' where c: "AppendStage B mk x fs nk s = (r, u)" "appends B mk x nk fss u = (rs', t)" "rs = r # rs'"
    using Cons.prems(1) by (auto split: prod.splits)
  have "x + 1 \<noteq> x" by simp
  then have u: "view u = view s \<and> (r = Ok (x + 1) \<or> (\<exists>e. r = Err e))"
    using AppendStage_lose [OF c(1) Cons.prems(2-4)] by blast
  then show ?case using Cons.IH [OF c(2) Cons.prems(2,3)] Cons.prems(4) c(3) by auto
qed simp

lemma appends_race:
  assumes "appends B mk x nk fss s = (rs, t)" "kind_of mk = HashKey" "kind_of nk = HashKey" "nk \<noteq> mk"
    and "fmlookup (vhash (view s) mk) ''stage_count'' = Some (FormatInt x)" "sint x < 2 ^ 63 - 1"
  shows "view t = view s \<and> (\<forall>r \<in> set rs. \<exists>e. r = Err e)
    \<or> (\<exists>before fs after rs1 r rs2 h. fss = before @ fs # after \<and> rs = rs1 @ r # rs2 \<and> length rs1 = length before
         \<and> fmsubset fs h \<and> view t = v_append mk x h nk (view s) \<and> (\<forall>r \<in> set rs1. \<exists>e. r = Err e)
         \<and> (\<forall>r \<in> set (r # rs2). r = Ok (x + 1) \<or> (\<exists>e. r = Err e)))"
  using assms
proof (induction fss arbitrary: s rs)
  case (Cons fs fss)
  obtain r u rs' where c: "AppendStage B mk x fs nk s = (r, u)" "appends B mk x nk fss u = (rs', t)" "rs = r # rs'"
    using Cons.prems(1) by (auto split: prod.splits)
  from AppendStage_win [OF c(1) Cons.prems(2-6)]
  consider (won) h where "fmsubset fs h" "view u = v_append mk x h nk (view s)" "r = Ok (x + 1) \<or> (\<exists>e. r = Err e)"
    | (failed) e where "view u = view s" "r = Err e" by blast
  then show ?case
  proof cases
    case won
    have "fmlookup (vhash (view u) mk) ''stage_count'' = Some (FormatInt (x + 1))"
      using Cons.prems(4) by (simp add: won(2) v_append_def)
    from appends_after [OF c(2) Cons.prems(2,3) this]
    have "view t = v_append mk x h nk (view s)" "\<forall>r \<in> set rs'. r = Ok (x + 1) \<or> (\<exists>e. r = Err e)"
      using won(2) by auto
    then show ?thesis using won(1,3) c(3)
      by (intro disjI2 exI [of _ "[]"] exI [of _ fs] exI [of _ fss] exI [of _ r] exI [of _ rs'] exI [of _ h]) auto
  next
    case failed
    from Cons.IH [OF c(2) Cons.prems(2-4)] failed Cons.prems(5,6)
    consider (none) "view t = view s" "\<forall>r \<in> set rs'. \<exists>e. r = Err e"
      | (later) before fs' after rs1 r' rs2 h where "fss = before @ fs' # after" "rs' = rs1 @ r' # rs2"
          "length rs1 = length before" "fmsubset fs' h" "view t = v_append mk x h nk (view s)"
          "\<forall>r \<in> set rs1. \<exists>e. r = Err e" "\<forall>r \<in> set (r' # rs2). r = Ok (x + 1) \<or> (\<exists>e. r = Err e)"
      by auto
    then show ?thesis
    proof cases
      case none
      then show ?thesis using failed(2) c(3) by auto
    next
      case later
      then show ?thesis using failed(2) c(3)
        by (intro disjI2 exI [of _ "fs # before"] exI [of _ fs'] exI [of _ after] exI [of _ "r # rs1"] exI [of _ r']
            exI [of _ rs2] exI [of _ h]) auto
    qed
  qed
qed simp

end


section \<open>Properties\<close>

text \<open>
  C23 \<open>ValkeyStore\<close> meets the contract of \<open>BitStore\<close>: over every client and server that behave as
  documented, failing at any call, its methods do what the interface promises, pipelines and the Lua
  script of \<open>AppendStage\<close> included. What is proved of the filter on any \<open>bit_store\<close> holds on it.
\<close>

theorem valkey_meets_contract:
  assumes "valkey_client C R vw"
  shows "bit_store (ValkeyStore C R ord) (\<lambda>st. vw (snd st)) True"
  using assms by (rule valkey_client.valkey_contract)

theorem valkey_meets_contract_witness:
  "bit_store (ValkeyStore refClient refCalls rev) (\<lambda>st. ref_view (snd st)) True"
  by (rule valkey_meets_contract) (rule ref.valkey_client_axioms)

text \<open>
  C24 A stage is created once, whoever races for it. When any number of handles that all saw \<open>x\<close> stages
  call \<open>AppendStage\<close> of the Valkey store, each with its own stage, on a connection that may fail at any
  call, then either all of them failed and nothing was written, or exactly one of them wrote its stage and
  moved the count to \<open>x + 1\<close>: all before it failed, and it and all later ones, which wrote nothing, learn
  the new count or get an error. (A call that reports an error may be the one that wrote.)
\<close>

theorem stage_is_appended_once:
  assumes "valkey_client C R vw" "kind_of mk = HashKey" "kind_of nk = HashKey" "nk \<noteq> mk"
    and "fmlookup (vhash (vw s) mk) ''stage_count'' = Some (FormatInt x)" "sint x < 2 ^ 63 - 1"
    and "appends (ValkeyStore C R ord) mk x nk fss (spans, s) = (rs, (spans', t))"
  shows "vw t = vw s \<and> (\<forall>r \<in> set rs. \<exists>e. r = Err e)
    \<or> (\<exists>before fs after rs1 r rs2 h. fss = before @ fs # after \<and> rs = rs1 @ r # rs2 \<and> length rs1 = length before
         \<and> fmsubset fs h \<and> vw t = v_append mk x h nk (vw s) \<and> (\<forall>r \<in> set rs1. \<exists>e. r = Err e)
         \<and> (\<forall>r \<in> set (r # rs2). r = Ok (x + 1) \<or> (\<exists>e. r = Err e)))"
  using bit_store.appends_race [OF valkey_client.valkey_contract [OF assms(1)] assms(7,2-4)] assms(5,6) by simp

definition ref_counted :: memstore where
  "ref_counted = NewMemStore\<lparr>ms_hashes := [''bf:f:meta'' \<mapsto> fmupd ''stage_count'' (FormatInt 1) fmempty]\<rparr>"

definition demo_race :: "i64 res list \<times> valkey_spans \<times> server" where
  "demo_race = appends (ValkeyStore refClient refCalls id) ''bf:f:meta'' 1 ''bf:f:s1:meta''
     [fmupd ''m'' ''8'' fmempty, fmupd ''m'' ''9'' fmempty] ([], (9, ref_counted))"

lemma range_one: "range_fields id (fmupd k v fmempty) = [(k, v)]"
  by (simp add: range_fields_def visit_def sorted_list_of_fmap_def sorted_list_of_fset.rep_eq)

lemma ref_Exec_up: "n \<noteq> 0 \<Longrightarrow> ref_Exec f keys argv (n, m) = (case f keys argv (n, m) of (r, t) \<Rightarrow> (resp_of resp_of_lua r, t))"
  by (cases n) simp_all

lemma demo_race_replies: "fst demo_race = [Ok 2, Ok 2]"
  by (simp add: ref_Exec_up demo_race_def ValkeyStore_def vs_AppendStage_def startSpan_def range_one appendStageLua_def
    ref_HGET_def ref_HSET_def ref_HINCRBY_def mem_HSet_def ref_counted_def NewMemStore_def mem_view_def bindC_def Let_def resp_of_def resp_as_def)


theorem stage_is_appended_once_witness:
  "fst demo_race = [Ok 2, Ok 2]
   \<and> fmlookup (vhash (ref_view (snd (snd demo_race))) ''bf:f:s1:meta'') ''m'' = Some ''8''"
proof -
  obtain rs sp t where run: "demo_race = (rs, (sp, t))" by (metis surj_pair)
  have k: "kind_of ''bf:f:meta'' = HashKey" "kind_of ''bf:f:s1:meta'' = HashKey" by code_simp+
  have c: "fmlookup (vhash (ref_view (9, ref_counted)) ''bf:f:meta'') ''stage_count'' = Some (FormatInt 1)"
    by (simp add: ref_counted_def mem_view_def ref_view_def)
  have rs: "rs = [Ok 2, Ok 2]" using demo_race_replies run by (metis fst_conv)
  obtain before fs after rs1 r rs2 h where h: "[fmupd ''m'' ''8'' fmempty, fmupd ''m'' ''9'' fmempty] = before @ fs # after"
      "rs = rs1 @ r # rs2" "length rs1 = length before" "fmsubset fs h"
      "ref_view t = v_append ''bf:f:meta'' 1 h ''bf:f:s1:meta'' (ref_view (9, ref_counted))" "\<forall>r \<in> set rs1. \<exists>e. r = Err e"
    using stage_is_appended_once [OF ref.valkey_client_axioms k _ c _ run [unfolded demo_race_def]] rs by auto
  have "rs1 = []" using h(2,6) rs by (cases rs1) auto
  then have "fs = fmupd ''m'' ''8'' fmempty" using h(1,3) by simp
  then have "fmlookup h ''m'' = Some ''8''" using h(4) by (auto simp: fmsubset_alt_def)
  then show ?thesis unfolding run fst_conv snd_conv h(5) rs by (simp add: v_append_def)
qed


end
