(* ===== verification/Pipeline.thy ===== *)
theory Pipeline
  imports Store
begin

text \<open>
  Many bits, one command each: \<open>ValkeyStore\<close> sends a pipeline with a command per bit, and the commands of
  other clients come between. \<open>piped B\<close> is the store that sets and reads every bit by itself; it meets the
  contract when \<open>B\<close> does.
\<close>

section \<open>Pipelines of calls\<close>

definition attemptC :: "('s, 'a) call \<Rightarrow> ('s, error + 'a) call" where
  "attemptC c = (\<lambda>s. case c s of (Ok x, t) \<Rightarrow> (Ok (Inr x), t) | (Err e, t) \<Rightarrow> (Ok (Inl e), t)
     | (Panic p, t) \<Rightarrow> (Panic p, t))"

text \<open>All commands run; the first error is the result.\<close>

primrec pipeline :: "('x \<Rightarrow> ('s, 'a) call) \<Rightarrow> 'x list \<Rightarrow> ('s, 'a list) call" where
  "pipeline c [] = returnC []"
| "pipeline c (x # xs) =
    bindC (attemptC (c x)) (\<lambda>r.
    bindC (attemptC (pipeline c xs)) (\<lambda>rs.
    resC (case r of Inl e \<Rightarrow> Err e | Inr y \<Rightarrow> (case rs of Inl e \<Rightarrow> Err e | Inr ys \<Rightarrow> Ok (y # ys)))))"

definition set_each :: "(u64 list \<Rightarrow> ('s, unit) call) \<Rightarrow> u64 list \<Rightarrow> ('s, unit) call" where
  "set_each c os = bindC (pipeline (\<lambda>o'. c [o']) os) (\<lambda>_. returnC ())"

definition get_each :: "(u64 list \<Rightarrow> ('s, bool list) call) \<Rightarrow> u64 list \<Rightarrow> ('s, bool list) call" where
  "get_each c os = bindC (pipeline (\<lambda>o'. c [o']) os) (\<lambda>bs. returnC (concat bs))"

definition piped :: "'s bitstore \<Rightarrow> 's bitstore" where
  "piped B = B\<lparr>SetBits := \<lambda>k. set_each (SetBits B k), GetBits := \<lambda>k. get_each (GetBits B k)\<rparr>"

lemma piped_sel [simp]:
  "SetBits (piped B) k = set_each (SetBits B k)" "GetBits (piped B) k = get_each (GetBits B k)"
  "HGetAll (piped B) = HGetAll B" "HSet (piped B) = HSet B" "Incr (piped B) = Incr B" "Get (piped B) = Get B"
  "SAdd (piped B) = SAdd B" "SRem (piped B) = SRem B" "SMembers (piped B) = SMembers B" "Del (piped B) = Del B"
  "AppendStage (piped B) = AppendStage B"
  by (simp_all add: piped_def)

lemma pipeline_Cons:
  assumes "c x s = (r, u)" "pipeline c xs u = (rs, t)" "\<forall>p. r \<noteq> Panic p" "\<forall>p. rs \<noteq> Panic p"
  shows "pipeline c (x # xs) s = (bindR r (\<lambda>y. bindR rs (\<lambda>ys. Ok (y # ys))), t)"
  using assms by (cases r; cases rs) (simp_all add: bindC_def attemptC_def)

section \<open>The contract\<close>

context bit_store
begin

lemma pipeline_SetBits:
  assumes "kind_of k = BitKey"
  shows "\<exists>r t. pipeline (\<lambda>o'. SetBits B k [o']) os s = (r, t)
    \<and> (r = Ok (replicate (length os) ()) \<and> view t = v_setbits k (set os) (view s)
       \<or> failing \<and> (\<exists>e os'. r = Err e \<and> os' \<subseteq> set os \<and> view t = v_setbits k os' (view s)))"
proof (induction os arbitrary: s)
  case Nil
  then show ?case by (simp add: v_setbits_def)
next
  case (Cons o' os)
  obtain r u where one: "SetBits B k [o'] s = (r, u)" by (metis surj_pair)
  obtain rs t where rest: "pipeline (\<lambda>o'. SetBits B k [o']) os u = (rs, t)"
    and rs: "rs = Ok (replicate (length os) ()) \<and> view t = v_setbits k (set os) (view u)
       \<or> failing \<and> (\<exists>e os'. rs = Err e \<and> os' \<subseteq> set os \<and> view t = v_setbits k os' (view u))"
    using Cons.IH [of u] by blast
  have r: "r = Ok () \<and> view u = v_setbits k {o'} (view s)
      \<or> failing \<and> (\<exists>e os'. r = Err e \<and> os' \<subseteq> {o'} \<and> view u = v_setbits k os' (view s))"
    using SetBits_law [OF one assms] by simp
  have twice: "v_setbits k A (v_setbits k C v) = v_setbits k (C \<union> A) v" for A C v
    by (simp add: v_setbits_def Un_assoc)
  have "pipeline (\<lambda>o'. SetBits B k [o']) (o' # os) s = (bindR r (\<lambda>y. bindR rs (\<lambda>ys. Ok (y # ys))), t)"
    by (rule pipeline_Cons [where c = "\<lambda>o'. SetBits B k [o']", OF one rest]) (use r rs in auto)
  moreover have "(bindR r (\<lambda>y. bindR rs (\<lambda>ys. Ok (y # ys))) = Ok (replicate (length (o' # os)) ())
        \<and> view t = v_setbits k (set (o' # os)) (view s))
      \<or> failing \<and> (\<exists>e os'. bindR r (\<lambda>y. bindR rs (\<lambda>ys. Ok (y # ys))) = Err e \<and> os' \<subseteq> set (o' # os)
        \<and> view t = v_setbits k os' (view s))"
  proof -
    obtain A where A: "A \<subseteq> {o'}" "view u = v_setbits k A (view s)" "r = Ok () \<and> A = {o'} \<or> failing \<and> (\<exists>e. r = Err e)"
      using r by blast
    obtain C where C: "C \<subseteq> set os" "view t = v_setbits k C (view u)"
        "rs = Ok (replicate (length os) ()) \<and> C = set os \<or> failing \<and> (\<exists>e. rs = Err e)"
      using rs by blast
    have t: "view t = v_setbits k (A \<union> C) (view s)" "A \<union> C \<subseteq> set (o' # os)"
      using A C twice by auto
    show ?thesis
    proof (cases "r = Ok () \<and> rs = Ok (replicate (length os) ())")
      case True
      then show ?thesis using A(3) C(3) t(1) by simp
    next
      case False
      then obtain e where "bindR r (\<lambda>y. bindR rs (\<lambda>ys. Ok (y # ys))) = Err e" failing
        using A(3) C(3) by auto
      then show ?thesis using t by blast
    qed
  qed
  ultimately show ?case by blast
qed

lemma pipeline_GetBits:
  assumes "kind_of k = BitKey"
  shows "\<exists>r t. pipeline (\<lambda>o'. GetBits B k [o']) os s = (r, t) \<and> view t = view s
    \<and> (r = Ok (map (\<lambda>o'. [o' \<in> vbits (view s) k]) os) \<or> failing \<and> (\<exists>e. r = Err e))"
proof (induction os arbitrary: s)
  case (Cons o' os)
  obtain r u where one: "GetBits B k [o'] s = (r, u)" by (metis surj_pair)
  obtain rs t where rest: "pipeline (\<lambda>o'. GetBits B k [o']) os u = (rs, t)" "view t = view u"
    and rs: "rs = Ok (map (\<lambda>o'. [o' \<in> vbits (view u) k]) os) \<or> failing \<and> (\<exists>e. rs = Err e)"
    using Cons.IH [of u] by blast
  have r: "view u = view s" "r = Ok [o' \<in> vbits (view s) k] \<or> failing \<and> (\<exists>e. r = Err e)"
    using GetBits_law [OF one assms] by simp_all
  have "pipeline (\<lambda>o'. GetBits B k [o']) (o' # os) s = (bindR r (\<lambda>y. bindR rs (\<lambda>ys. Ok (y # ys))), t)"
    by (rule pipeline_Cons [where c = "\<lambda>o'. GetBits B k [o']", OF one rest(1)]) (use r rs in auto)
  then show ?case using r rs rest(2) by auto
qed simp

lemma piped_SetBits:
  assumes "set_each (SetBits B k) os s = (r, t)" "kind_of k = BitKey"
  shows "(r = Ok () \<and> view t = v_setbits k (set os) (view s))
    \<or> (failing \<and> (\<exists>e os'. r = Err e \<and> os' \<subseteq> set os \<and> view t = v_setbits k os' (view s)))"
  using pipeline_SetBits [OF assms(2), of os s] assms(1) by (auto simp: set_each_def)

lemma piped_GetBits:
  assumes "get_each (GetBits B k) os s = (r, t)" "kind_of k = BitKey"
  shows "view t = view s
    \<and> (r = Ok (map (\<lambda>o'. o' \<in> vbits (view s) k) os) \<or> (failing \<and> (\<exists>e. r = Err e)))"
proof -
  have "concat (map (\<lambda>o'. [f o']) os) = map f os" for f :: "u64 \<Rightarrow> bool" by (induction os) simp_all
  then show ?thesis using pipeline_GetBits [OF assms(2), of os s] assms(1) by (auto simp: get_each_def)
qed

lemma bit_store_piped: "bit_store (piped B) view failing"
proof (unfold_locales, goal_cases)
  case (1 k os s r t)
  then show ?case using piped_SetBits by simp
next
  case (2 k os s r t)
  then show ?case using piped_GetBits by simp
next
  case (11 mk x fs nk s r t)
  then show ?case using AppendStage_win by simp
next
  case (12 mk x fs nk s r t c)
  then show ?case using AppendStage_lose by simp
next
  case (13 mk x fs nk s r t)
  then show ?case using AppendStage_none by simp
qed (use HGetAll_law HSet_law Incr_law Get_law SAdd_law SRem_law SMembers_law Del_law in simp_all)

end

lemma reliable_store_piped: "reliable_store B view \<Longrightarrow> reliable_store (piped B) view"
  unfolding reliable_store_def by (rule bit_store.bit_store_piped)

end
