(* ===== verification/Interleaving.thy ===== *)
theory Interleaving
  imports ServiceLaws Pipeline
begin

text \<open>
  Requests that run at the same time. Every operation of the store is one atomic step, and setting and
  reading bits is one step per bit, as \<open>ValkeyStore\<close> sends them; between two steps of a request any number
  of steps of others can happen. A request is replayed from the states its steps have found so far: \<open>stepwise B\<close> is the store that runs the next operation on the next
  of these states, and stops the request when there is none left. A configuration is the state of the
  store with the requests in progress; a step lets one of them do its next operation.
\<close>

section \<open>Running step by step\<close>

record 's run =
  rn_found :: "'s list"
  rn_steps :: "('s \<times> 's) list"
  rn_waiting :: bool

definition stepC :: "('s, 'a) call \<Rightarrow> ('s run, 'a) call" where
  "stepC c r = (case rn_found r of
     [] \<Rightarrow> (Panic ''waiting'', r\<lparr>rn_waiting := True\<rparr>)
   | x # xs \<Rightarrow> (case c x of (a, t) \<Rightarrow> (a, r\<lparr>rn_found := xs, rn_steps := rn_steps r @ [(x, t)]\<rparr>)))"

definition stepwise :: "'s bitstore \<Rightarrow> 's run bitstore" where
  "stepwise B = \<lparr>SetBits = \<lambda>k. set_each (\<lambda>os. stepC (SetBits B k os)),
     GetBits = \<lambda>k. get_each (\<lambda>os. stepC (GetBits B k os)),
     HGetAll = \<lambda>k. stepC (HGetAll B k), HSet = \<lambda>k fs. stepC (HSet B k fs),
     Incr = \<lambda>k. stepC (Incr B k), Get = \<lambda>k. stepC (Get B k),
     SAdd = \<lambda>k ms. stepC (SAdd B k ms), SRem = \<lambda>k ms. stepC (SRem B k ms),
     SMembers = \<lambda>k. stepC (SMembers B k), Del = \<lambda>ks. stepC (Del B ks),
     AppendStage = \<lambda>mk x fs nk. stepC (AppendStage B mk x fs nk)\<rparr>"

definition replay :: "platform \<Rightarrow> 's bitstore \<Rightarrow> request \<Rightarrow> 's list \<Rightarrow> reply \<times> (telemetry \<times> 's run)" where
  "replay P B q xs = svc_step P (stepwise B) q
     (\<lparr>tl_spans = [], tl_inst = None, tl_log = []\<rparr>, \<lparr>rn_found = xs, rn_steps = [], rn_waiting = False\<rparr>)"

definition steps_of :: "platform \<Rightarrow> 's bitstore \<Rightarrow> request \<Rightarrow> 's list \<Rightarrow> ('s \<times> 's) list" where
  "steps_of P B q xs = rn_steps (snd (snd (replay P B q xs)))"

definition in_progress :: "platform \<Rightarrow> 's bitstore \<Rightarrow> request \<Rightarrow> 's list \<Rightarrow> bool" where
  "in_progress P B q xs = rn_waiting (snd (snd (replay P B q xs)))"

definition answered :: "platform \<Rightarrow> 's bitstore \<Rightarrow> request \<Rightarrow> 's list \<Rightarrow> reply option" where
  "answered P B q xs = (if in_progress P B q xs then None else Some (fst (replay P B q xs)))"

section \<open>Configurations\<close>

type_synonym 's config = "'s \<times> (request \<times> 's list) list"

inductive sys_step :: "platform \<Rightarrow> 's bitstore \<Rightarrow> 's config \<Rightarrow> 's config \<Rightarrow> bool" for P B where
  arrive: "valid_request q \<Longrightarrow> sys_step P B (s, ths) (s, ths @ [(q, [])])"
| operate: "i < length ths \<Longrightarrow> ths ! i = (q, xs) \<Longrightarrow> in_progress P B q xs \<Longrightarrow>
    sys_step P B (s, ths) (snd (last (steps_of P B q (xs @ [s]))), ths[i := (q, xs @ [s])])"

inductive_cases sys_stepE: "sys_step P B c d"

section \<open>Requests are finite trees of operations\<close>

text \<open>\<open>Op g k\<close> finds a state \<open>x\<close>, leaves \<open>g x\<close> and goes on with \<open>k x\<close>.\<close>

datatype ('s, 'v) prog = Done 'v | Op "'s \<Rightarrow> 's" "'s \<Rightarrow> ('s, 'v) prog"

primrec run_prog :: "('s, 'v) prog \<Rightarrow> 's run \<Rightarrow> 'v option \<times> 's run" where
  "run_prog (Done v) r = (Some v, r)"
| "run_prog (Op g k) r = (case rn_found r of [] \<Rightarrow> (None, r\<lparr>rn_waiting := True\<rparr>)
     | x # xs \<Rightarrow> run_prog (k x) (r\<lparr>rn_found := xs, rn_steps := rn_steps r @ [(x, g x)]\<rparr>))"

primrec bind_prog :: "('s, 'v) prog \<Rightarrow> ('v \<Rightarrow> ('s, 'w) prog) \<Rightarrow> ('s, 'w) prog" where
  "bind_prog (Done v) f = f v"
| "bind_prog (Op g k) f = Op g (\<lambda>x. bind_prog (k x) f)"

lemma run_bind_prog:
  "run_prog (bind_prog p f) r = (case run_prog p r of (Some v, r') \<Rightarrow> run_prog (f v) r' | (None, r') \<Rightarrow> (None, r'))"
  by (induction p arbitrary: r) (auto split: list.split)

lemma run_prog_waiting:
  "run_prog p \<lparr>rn_found = xs, rn_steps = l, rn_waiting = w\<rparr> = (None, r) \<Longrightarrow>
     rn_waiting r \<and> rn_found r = [] \<and> (\<exists>new. rn_steps r = l @ new \<and> map fst new = xs)"
  by (induction p arbitrary: xs l) (fastforce split: list.splits)+

lemma run_prog_more:
  "run_prog p \<lparr>rn_found = xs, rn_steps = l, rn_waiting = w\<rparr> = (None, r) \<Longrightarrow>
     \<exists>t. rn_steps (snd (run_prog p \<lparr>rn_found = xs @ [s], rn_steps = l, rn_waiting = w\<rparr>)) = rn_steps r @ [(s, t)]"
proof (induction p arbitrary: xs l)
  case (Op g k)
  show ?case
  proof (cases xs)
    case Nil
    then show ?thesis using Op.prems by (cases "k s") auto
  next
    case (Cons x ys)
    then show ?thesis using Op.IH [OF rangeI, of x ys "l @ [(x, g x)]"] Op.prems by simp
  qed
qed simp

lemma run_prog_found:
  "\<exists>new. rn_steps (snd (run_prog p \<lparr>rn_found = xs, rn_steps = l, rn_waiting = w\<rparr>)) = l @ new
     \<and> map fst new @ rn_found (snd (run_prog p \<lparr>rn_found = xs, rn_steps = l, rn_waiting = w\<rparr>)) = xs"
proof (induction p arbitrary: xs l)
  case (Op g k)
  show ?case
  proof (cases xs)
    case (Cons x ys)
    from Op.IH [OF rangeI, of x ys "l @ [(x, g x)]"] show ?thesis by (auto simp: Cons)
  qed simp
qed simp

lemma run_prog_done: "fst (run_prog p r) = Some v \<Longrightarrow> rn_waiting (snd (run_prog p r)) = rn_waiting r"
  by (induction p arbitrary: r) (auto split: list.splits)

text \<open>Fed with enough states a program ends, whatever the states are.\<close>

lemma run_prog_ends:
  "\<exists>n v l'. run_prog p \<lparr>rn_found = map f [0..<n], rn_steps = l, rn_waiting = w\<rparr>
     = (Some v, \<lparr>rn_found = [], rn_steps = l', rn_waiting = w\<rparr>)"
proof (induction p arbitrary: f l)
  case (Done v)
  have "run_prog (Done v) \<lparr>rn_found = map f [0..<0], rn_steps = l, rn_waiting = w\<rparr>
      = (Some v, \<lparr>rn_found = [], rn_steps = l, rn_waiting = w\<rparr>)" by simp
  then show ?case by blast
next
  case (Op g k)
  obtain n v l' where n: "run_prog (k (f 0)) \<lparr>rn_found = map (\<lambda>i. f (Suc i)) [0..<n],
      rn_steps = l @ [(f 0, g (f 0))], rn_waiting = w\<rparr> = (Some v, \<lparr>rn_found = [], rn_steps = l', rn_waiting = w\<rparr>)"
    using Op.IH [OF rangeI, of "f 0" "\<lambda>i. f (Suc i)"] by metis
  have "map f [0..<Suc n] = f 0 # map (\<lambda>i. f (Suc i)) [0..<n]"
    by (simp add: upt_conv_Cons map_Suc_upt [symmetric] del: upt_Suc)
  then have "run_prog (Op g k) \<lparr>rn_found = map f [0..<Suc n], rn_steps = l, rn_waiting = w\<rparr>
      = (Some v, \<lparr>rn_found = [], rn_steps = l', rn_waiting = w\<rparr>)"
    using n by (simp del: upt_Suc)
  then show ?case by blast
qed

text \<open>Run by itself, a program finds the state it left.\<close>

primrec seq_prog :: "('s, 'v) prog \<Rightarrow> 's \<Rightarrow> 'v \<times> 's" where
  "seq_prog (Done v) s = (v, s)"
| "seq_prog (Op g k) s = seq_prog (k s) (g s)"

lemma seq_bind_prog: "seq_prog (bind_prog p f) s = (case seq_prog p s of (v, t) \<Rightarrow> seq_prog (f v) t)"
  by (induction p arbitrary: s) auto

primrec seq_steps :: "('s, 'v) prog \<Rightarrow> 's \<Rightarrow> ('s \<times> 's) list" where
  "seq_steps (Done v) s = []"
| "seq_steps (Op g k) s = (s, g s) # seq_steps (k s) (g s)"

lemma run_seq_steps:
  "run_prog p \<lparr>rn_found = map fst (seq_steps p s), rn_steps = l, rn_waiting = w\<rparr>
     = (Some (fst (seq_prog p s)), \<lparr>rn_found = [], rn_steps = l @ seq_steps p s, rn_waiting = w\<rparr>)"
  by (induction p arbitrary: s l) auto

lemma run_seq_prefix:
  "n < length (seq_steps p s) \<Longrightarrow>
     run_prog p \<lparr>rn_found = take n (map fst (seq_steps p s)), rn_steps = l, rn_waiting = w\<rparr>
       = (None, \<lparr>rn_found = [], rn_steps = l @ take n (seq_steps p s), rn_waiting = True\<rparr>)"
proof (induction p arbitrary: n s l)
  case (Op g k)
  then show ?case by (cases n) auto
qed simp

lemma seq_steps_links:
  "n < length (seq_steps p s) \<Longrightarrow> fst (seq_steps p s ! n) = (if n = 0 then s else snd (seq_steps p s ! (n - 1)))"
proof (induction p arbitrary: n s)
  case (Op g k)
  then show ?case by (cases n) (auto simp: nth_Cons' split: if_splits)
qed simp

lemma seq_steps_last: "snd (seq_prog p s) = (if seq_steps p s = [] then s else snd (last (seq_steps p s)))"
  by (induction p arbitrary: s) (auto split: if_splits)

section \<open>Calls as programs\<close>

text \<open>
  \<open>steps_as c d\<close>: the call \<open>c\<close>, on the stepwise store, and the call \<open>d\<close>, on the store itself, are the
  same program of store operations.
\<close>

definition perform :: "('s, 'a res) prog \<Rightarrow> ('s run, 'a) call" where
  "perform p r = (case run_prog p r of (Some a, r') \<Rightarrow> (a, r') | (None, r') \<Rightarrow> (Panic ''waiting'', r'))"

definition steps_as :: "('s run, 'a) call \<Rightarrow> ('s, 'a) call \<Rightarrow> bool" where
  "steps_as c d \<longleftrightarrow> (\<exists>p. c = perform p \<and> d = seq_prog p)"

named_theorems steps_intros \<open>calls that are the same program\<close>

lemma steps_asI: "(\<And>r. c r = perform p r) \<Longrightarrow> (\<And>s. d s = seq_prog p s) \<Longrightarrow> steps_as c d"
  unfolding steps_as_def by blast

lemma steps_asE:
  assumes "steps_as c d" obtains p where "c = perform p" "d = seq_prog p"
  using assms unfolding steps_as_def by blast

lemma steps_as_stepC: "steps_as (stepC c) c"
  by (rule steps_asI [of _ "Op (\<lambda>x. snd (c x)) (\<lambda>x. Done (fst (c x)))"])
    (simp_all add: stepC_def perform_def split: list.split prod.split)

lemma steps_as_resC [steps_intros]: "steps_as (resC a) (resC a)"
  by (rule steps_asI [of _ "Done a"]) (simp_all add: perform_def)

lemma steps_as_returnC [steps_intros]: "steps_as (returnC a) (returnC a)"
  by (rule steps_asI [of _ "Done (Ok a)"]) (simp_all add: perform_def)

lemma steps_as_bindC [steps_intros]:
  assumes "steps_as c d" "\<And>x. steps_as (f x) (g x)"
  shows "steps_as (bindC c f) (bindC d g)"
proof -
  obtain p where p: "c = perform p" "d = seq_prog p" using assms(1) by (rule steps_asE)
  obtain h where h: "\<And>x. f x = perform (h x)" "\<And>x. g x = seq_prog (h x)"
    using assms(2) unfolding steps_as_def by metis
  show ?thesis
    by (rule steps_asI [of _ "bind_prog p (\<lambda>a. case a of Ok x \<Rightarrow> h x | Err e \<Rightarrow> Done (Err e)
        | Panic q \<Rightarrow> Done (Panic q))"])
      (simp_all add: p h perform_def bindC_def run_bind_prog seq_bind_prog split: prod.split option.split res.split)
qed

lemma steps_as_catchC [steps_intros]:
  assumes "steps_as c d" "\<And>e. steps_as (h e) (h' e)"
  shows "steps_as (catchC c h) (catchC d h')"
proof -
  obtain p where p: "c = perform p" "d = seq_prog p" using assms(1) by (rule steps_asE)
  obtain g where g: "\<And>e. h e = perform (g e)" "\<And>e. h' e = seq_prog (g e)"
    using assms(2) unfolding steps_as_def by metis
  show ?thesis
    by (rule steps_asI [of _ "bind_prog p (\<lambda>a. case a of Ok x \<Rightarrow> Done (Ok x) | Err e \<Rightarrow> g e
        | Panic q \<Rightarrow> Done (Panic q))"])
      (simp_all add: p g perform_def catchC_def run_bind_prog seq_bind_prog split: prod.split option.split res.split)
qed

lemma steps_as_wrapC [steps_intros]:
  assumes "steps_as c d"
  shows "steps_as (wrapC s c) (wrapC s d)"
proof -
  obtain p where p: "c = perform p" "d = seq_prog p" using assms by (rule steps_asE)
  show ?thesis
    by (rule steps_asI [of _ "bind_prog p (\<lambda>a. Done (wrapR s a))"])
      (simp_all add: p perform_def wrapC_def run_bind_prog seq_bind_prog split: prod.split option.split)
qed

lemma steps_as_attemptC [steps_intros]:
  assumes "steps_as c d"
  shows "steps_as (attemptC c) (attemptC d)"
proof -
  obtain p where p: "c = perform p" "d = seq_prog p" using assms by (rule steps_asE)
  show ?thesis
    by (rule steps_asI [of _ "bind_prog p (\<lambda>a. Done (case a of Ok x \<Rightarrow> Ok (Inr x) | Err e \<Rightarrow> Ok (Inl e)
        | Panic q \<Rightarrow> Panic q))"])
      (simp_all add: p perform_def attemptC_def run_bind_prog seq_bind_prog split: prod.split option.split res.split)
qed

lemma steps_as_pipeline:
  assumes "\<And>x. steps_as (c x) (d x)"
  shows "steps_as (pipeline c xs) (pipeline d xs)"
proof (induction xs)
  case (Cons x xs)
  show ?case unfolding pipeline.simps by (intro steps_intros assms Cons.IH)
qed (simp only: pipeline.simps steps_intros)

lemma steps_as_each:
  "(\<And>os. steps_as (c os) (d os)) \<Longrightarrow> steps_as (set_each c os) (set_each d os)"
  "(\<And>os. steps_as (c' os) (d' os)) \<Longrightarrow> steps_as (get_each c' os) (get_each d' os)"
  unfolding set_each_def get_each_def by (intro steps_intros steps_as_pipeline; assumption)+

lemma steps_as_mapErrC [steps_intros]: "steps_as c d \<Longrightarrow> steps_as (mapErrC c) (mapErrC d)"
  unfolding mapErrC_def by (intro steps_intros)

lemma steps_as_case_prod [steps_intros]:
  "(\<And>a b. steps_as (f a b) (g a b)) \<Longrightarrow> steps_as (case x of (a, b) \<Rightarrow> f a b) (case x of (a, b) \<Rightarrow> g a b)"
  by (cases x) simp

lemma steps_as_if [steps_intros]:
  "steps_as c d \<Longrightarrow> steps_as c' d' \<Longrightarrow> steps_as (if b then c else c') (if b then d else d')"
  by simp

lemma steps_as_Let [steps_intros]: "steps_as (f x) (g x) \<Longrightarrow> steps_as (let y = x in f y) (let y = x in g y)"
  by simp

lemma steps_as_stepwise [steps_intros]:
  "steps_as (SetBits (stepwise B) k os) (SetBits (piped B) k os)" "steps_as (GetBits (stepwise B) k os) (GetBits (piped B) k os)"
  "steps_as (HGetAll (stepwise B) k) (HGetAll (piped B) k)" "steps_as (HSet (stepwise B) k fs) (HSet (piped B) k fs)"
  "steps_as (Incr (stepwise B) k) (Incr (piped B) k)" "steps_as (Get (stepwise B) k) (Get (piped B) k)"
  "steps_as (SAdd (stepwise B) k ms) (SAdd (piped B) k ms)" "steps_as (SRem (stepwise B) k ms) (SRem (piped B) k ms)"
  "steps_as (SMembers (stepwise B) k) (SMembers (piped B) k)" "steps_as (Del (stepwise B) ks) (Del (piped B) ks)"
  "steps_as (AppendStage (stepwise B) mk x fs nk) (AppendStage (piped B) mk x fs nk)"
  by (simp_all add: stepwise_def steps_as_stepC steps_as_each)

section \<open>The requests\<close>

text \<open>\<open>Add\<close> and its growth as calls on the store alone.\<close>

lemma withFilter_appendNewStage:
  "withFilter f (appendNewStage P B) = (let idx = int (length (f_stages f)); w = (word_of_int idx :: i64) in
    bindC (resC (wrapR (''bloom: compute stage '' @ Itoa idx @ '': '')
      (computeStage P (f_n f) (f_p f) (f_r f) (f_s f) idx))) (\<lambda>newStage.
    bindC (wrapC ''bloom: append stage: ''
      (AppendStage B (metaKey (f_name f)) w (stageToMap newStage) (stageMetaKey (f_name f) idx)))
      (\<lambda>newCount.
    if sint (w + 1) < sint newCount
    then bindC (wrapC ''bloom: reload after race: '' (Load P B (f_name f))) (\<lambda>_. returnC ())
    else returnC ())))"
  by (rule ext) (simp add: withFilter_def appendNewStage_def reload_def bindC_def wrapC_def onStore_def
      wrapR_def Let_def del: wrapR_iffs split: prod.split res.split)

lemma withFilter_Add:
  "withFilter f (Add P B ord item) =
    (if f_stages f = [] then resC (Panic ''runtime error: index out of range [-1]'')
    else let cur = last (f_stages f); (h1, h2) = hashParts P item in
      bindC (resC (positions h1 h2 (st_m cur) (st_k cur))) (\<lambda>pos.
      bindC (set_groups B (f_name f) (st_index cur) (range_groups ord (groupByShard pos))) (\<lambda>_.
      bindC (wrapC ''bloom: incr fill: '' (Incr B (fillKey (f_name f) (st_index cur)))) (\<lambda>newFill.
      if st_capacity cur \<le> newFill
      then withFilter (f\<lparr>f_stages := butlast (f_stages f) @ [cur\<lparr>st_fill := newFill\<rparr>]\<rparr>) (appendNewStage P B)
      else returnC ()))))"
  by (rule ext) (simp add: withFilter_def Add_def bindC_def wrapC_def onStore_def
      wrapR_def Let_def del: wrapR_iffs split: prod.split res.split)

lemma steps_as_set_groups [steps_intros]: "steps_as (set_groups (stepwise B) name i gs) (set_groups (piped B) name i gs)"
proof (induction gs)
  case (Cons g gs)
  then show ?case by (cases g) (simp only: set_groups.simps, (intro steps_intros | assumption)+)
qed (simp only: set_groups.simps steps_intros)

lemma steps_as_load_stage [steps_intros]: "steps_as (load_stage (stepwise B) name i) (load_stage (piped B) name i)"
  unfolding load_stage_def by (intro steps_intros)

lemma steps_as_load_loop [steps_intros]: "steps_as (load_loop (stepwise B) name i n) (load_loop (piped B) name i n)"
proof (induction n arbitrary: i)
  case (Suc n)
  then show ?case by (simp only: load_loop.simps) (intro steps_intros)
qed (simp only: load_loop.simps steps_intros)

lemma steps_as_Load [steps_intros]: "steps_as (Load P (stepwise B) name) (Load P (piped B) name)"
  unfolding Load_def by (intro steps_intros)

lemma steps_as_New [steps_intros]: "steps_as (New P (stepwise B) now name n p) (New P (piped B) now name n p)"
  unfolding New_def by (intro steps_intros)

lemma steps_as_append [steps_intros]: "steps_as (withFilter f (appendNewStage P (stepwise B))) (withFilter f (appendNewStage P (piped B)))"
  unfolding withFilter_appendNewStage by (intro steps_intros)

lemma steps_as_Add [steps_intros]: "steps_as (withFilter f (Add P (stepwise B) ord item)) (withFilter f (Add P (piped B) ord item))"
  unfolding withFilter_Add by (intro steps_intros)

lemma steps_as_groups_all_set [steps_intros]: "steps_as (groups_all_set (stepwise B) name i gs) (groups_all_set (piped B) name i gs)"
proof (induction gs)
  case (Cons g gs)
  then show ?case by (cases g) (simp only: groups_all_set.simps, (intro steps_intros | assumption)+)
qed (simp only: groups_all_set.simps steps_intros)

lemma steps_as_exists_loop [steps_intros]: "steps_as (exists_loop (stepwise B) ords name h1 h2 sts) (exists_loop (piped B) ords name h1 h2 sts)"
proof (induction sts)
  case (Cons st sts)
  then show ?case by (simp only: exists_loop.simps) (intro steps_intros)
qed (simp only: exists_loop.simps steps_intros)

lemma steps_as_Exists [steps_intros]: "steps_as (Exists P (stepwise B) ords item f) (Exists P (piped B) ords item f)"
  unfolding Exists_def by (intro steps_intros)

lemma steps_as_Drop [steps_intros]: "steps_as (Drop (stepwise B) f) (Drop (piped B) f)"
  unfolding Drop_def by (intro steps_intros)

lemma steps_as_sample_loop [steps_intros]: "steps_as (sample_loop P (stepwise B) names) (sample_loop P (piped B) names)"
proof (induction names)
  case (Cons name names)
  then show ?case by (simp only: sample_loop.simps) (intro steps_intros)
qed (simp only: sample_loop.simps steps_intros)

lemma steps_as_FilterSamples [steps_intros]: "steps_as (FilterSamples P (stepwise B) mg) (FilterSamples P (piped B) mg)"
  unfolding FilterSamples_def ListFilters_def by (intro steps_intros)

text \<open>Being a program of store operations at all.\<close>

definition is_prog :: "('s run, 'a) call \<Rightarrow> bool" where
  "is_prog c \<longleftrightarrow> (\<exists>d. steps_as c d)"

named_theorems prog_intros \<open>calls that are programs\<close>

lemma is_progI: "steps_as c d \<Longrightarrow> is_prog c"
  unfolding is_prog_def by blast

lemma is_progE:
  assumes "is_prog c" obtains p where "c = perform p"
  using assms unfolding is_prog_def steps_as_def by blast

lemmas is_prog_calls [prog_intros] = steps_as_stepC [THEN is_progI] steps_as_each [OF steps_as_stepC, THEN is_progI] steps_as_stepwise [THEN is_progI] steps_as_resC [THEN is_progI]
  steps_as_returnC [THEN is_progI] steps_as_set_groups [THEN is_progI] steps_as_load_stage [THEN is_progI]
  steps_as_load_loop [THEN is_progI] steps_as_Load [THEN is_progI] steps_as_New [THEN is_progI]
  steps_as_append [THEN is_progI] steps_as_Add [THEN is_progI] steps_as_groups_all_set [THEN is_progI]
  steps_as_exists_loop [THEN is_progI] steps_as_Exists [THEN is_progI] steps_as_Drop [THEN is_progI]
  steps_as_sample_loop [THEN is_progI] steps_as_FilterSamples [THEN is_progI]

lemma is_prog_bindC [prog_intros]: "is_prog c \<Longrightarrow> (\<And>x. is_prog (f x)) \<Longrightarrow> is_prog (bindC c f)"
  unfolding is_prog_def using steps_as_bindC by metis

lemma is_prog_catchC [prog_intros]: "is_prog c \<Longrightarrow> (\<And>e. is_prog (h e)) \<Longrightarrow> is_prog (catchC c h)"
  unfolding is_prog_def using steps_as_catchC by metis

lemma is_prog_wrapC [prog_intros]: "is_prog c \<Longrightarrow> is_prog (wrapC s c)"
  unfolding is_prog_def using steps_as_wrapC by metis

lemma is_prog_attemptC [prog_intros]: "is_prog c \<Longrightarrow> is_prog (attemptC c)"
  unfolding is_prog_def using steps_as_attemptC by metis

lemma is_prog_pipeline [prog_intros]: "(\<And>x. is_prog (c x)) \<Longrightarrow> is_prog (pipeline c xs)"
  unfolding is_prog_def using steps_as_pipeline by metis

lemma is_prog_mapErrC [prog_intros]: "is_prog c \<Longrightarrow> is_prog (mapErrC c)"
  unfolding is_prog_def using steps_as_mapErrC by metis

lemma is_prog_structure [prog_intros]:
  "(\<And>a b. is_prog (f' a b)) \<Longrightarrow> is_prog (case xy of (a, b) \<Rightarrow> f' a b)"
  "is_prog c \<Longrightarrow> is_prog d \<Longrightarrow> is_prog (if b then c else d)"
  "is_prog (f x) \<Longrightarrow> is_prog (let y = x in f y)"
  by (cases xy; simp)+

section \<open>Requests without telemetry\<close>

text \<open>What a request answers and does to the store does not depend on what was recorded before.\<close>

definition on_run :: "(telemetry \<times> 's, 'a) call \<Rightarrow> ('s, 'a) call \<Rightarrow> bool" where
  "on_run c d \<longleftrightarrow> (\<forall>tm s. fst (c (tm, s)) = fst (d s) \<and> snd (snd (c (tm, s))) = snd (d s))"

named_theorems on_run_intros \<open>requests without their telemetry\<close>

lemma on_runD: "on_run c d \<Longrightarrow> d s = (a, t) \<Longrightarrow> \<exists>tm'. c (tm, s) = (a, (tm', t))"
  unfolding on_run_def by (metis fst_conv snd_conv prod.collapse)

lemma on_run_basic [on_run_intros]:
  "on_run (onStore c) c" "on_run (returnC x) (returnC x)" "on_run (resC a) (resC a)"
  "on_run (\<lambda>(tm, s). (Ok (), (tm\<lparr>tl_inst := RecordItemsAdded n (tl_inst tm)\<rparr>, s))) (returnC ())"
  by (simp_all add: on_run_def onStore_def split: prod.split)

lemma on_run_bindC [on_run_intros]:
  assumes "on_run c d" "\<And>x. on_run (f x) (g x)"
  shows "on_run (bindC c f) (bindC d g)"
  unfolding on_run_def
proof (intro allI)
  fix tm s
  obtain a t where d: "d s = (a, t)" by (metis surj_pair)
  then obtain tm' where "c (tm, s) = (a, (tm', t))" using on_runD [OF assms(1)] by blast
  then show "fst (bindC c f (tm, s)) = fst (bindC d g s) \<and> snd (snd (bindC c f (tm, s))) = snd (bindC d g s)"
    using d assms(2) by (cases a) (simp_all add: on_run_def)
qed

lemma on_run_mapErrC [on_run_intros]:
  assumes "on_run c d"
  shows "on_run (mapErrC c) (mapErrC d)"
  unfolding on_run_def
proof (intro allI)
  fix tm s
  obtain a t where d: "d s = (a, t)" by (metis surj_pair)
  then obtain tm' where "c (tm, s) = (a, (tm', t))" using on_runD [OF assms(1)] by blast
  then show "fst (mapErrC c (tm, s)) = fst (mapErrC d s) \<and> snd (snd (mapErrC c (tm, s))) = snd (mapErrC d s)"
    using d by (cases a) (simp_all add: mapErrC_def)
qed

lemma on_run_traced [on_run_intros]: "on_run c d \<Longrightarrow> on_run (traced span op c) d"
  by (simp add: on_run_def traced_def split: prod.split) (metis fst_conv snd_conv)

lemma on_run_service:
  "on_run (Create P B now name n p) (bindC (mapErrC (New P B now name n p)) (\<lambda>f. let st = Stats f in
     if ss_stages st = [] then resC (Panic ''runtime error: index out of range [0] with length 0'')
     else returnC \<lparr>fi_Name = ss_name st, fi_Stages = ss_stage_count st,
       fi_M = st_m (hd (ss_stages st)), fi_K = st_k (hd (ss_stages st))\<rparr>))"
  "on_run (SvcAdd P B ord name item) (bindC (mapErrC (Load P B name)) (\<lambda>f.
     bindC (mapErrC (withFilter f (Add P B ord item))) (\<lambda>_. returnC ())))"
  "on_run (SvcExists P B ords name item) (bindC (mapErrC (Load P B name)) (\<lambda>f. mapErrC (Exists P B ords item f)))"
  "on_run (SvcStats P B name) (bindC (mapErrC (Load P B name)) (\<lambda>f. returnC (toStats (Stats f))))"
  "on_run (Delete P B name) (bindC (mapErrC (Load P B name)) (\<lambda>f. mapErrC (Drop B f)))"
  unfolding Create_def SvcAdd_def SvcExists_def SvcStats_def Delete_def
  by (intro on_run_intros; simp add: Let_def on_run_basic)+

text \<open>The program of each request, up to the constructor of its reply.\<close>

lemma svc_step_on_run:
  assumes "\<And>tm s. svc_step P B q (tm, s) = map_prod K id (c (tm, s))" "on_run c d"
  shows "fst (svc_step P B q (tm, s)) = K (fst (d s))" "snd (snd (svc_step P B q (tm, s))) = snd (d s)"
  using assms by (simp_all add: on_run_def)

definition program_of :: "platform \<Rightarrow> 's bitstore \<Rightarrow> request \<Rightarrow> ('s, reply) prog \<Rightarrow> bool" where
  "program_of P B q p \<longleftrightarrow>
     (\<forall>xs. snd (snd (replay P B q xs)) = snd (run_prog p \<lparr>rn_found = xs, rn_steps = [], rn_waiting = False\<rparr>)
       \<and> (\<forall>a. fst (run_prog p \<lparr>rn_found = xs, rn_steps = [], rn_waiting = False\<rparr>) = Some a
            \<longrightarrow> fst (replay P B q xs) = a))
     \<and> (\<forall>tm s. fst (svc_step P (piped B) q (tm, s)) = fst (seq_prog p s)
       \<and> snd (snd (svc_step P (piped B) q (tm, s))) = snd (seq_prog p s))"

lemma program_ofI:
  assumes "\<And>tm s. svc_step P (stepwise B) q (tm, s) = map_prod K id (c (tm, s))" "on_run c d"
    and "\<And>tm s. svc_step P (piped B) q (tm, s) = map_prod K id (c' (tm, s))" "on_run c' d'"
    and "steps_as d d'"
  shows "\<exists>p. program_of P B q p"
proof -
  obtain p where p: "d = perform p" "d' = seq_prog p" using assms(5) by (rule steps_asE)
  let ?p = "bind_prog p (\<lambda>a. Done (K a))"
  have run: "snd (d r) = snd (run_prog ?p r) \<and> (\<forall>a. fst (run_prog ?p r) = Some a \<longrightarrow> K (fst (d r)) = a)" for r
    by (simp add: p perform_def run_bind_prog split: prod.split option.split)
  have seq: "K (fst (d' s)) = fst (seq_prog ?p s) \<and> snd (d' s) = snd (seq_prog ?p s)" for s
    by (simp add: p seq_bind_prog split: prod.split)
  have "program_of P B q ?p"
    unfolding program_of_def replay_def
    using svc_step_on_run [OF assms(1,2)] svc_step_on_run [OF assms(3,4)] run seq by simp
  then show ?thesis by blast
qed

lemma request_program: "\<exists>p. program_of P B q p"
proof (cases q)
  case (CreateReq now name n p)
  show ?thesis
    by (rule program_ofI [OF _ on_run_service(1) _ on_run_service(1)]) (simp add: CreateReq, simp add: CreateReq, intro steps_intros)
next
  case (AddReq ord name item)
  show ?thesis
    by (rule program_ofI [OF _ on_run_service(2) _ on_run_service(2)]) (simp add: AddReq, simp add: AddReq, intro steps_intros)
next
  case (ExistsReq ords name item)
  show ?thesis
    by (rule program_ofI [OF _ on_run_service(3) _ on_run_service(3)]) (simp add: ExistsReq, simp add: ExistsReq, intro steps_intros)
next
  case (StatsReq name)
  show ?thesis
    by (rule program_ofI [OF _ on_run_service(4) _ on_run_service(4)]) (simp add: StatsReq, simp add: StatsReq, intro steps_intros)
next
  case (DeleteReq name)
  show ?thesis
    by (rule program_ofI [OF _ on_run_service(5) _ on_run_service(5)]) (simp add: DeleteReq, simp add: DeleteReq, intro steps_intros)
next
  case (SamplesReq mg)
  show ?thesis
    by (rule program_ofI [OF _ on_run_basic(1) _ on_run_basic(1)]) (simp add: SamplesReq, simp add: SamplesReq, intro steps_intros)
qed

lemma replay_prog: "\<exists>p :: ('s, reply) prog. \<forall>xs. snd (snd (replay P B q xs))
    = snd (run_prog p \<lparr>rn_found = xs, rn_steps = [], rn_waiting = False\<rparr>)"
  using request_program [of P B q] unfolding program_of_def by blast

section \<open>Threads\<close>

text \<open>What a request has done is what its operations found; its next operation is appended to that.\<close>

lemma thread_steps:
  assumes "in_progress P B q xs"
  shows "map fst (steps_of P B q xs) = xs" "\<exists>t. steps_of P B q (xs @ [s]) = steps_of P B q xs @ [(s, t)]"
proof -
  let ?r = "\<lambda>xs. \<lparr>rn_found = xs, rn_steps = [], rn_waiting = False\<rparr>"
  obtain p :: "(_, reply) prog" where p: "\<And>xs. snd (snd (replay P B q xs)) = snd (run_prog p (?r xs))"
    using replay_prog [of P B q] by blast
  have "fst (run_prog p (?r xs)) = None"
  proof (rule ccontr)
    assume "fst (run_prog p (?r xs)) \<noteq> None"
    then have "\<not> rn_waiting (snd (run_prog p (?r xs)))" using run_prog_done [of p "?r xs"] by auto
    then show False using assms by (simp add: in_progress_def p)
  qed
  then have w: "run_prog p (?r xs) = (None, snd (run_prog p (?r xs)))" by (metis prod.collapse)
  show "map fst (steps_of P B q xs) = xs"
    using run_prog_waiting [OF w] by (auto simp: steps_of_def p)
  show "\<exists>t. steps_of P B q (xs @ [s]) = steps_of P B q xs @ [(s, t)]"
    using run_prog_more [OF w] by (simp add: steps_of_def p)
qed

lemma steps_of_Nil [simp]: "steps_of P B q [] = []"
proof -
  obtain p :: "(_, reply) prog" where p: "\<And>xs. snd (snd (replay P B q xs))
      = snd (run_prog p \<lparr>rn_found = xs, rn_steps = [], rn_waiting = False\<rparr>)"
    using replay_prog [of P B q] by blast
  then show ?thesis using run_prog_found [of p "[]" "[]" False] by (auto simp: steps_of_def)
qed

text \<open>Every request answers after finitely many operations, whatever the others do.\<close>

lemma thread_ends: "\<exists>n. \<not> in_progress P B q (map f [0..<n])"
proof -
  obtain p :: "(_, reply) prog" where p: "\<And>xs. snd (snd (replay P B q xs))
      = snd (run_prog p \<lparr>rn_found = xs, rn_steps = [], rn_waiting = False\<rparr>)"
    using replay_prog [of P B q] by blast
  obtain n v l where "run_prog p \<lparr>rn_found = map f [0..<n], rn_steps = [], rn_waiting = False\<rparr>
      = (Some v, \<lparr>rn_found = [], rn_steps = l, rn_waiting = False\<rparr>)"
    using run_prog_ends [of p f "[]" False] by blast
  then have "\<not> in_progress P B q (map f [0..<n])" by (simp add: in_progress_def p)
  then show ?thesis by blast
qed

section \<open>A request by itself\<close>

text \<open>
  A request that no other interrupts answers, and leaves the store, as the service's operation does in
  one step: the histories of the service on \<open>piped B\<close> are the configurations in which requests do not overlap.
\<close>

lemma run_alone:
  assumes "svc_step P (piped B) q (tm, s) = (a, (tm', t))" "valid_request q"
  shows "\<exists>xs. (sys_step P B)\<^sup>*\<^sup>* (s, ths) (t, ths @ [(q, xs)]) \<and> answered P B q xs = Some a"
proof -
  obtain p where p: "program_of P B q p" using request_program by blast
  let ?l = "seq_steps p s"
  let ?state = "\<lambda>n. if n = 0 then s else snd (?l ! (n - 1))"
  let ?conf = "\<lambda>n. (?state n, ths @ [(q, take n (map fst ?l))])"
  have waits: "in_progress P B q (take n (map fst ?l))" "steps_of P B q (take n (map fst ?l)) = take n ?l"
    if "n < length ?l" for n
    using p run_seq_prefix [OF that] by (simp_all add: program_of_def in_progress_def steps_of_def)
  have all: "\<not> in_progress P B q (map fst ?l)" "steps_of P B q (map fst ?l) = ?l"
      "fst (replay P B q (map fst ?l)) = fst (seq_prog p s)"
    using p run_seq_steps [of p s "[]" False] by (simp_all add: program_of_def in_progress_def steps_of_def)
  have reach: "(sys_step P B)\<^sup>*\<^sup>* (s, ths) (?conf n)" if "n \<le> length ?l" for n
    using that
  proof (induction n)
    case 0
    then show ?case using arrive [OF assms(2), of P B s ths] by simp
  next
    case (Suc n)
    let ?xs = "take n (map fst ?l)"
    have n: "n < length ?l" using Suc.prems by simp
    have next_xs: "?xs @ [?state n] = take (Suc n) (map fst ?l)"
      using seq_steps_links [OF n] n by (simp add: take_Suc_conv_app_nth)
    have "steps_of P B q (take (Suc n) (map fst ?l)) = take (Suc n) ?l"
      using waits(2) [of "Suc n"] all(2) n by (cases "Suc n < length ?l") simp_all
    then have left: "snd (last (steps_of P B q (take (Suc n) (map fst ?l)))) = ?state (Suc n)"
      using n by (simp add: take_Suc_conv_app_nth)
    have "sys_step P B (?conf n) (snd (last (steps_of P B q (?xs @ [?state n]))),
        (ths @ [(q, ?xs)])[length ths := (q, ?xs @ [?state n])])"
      by (rule operate) (use waits(1) [OF n] in simp_all)
    then have "sys_step P B (?conf n) (?conf (Suc n))"
      unfolding next_xs left by (simp only: list_update_length)
    then show ?case using Suc n by (meson less_imp_le rtranclp.rtrancl_into_rtrancl)
  qed
  have ended: "fst (seq_prog p s) = a" "snd (seq_prog p s) = t"
    using p assms(1) unfolding program_of_def by (metis fst_conv snd_conv)+
  have "?state (length ?l) = t"
    using ended(2) seq_steps_last [of p s] by (auto simp: last_conv_nth)
  moreover have "answered P B q (map fst ?l) = Some a"
    using all ended(1) by (simp add: answered_def)
  ultimately show ?thesis using reach [of "length ?l"] by auto
qed

lemma arrive_reaches:
  assumes "valid_request q" "(sys_step P B)\<^sup>*\<^sup>* (s, ths @ [(q, [])]) c"
  shows "(sys_step P B)\<^sup>*\<^sup>* (s, ths) c"
  using arrive [OF assms(1)] assms(2) by (rule converse_rtranclp_into_rtranclp)

lemma histories_run:
  assumes "svc_run P (piped B) qs (tm, s) = (rs, (tm', t))" "\<forall>q \<in> set qs. valid_request q"
  shows "\<exists>new. (sys_step P B)\<^sup>*\<^sup>* (s, ths) (t, ths @ new) \<and> map fst new = qs
    \<and> map (\<lambda>(q, xs). answered P B q xs) new = map Some rs"
  using assms
proof (induction qs arbitrary: tm s rs ths)
  case (Cons q qs)
  obtain a tm1 s1 where q: "svc_step P (piped B) q (tm, s) = (a, (tm1, s1))" by (metis surj_pair)
  obtain as where rest: "svc_run P (piped B) qs (tm1, s1) = (as, (tm', t))" "rs = a # as"
    using Cons.prems(1) q by (auto split: prod.splits)
  obtain xs where xs: "(sys_step P B)\<^sup>*\<^sup>* (s, ths) (s1, ths @ [(q, xs)])" "answered P B q xs = Some a"
    using run_alone [OF q] Cons.prems(2) by auto
  from Cons.IH [OF rest(1), of "ths @ [(q, xs)]"] Cons.prems(2) obtain new
    where new: "(sys_step P B)\<^sup>*\<^sup>* (s1, ths @ [(q, xs)]) (t, ths @ (q, xs) # new)" "map fst new = qs"
      "map (\<lambda>(q, xs). answered P B q xs) new = map Some as" by auto
  have "(sys_step P B)\<^sup>*\<^sup>* (s, ths) (t, ths @ (q, xs) # new)" using xs(1) new(1) by (rule rtranclp_trans)
  then show ?case using new(2,3) xs(2) rest(2) by (intro exI [of _ "(q, xs) # new"]) simp
qed simp

end
