(* ===== verification/RelyGuarantee.thy ===== *)
theory RelyGuarantee
  imports Interleaving
begin

text \<open>
  What a request guarantees while others run, and what it can rely on. \<open>rg X Y v c Q\<close>: when the call
  \<open>c\<close> starts at a store with the view \<open>v\<close> and the others only make the view evolve without dropping a
  filter outside \<open>X\<close>, then each of its own operations drops no filter outside \<open>Y\<close>, and a value it
  returns satisfies \<open>Q\<close> with the view its last operation left.
\<close>

fun chain :: "('s \<Rightarrow> view) \<Rightarrow> string set \<Rightarrow> view \<Rightarrow> ('s \<times> 's) list \<Rightarrow> bool" where
  "chain vw X v [] \<longleftrightarrow> True"
| "chain vw X v ((x, t) # l) \<longleftrightarrow> evolves X v (vw x) \<and> chain vw X (vw t) l"

definition left :: "('s \<Rightarrow> view) \<Rightarrow> view \<Rightarrow> ('s \<times> 's) list \<Rightarrow> view" where
  "left vw v l = (if l = [] then v else vw (snd (last l)))"

definition drops_only :: "('s \<Rightarrow> view) \<Rightarrow> string set \<Rightarrow> ('s \<times> 's) list \<Rightarrow> bool" where
  "drops_only vw Y l \<longleftrightarrow> (\<forall>(x, t) \<in> set l. evolves Y (vw x) (vw t))"

lemma left_simps [simp]: "left vw v [] = v" "left vw v ((x, t) # l) = left vw (vw t) l"
  "left vw v (l @ [(x, t)]) = vw t"
  by (auto simp: left_def)

lemma left_append: "left vw v (l @ l') = left vw (left vw v l) l'"
  by (simp add: left_def)

lemma chain_append: "chain vw X v (l @ l') \<longleftrightarrow> chain vw X v l \<and> chain vw X (left vw v l) l'"
  by (induction l arbitrary: v) (auto simp: left_def)

lemma drops_only_append [simp]:
  "drops_only vw Y []" "drops_only vw Y (l @ l') \<longleftrightarrow> drops_only vw Y l \<and> drops_only vw Y l'"
  by (auto simp: drops_only_def)

definition rg :: "('s \<Rightarrow> view) \<Rightarrow> string set \<Rightarrow> string set \<Rightarrow> view \<Rightarrow> ('s run, 'a) call
    \<Rightarrow> ('a \<Rightarrow> view \<Rightarrow> bool) \<Rightarrow> bool" where
  "rg vw X Y v c Q \<longleftrightarrow> (\<forall>r a r'. c r = (a, r') \<longrightarrow> (\<exists>new. rn_steps r' = rn_steps r @ new
     \<and> (chain vw X v new \<longrightarrow> drops_only vw Y new \<and> (\<forall>x. a = Ok x \<longrightarrow> Q x (left vw v new)))))"

named_theorems rg_intros \<open>calls among others\<close>

lemma rgD:
  assumes "rg vw X Y v c Q" "c r = (a, r')"
  shows "\<exists>new. rn_steps r' = rn_steps r @ new
     \<and> (chain vw X v new \<longrightarrow> drops_only vw Y new \<and> (\<forall>x. a = Ok x \<longrightarrow> Q x (left vw v new)))"
  using assms(1) [unfolded rg_def, rule_format, OF assms(2)] .

lemma rg_resC: "(\<And>x. a = Ok x \<Longrightarrow> Q x v) \<Longrightarrow> rg vw X Y v (resC a) Q"
  by (simp add: rg_def)

lemma rg_returnC: "Q x v \<Longrightarrow> rg vw X Y v (returnC x) Q"
  by (simp add: rg_def)

lemma rg_mono:
  assumes "rg vw X Y v c Q" "\<And>x w. Q x w \<Longrightarrow> Q' x w"
  shows "rg vw X Y v c Q'"
  unfolding rg_def
proof (intro allI impI)
  fix r a r'
  assume "c r = (a, r')"
  then show "\<exists>new. rn_steps r' = rn_steps r @ new
     \<and> (chain vw X v new \<longrightarrow> drops_only vw Y new \<and> (\<forall>x. a = Ok x \<longrightarrow> Q' x (left vw v new)))"
    using rgD [OF assms(1)] assms(2) by meson
qed

lemma rg_wrapC:
  assumes "rg vw X Y v c Q"
  shows "rg vw X Y v (wrapC p c) Q"
  unfolding rg_def
proof (intro allI impI)
  fix r a r'
  assume "wrapC p c r = (a, r')"
  then obtain a' where "c r = (a', r')" "a = wrapR p a'" by (rule wrapC_cases)
  then show "\<exists>new. rn_steps r' = rn_steps r @ new
     \<and> (chain vw X v new \<longrightarrow> drops_only vw Y new \<and> (\<forall>x. a = Ok x \<longrightarrow> Q x (left vw v new)))"
    using rgD [OF assms] by simp
qed

lemma rg_attemptC:
  assumes "rg vw X Y v c Q"
  shows "rg vw X Y v (attemptC c) (\<lambda>r w. \<forall>x. r = Inr x \<longrightarrow> Q x w)"
  unfolding rg_def
proof (intro allI impI)
  fix r a r'
  assume "attemptC c r = (a, r')"
  then obtain a' where "c r = (a', r')" "\<forall>x. a = Ok (Inr x) \<longrightarrow> a' = Ok x"
    by (auto simp: attemptC_def split: prod.splits res.splits)
  then show "\<exists>new. rn_steps r' = rn_steps r @ new
     \<and> (chain vw X v new \<longrightarrow> drops_only vw Y new \<and> (\<forall>x. a = Ok x \<longrightarrow> (\<forall>y. x = Inr y \<longrightarrow> Q y (left vw v new))))"
    using rgD [OF assms, of r a' r'] by metis
qed

lemma is_prog_steps:
  assumes "is_prog c" "c r = (a, r')"
  shows "\<exists>new. rn_steps r' = rn_steps r @ new"
proof -
  obtain p where p: "c = perform p" using assms(1) by (rule is_progE)
  have "\<exists>new. rn_steps (snd (run_prog p r)) = rn_steps r @ new" for r
  proof (induction p arbitrary: r)
    case (Op g k)
    show ?case
    proof (cases "rn_found r")
      case (Cons x xs)
      then show ?thesis using Op.IH [OF rangeI, of x "r\<lparr>rn_found := xs, rn_steps := rn_steps r @ [(x, g x)]\<rparr>"]
        by auto
    qed simp
  qed simp
  moreover have "r' = snd (run_prog p r)"
    using assms(2) by (auto simp: p perform_def split: prod.splits option.splits)
  ultimately show ?thesis by simp
qed

lemma rg_bindC:
  assumes "rg vw X Y v c Q1" "\<And>x w. Q1 x w \<Longrightarrow> rg vw X Y w (f x) Q" "\<And>x. is_prog (f x)"
  shows "rg vw X Y v (bindC c f) Q"
  unfolding rg_def
proof (intro allI impI)
  fix r a r'
  assume "bindC c f r = (a, r')"
  then show "\<exists>new. rn_steps r' = rn_steps r @ new
     \<and> (chain vw X v new \<longrightarrow> drops_only vw Y new \<and> (\<forall>x. a = Ok x \<longrightarrow> Q x (left vw v new)))"
  proof (cases rule: bindC_cases)
    case (ok x u)
    obtain new1 where n1: "rn_steps u = rn_steps r @ new1"
        "chain vw X v new1 \<longrightarrow> drops_only vw Y new1 \<and> Q1 x (left vw v new1)"
      using rgD [OF assms(1) ok(1)] by auto
    show ?thesis
    proof (cases "chain vw X v new1")
      case True
      then have "rg vw X Y (left vw v new1) (f x) Q" using n1(2) assms(2) by simp
      from rgD [OF this ok(2)] obtain new2 where "rn_steps r' = rn_steps u @ new2"
          "chain vw X (left vw v new1) new2 \<longrightarrow> drops_only vw Y new2
             \<and> (\<forall>y. a = Ok y \<longrightarrow> Q y (left vw (left vw v new1) new2))" by blast
      then have "rn_steps r' = rn_steps r @ (new1 @ new2) \<and> (chain vw X v (new1 @ new2)
          \<longrightarrow> drops_only vw Y (new1 @ new2) \<and> (\<forall>y. a = Ok y \<longrightarrow> Q y (left vw v (new1 @ new2))))"
        using n1 by (simp add: chain_append left_append)
      then show ?thesis by blast
    next
      case False
      obtain new2 where "rn_steps r' = rn_steps u @ new2" using is_prog_steps [OF assms(3) ok(2)] by blast
      then have "rn_steps r' = rn_steps r @ (new1 @ new2) \<and> \<not> chain vw X v (new1 @ new2)"
        using n1(1) False by (simp add: chain_append)
      then show ?thesis by blast
    qed
  next
    case (err e)
    then show ?thesis using rgD [OF assms(1) err(1)] by auto
  next
    case (panic p)
    then show ?thesis using rgD [OF assms(1) panic(1)] by auto
  qed
qed

text \<open>A command of a pipeline and the rest of it, which runs also when the command fails.\<close>

lemma rg_pipeline_Cons:
  fixes c :: "'x \<Rightarrow> ('s run, 'b) call"
  assumes "rg vw X Y v (c x) Q1"
    and "\<And>(r :: error + 'b) w. \<forall>y. r = Inr y \<longrightarrow> Q1 y w \<Longrightarrow> rg vw X Y w (pipeline c xs)
      (\<lambda>ys w'. \<forall>y. r = Inr y \<longrightarrow> Q (y # ys) w')"
    and "\<And>x. is_prog (c x)"
  shows "rg vw X Y v (pipeline c (x # xs)) Q"
  unfolding pipeline.simps
proof (rule rg_bindC [OF rg_attemptC [OF assms(1)]])
  fix r :: "error + 'b" and w
  assume r: "\<forall>y. r = Inr y \<longrightarrow> Q1 y w"
  show "rg vw X Y w (bindC (attemptC (pipeline c xs)) (\<lambda>rs. resC (case r of Inl e \<Rightarrow> Err e
      | Inr y \<Rightarrow> (case rs of Inl e \<Rightarrow> Err e | Inr ys \<Rightarrow> Ok (y # ys))))) Q"
    by (rule rg_bindC [OF rg_attemptC [OF assms(2) [OF r]]]) (auto intro!: rg_resC prog_intros split: sum.splits)
qed (intro prog_intros assms(3))

lemma rg_bind_resC: "(\<And>x. a = Ok x \<Longrightarrow> rg vw X Y v (f x) Q) \<Longrightarrow> rg vw X Y v (bindC (resC a) f) Q"
  by (cases a) (simp_all add: rg_def)

lemma rg_catchC:
  assumes "rg vw X Y v c (\<lambda>_ _. True)" "\<And>e w. rg vw X Y w (h e) (\<lambda>_ _. True)"
  shows "rg vw X Y v (catchC c h) (\<lambda>_ _. True)"
  unfolding rg_def
proof (intro allI impI)
  fix r a r'
  assume "catchC c h r = (a, r')"
  then show "\<exists>new. rn_steps r' = rn_steps r @ new \<and> (chain vw X v new \<longrightarrow> drops_only vw Y new \<and> (\<forall>x. a = Ok x \<longrightarrow> True))"
  proof (cases rule: catchC_cases)
    case (err e u)
    obtain new1 where n1: "rn_steps u = rn_steps r @ new1" "chain vw X v new1 \<longrightarrow> drops_only vw Y new1"
      using rgD [OF assms(1) err(1)] by auto
    obtain new2 where n2: "rn_steps r' = rn_steps u @ new2"
        "chain vw X (left vw v new1) new2 \<longrightarrow> drops_only vw Y new2"
      using rgD [OF assms(2) err(2), of "left vw v new1"] by auto
    have "rn_steps r' = rn_steps r @ (new1 @ new2) \<and> (chain vw X v (new1 @ new2) \<longrightarrow> drops_only vw Y (new1 @ new2))"
      using n1 n2 by (simp add: chain_append)
    then show ?thesis by blast
  qed (use rgD [OF assms(1)] in auto)
qed

lemma rg_if: "(b \<Longrightarrow> rg vw X Y v c Q) \<Longrightarrow> (\<not> b \<Longrightarrow> rg vw X Y v d Q) \<Longrightarrow> rg vw X Y v (if b then c else d) Q"
  by simp

lemma rg_stepC:
  assumes "\<And>x a t. evolves X v (vw x) \<Longrightarrow> c x = (a, t) \<Longrightarrow> evolves Y (vw x) (vw t) \<and> (\<forall>y. a = Ok y \<longrightarrow> Q y (vw t))"
  shows "rg vw X Y v (stepC c) Q"
  unfolding rg_def
proof (intro allI impI)
  fix r a r'
  assume run: "stepC c r = (a, r')"
  show "\<exists>new. rn_steps r' = rn_steps r @ new
     \<and> (chain vw X v new \<longrightarrow> drops_only vw Y new \<and> (\<forall>x. a = Ok x \<longrightarrow> Q x (left vw v new)))"
  proof (cases "rn_found r")
    case Nil
    then have "rn_steps r' = rn_steps r @ [] \<and> a = Panic ''waiting''" using run by (auto simp: stepC_def)
    then show ?thesis by auto
  next
    case (Cons x xs)
    obtain b t where "c x = (b, t)" by (metis surj_pair)
    then have "rn_steps r' = rn_steps r @ [(x, t)]" "a = b"
      using run Cons by (auto simp: stepC_def)
    then show ?thesis using assms [OF _ \<open>c x = (b, t)\<close>] by (auto simp: drops_only_def)
  qed
qed

section \<open>The store's operations\<close>

text \<open>The view after an operation among others, and what it keeps of a filter that is not dropped.\<close>

definition later :: "string \<Rightarrow> view \<Rightarrow> view \<Rightarrow> bool" where
  "later name v w \<longleftrightarrow> counts_ok w \<and> keeps_filter name v w"

lemma later_refl: "counts_ok v \<Longrightarrow> later name v v"
  by (simp add: later_def)

lemma later_evolves:
  "later name u v \<Longrightarrow> evolves X v w \<Longrightarrow> valid_name name \<Longrightarrow> name \<notin> X \<Longrightarrow> later name u w"
  unfolding later_def evolves_def by (meson keeps_filter_trans)

lemma later_trans: "later name u v \<Longrightarrow> later name v w \<Longrightarrow> later name u w"
  unfolding later_def using keeps_filter_trans by blast

lemma later_bits: "later name u v \<Longrightarrow> vbits u (shardKey name i sh) \<subseteq> vbits v (shardKey name i sh)"
  by (auto simp: later_def keeps_filter_def)

context bit_store
begin

lemma rg_HGetAll:
  assumes "kind_of k = HashKey" "\<And>w. evolves X v w \<Longrightarrow> Q (vhash w k) w"
  shows "rg view X Y v (HGetAll (stepwise B) k) Q"
proof -
  have "rg view X Y v (stepC (HGetAll B k)) Q"
    by (rule rg_stepC) (use HGetAll_law [OF _ assms(1)] assms(2) in fastforce)
  then show ?thesis by (simp add: stepwise_def)
qed

lemma rg_Get:
  assumes "kind_of k = CounterKey" "\<And>x w. evolves X v w \<Longrightarrow> Q x w"
  shows "rg view X Y v (Get (stepwise B) k) Q"
proof -
  have "rg view X Y v (stepC (Get B k)) Q"
    by (rule rg_stepC) (use Get_law [OF _ assms(1)] assms(2) in fastforce)
  then show ?thesis by (simp add: stepwise_def)
qed

lemma rg_SMembers:
  assumes "kind_of k = SetKey" "\<And>x w. evolves X v w \<Longrightarrow> Q x w"
  shows "rg view X Y v (SMembers (stepwise B) k) Q"
proof -
  have "rg view X Y v (stepC (SMembers B k)) Q"
    by (rule rg_stepC) (use SMembers_law [OF _ assms(1)] assms(2) in fastforce)
  then show ?thesis by (simp add: stepwise_def)
qed

text \<open>
  Pipelines of bits of a filter: \<open>p\<close> says that the filter is not dropped; then the bits that were set
  by the earlier commands stay while the later ones run.
\<close>

lemma rg_SetBits_pipeline:
  assumes "p \<Longrightarrow> later name u v" "p \<Longrightarrow> valid_name name \<and> name \<notin> X"
  shows "rg view X Y v (pipeline (\<lambda>o'. stepC (SetBits B (shardKey name i sh) [o'])) os) (\<lambda>_ w. p \<longrightarrow> later name u w
    \<and> set os \<subseteq> vbits w (shardKey name i sh))"
  using assms
proof (induction os arbitrary: p u v)
  case Nil
  then show ?case by (simp only: pipeline.simps) (rule rg_returnC, simp)
next
  case (Cons o' os)
  let ?k = "shardKey name i sh"
  let ?Q1 = "\<lambda>_ w. p \<longrightarrow> later name u w \<and> o' \<in> vbits w ?k"
  show ?case
  proof (rule rg_pipeline_Cons [where ?Q1.0 = ?Q1])
    show "rg view X Y v (stepC (SetBits B ?k [o'])) ?Q1"
    proof (rule rg_stepC)
      fix x a t
      assume "evolves X v (view x)" and run: "SetBits B ?k [o'] x = (a, t)"
      then have x: "p \<Longrightarrow> later name u (view x)" using later_evolves [OF Cons.prems(1)] Cons.prems(2) by blast
      obtain A where A: "view t = v_setbits ?k A (view x)" "a = Ok () \<longrightarrow> A = {o'}"
        using SetBits_law [OF run] by fastforce
      have "p \<Longrightarrow> later name u (view t)"
        using later_evolves [of name u "view x" "{}" "view t"] x Cons.prems(2) A(1) by simp
      moreover have "evolves Y (view x) (view t)" by (simp add: A(1))
      ultimately show "evolves Y (view x) (view t) \<and> (\<forall>y. a = Ok y \<longrightarrow> ?Q1 y (view t))"
        using A by (auto simp: v_setbits_def)
    qed
  next
    fix r w
    assume r: "\<forall>y. r = Inr y \<longrightarrow> ?Q1 y w"
    let ?p = "p \<and> (\<exists>y. r = Inr y)"
    have "rg view X Y w (pipeline (\<lambda>o'. stepC (SetBits B ?k [o'])) os)
        (\<lambda>_ w'. ?p \<longrightarrow> later name w w' \<and> set os \<subseteq> vbits w' ?k)"
      by (rule Cons.IH) (use r Cons.prems(2) in \<open>auto simp: later_def\<close>)
    then show "rg view X Y w (pipeline (\<lambda>o'. stepC (SetBits B ?k [o'])) os)
        (\<lambda>ys w'. \<forall>y. r = Inr y \<longrightarrow> p \<longrightarrow> later name u w' \<and> set (o' # os) \<subseteq> vbits w' ?k)"
    proof (rule rg_mono, intro allI impI)
      fix w' y
      assume "?p \<longrightarrow> later name w w' \<and> set os \<subseteq> vbits w' ?k" "r = Inr y" p
      then show "later name u w' \<and> set (o' # os) \<subseteq> vbits w' ?k"
        using r later_trans [of name u w w'] later_bits [of name w w' i sh] by auto
    qed
  qed (intro prog_intros)
qed

lemma rg_GetBits_pipeline:
  assumes "p \<Longrightarrow> later name u v" "p \<Longrightarrow> valid_name name \<and> name \<notin> X"
  shows "rg view X Y v (pipeline (\<lambda>o'. stepC (GetBits B (shardKey name i sh) [o'])) os) (\<lambda>bs w. p \<longrightarrow> later name u w
    \<and> (set os \<subseteq> vbits u (shardKey name i sh) \<longrightarrow> False \<notin> set (concat bs)))"
  using assms
proof (induction os arbitrary: p v)
  case Nil
  then show ?case by (simp only: pipeline.simps) (rule rg_returnC, simp)
next
  case (Cons o' os)
  let ?k = "shardKey name i sh"
  let ?Q1 = "\<lambda>b w. p \<longrightarrow> later name u w \<and> (o' \<in> vbits u ?k \<longrightarrow> False \<notin> set b)"
  show ?case
  proof (rule rg_pipeline_Cons [where ?Q1.0 = ?Q1])
    show "rg view X Y v (stepC (GetBits B ?k [o'])) ?Q1"
    proof (rule rg_stepC)
      fix x a t
      assume "evolves X v (view x)" and run: "GetBits B ?k [o'] x = (a, t)"
      then have x: "p \<Longrightarrow> later name u (view x)" using later_evolves [OF Cons.prems(1)] Cons.prems(2) by blast
      have "view t = view x" "\<forall>y. a = Ok y \<longrightarrow> y = [o' \<in> vbits (view x) ?k]"
        using GetBits_law [OF run] by auto
      then show "evolves Y (view x) (view t) \<and> (\<forall>y. a = Ok y \<longrightarrow> ?Q1 y (view t))"
        using x later_bits [of name u "view x" i sh] by auto
    qed
  next
    fix r w
    assume r: "\<forall>y. r = Inr y \<longrightarrow> ?Q1 y w"
    let ?p = "p \<and> (\<exists>y. r = Inr y)"
    have "rg view X Y w (pipeline (\<lambda>o'. stepC (GetBits B ?k [o'])) os)
        (\<lambda>bs w'. ?p \<longrightarrow> later name u w' \<and> (set os \<subseteq> vbits u ?k \<longrightarrow> False \<notin> set (concat bs)))"
      by (rule Cons.IH) (use r Cons.prems(2) in auto)
    then show "rg view X Y w (pipeline (\<lambda>o'. stepC (GetBits B ?k [o'])) os) (\<lambda>ys w'. \<forall>y. r = Inr y \<longrightarrow>
        p \<longrightarrow> later name u w' \<and> (set (o' # os) \<subseteq> vbits u ?k \<longrightarrow> False \<notin> set (concat (y # ys))))"
      by (rule rg_mono) (use r in auto)
  qed (intro prog_intros)
qed

lemma rg_SetBits:
  assumes "p \<Longrightarrow> later name u v" "p \<Longrightarrow> valid_name name \<and> name \<notin> X"
  shows "rg view X Y v (SetBits (stepwise B) (shardKey name i sh) os) (\<lambda>_ w. p \<longrightarrow> later name u w
    \<and> set os \<subseteq> vbits w (shardKey name i sh))"
proof -
  have "rg view X Y v (set_each (\<lambda>os. stepC (SetBits B (shardKey name i sh) os)) os) (\<lambda>_ w. p \<longrightarrow> later name u w
    \<and> set os \<subseteq> vbits w (shardKey name i sh))"
    unfolding set_each_def
    by (rule rg_bindC [OF rg_SetBits_pipeline [where p = p and u = u]]) (use assms in \<open>auto intro!: rg_returnC prog_intros\<close>)
  then show ?thesis by (simp add: stepwise_def)
qed

lemma rg_GetBits:
  assumes "p \<Longrightarrow> later name u v" "p \<Longrightarrow> valid_name name \<and> name \<notin> X"
  shows "rg view X Y v (GetBits (stepwise B) (shardKey name i sh) os) (\<lambda>bits w. p \<longrightarrow> later name u w
    \<and> (set os \<subseteq> vbits u (shardKey name i sh) \<longrightarrow> False \<notin> set bits))"
proof -
  have "rg view X Y v (get_each (\<lambda>os. stepC (GetBits B (shardKey name i sh) os)) os) (\<lambda>bits w. p \<longrightarrow> later name u w
    \<and> (set os \<subseteq> vbits u (shardKey name i sh) \<longrightarrow> False \<notin> set bits))"
    unfolding get_each_def
    by (rule rg_bindC [OF rg_GetBits_pipeline [where p = p and u = u]]) (use assms in \<open>auto intro!: rg_returnC prog_intros\<close>)
  then show ?thesis by (simp add: stepwise_def)
qed

text \<open>Of the other writes only what they do to the filters matters.\<close>

lemma rg_write:
  assumes "\<And>s a t. c s = (a, t) \<Longrightarrow> evolves Y (view s) (view t)"
    and "\<And>x w w'. evolves X v w \<Longrightarrow> evolves Y w w' \<Longrightarrow> Q x w'"
  shows "rg view X Y v (stepC c) Q"
  by (rule rg_stepC) (use assms in blast)

lemma rg_Incr:
  assumes "kind_of k = CounterKey" "\<And>x w w'. evolves X v w \<Longrightarrow> evolves Y w w' \<Longrightarrow> Q x w'"
  shows "rg view X Y v (Incr (stepwise B) k) Q"
proof -
  have "rg view X Y v (stepC (Incr B k)) Q"
    by (rule rg_write) (use Incr_law [OF _ assms(1)] assms(2) in fastforce)+
  then show ?thesis by (simp add: stepwise_def)
qed

lemma rg_SAdd:
  assumes "kind_of k = SetKey" "\<And>x w w'. evolves X v w \<Longrightarrow> evolves Y w w' \<Longrightarrow> Q x w'"
  shows "rg view X Y v (SAdd (stepwise B) k ms) Q"
proof -
  have "rg view X Y v (stepC (SAdd B k ms)) Q"
    by (rule rg_write) (use SAdd_law [OF _ assms(1)] assms(2) in fastforce)+
  then show ?thesis by (simp add: stepwise_def)
qed

lemma rg_SRem:
  assumes "kind_of k = SetKey" "\<And>x w w'. evolves X v w \<Longrightarrow> evolves Y w w' \<Longrightarrow> Q x w'"
  shows "rg view X Y v (SRem (stepwise B) k ms) Q"
proof -
  have "rg view X Y v (stepC (SRem B k ms)) Q"
    by (rule rg_write) (use SRem_law [OF _ assms(1)] assms(2) in fastforce)+
  then show ?thesis by (simp add: stepwise_def)
qed

lemma rg_HSet:
  assumes "kind_of k = HashKey" "\<And>w. evolves Y w (v_hset k fs w)"
    and "\<And>x w w'. evolves X v w \<Longrightarrow> evolves Y w w' \<Longrightarrow> Q x w'"
  shows "rg view X Y v (HSet (stepwise B) k fs) Q"
proof -
  have "evolves Y (view s) (view t)" if "HSet B k fs s = (a, t)" for s a t
    using HSet_law [OF that assms(1)] assms(2) [of "view s"] by auto
  then have "rg view X Y v (stepC (HSet B k fs)) Q" using assms(3) by (rule rg_write)
  then show ?thesis by (simp add: stepwise_def)
qed

lemma rg_Del:
  assumes "\<And>w. evolves Y w (v_del ks w)" "\<And>x w w'. evolves X v w \<Longrightarrow> evolves Y w w' \<Longrightarrow> Q x w'"
  shows "rg view X Y v (Del (stepwise B) ks) Q"
proof -
  have "evolves Y (view s) (view t)" if "Del B ks s = (a, t)" for s a t
    using Del_law [OF that] assms(1) [of "view s"] by auto
  then have "rg view X Y v (stepC (Del B ks)) Q" using assms(2) by (rule rg_write)
  then show ?thesis by (simp add: stepwise_def)
qed

lemma rg_AppendStage:
  assumes "valid_name nm" "x \<noteq> 0" "sint x < 2 ^ 63 - 1" "i = sint x"
    and "\<And>x w w'. evolves X v w \<Longrightarrow> evolves Y w w' \<Longrightarrow> Q x w'"
  shows "rg view X Y v (AppendStage (stepwise B) (metaKey nm) x fs (stageMetaKey nm i)) Q"
proof -
  have "evolves Y (view s) (view t)" if "AppendStage B (metaKey nm) x fs (stageMetaKey nm i) s = (a, t)" for s a t
    using AppendStage_evolves [OF that [unfolded assms(4)] assms(1-3)] evolves_mono by blast
  then have "rg view X Y v (stepC (AppendStage B (metaKey nm) x fs (stageMetaKey nm i))) Q"
    using assms(5) by (rule rg_write)
  then show ?thesis by (simp add: stepwise_def)
qed

end

section \<open>Loading\<close>

text \<open>\<open>sts\<close> are the stages that the view \<open>v\<close> has from index \<open>i\<close> on, with some fill counts.\<close>

definition stage_from :: "view \<Rightarrow> string \<Rightarrow> int \<Rightarrow> stage \<Rightarrow> bool" where
  "stage_from v name i st \<longleftrightarrow>
     (\<exists>st0 n. mapToStage (vhash v (stageMetaKey name i)) i = Ok st0 \<and> st = st0\<lparr>st_fill := n\<rparr>)"

fun stages_from :: "view \<Rightarrow> string \<Rightarrow> nat \<Rightarrow> stage list \<Rightarrow> bool" where
  "stages_from v name i [] \<longleftrightarrow> True"
| "stages_from v name i (st # sts) \<longleftrightarrow> stage_from v name (int i) st \<and> stages_from v name (Suc i) sts"

lemma stages_from_nth:
  "stages_from v name i sts \<Longrightarrow> j < length sts \<Longrightarrow> stage_from v name (int (i + j)) (sts ! j)"
proof (induction sts arbitrary: i j)
  case (Cons st sts)
  then show ?case using Cons.IH [of "Suc i" "j - 1"] by (cases j) auto
qed simp

lemma stage_fromI:
  "mapToStage (vhash v (stageMetaKey name i)) i = Ok st \<Longrightarrow> stage_from v name i st"
  "mapToStage (vhash v (stageMetaKey name i)) i = Ok st \<Longrightarrow> stage_from v name i (st\<lparr>st_fill := n\<rparr>)"
proof -
  assume st: "mapToStage (vhash v (stageMetaKey name i)) i = Ok st"
  then show "stage_from v name i (st\<lparr>st_fill := n\<rparr>)" unfolding stage_from_def by blast
  have "st = st\<lparr>st_fill := st_fill st\<rparr>" by simp
  then show "stage_from v name i st" using st unfolding stage_from_def by blast
qed

lemma later_stage:
  "later name u w \<Longrightarrow> stage_count_text u name = Some (FormatInt c) \<Longrightarrow> 0 \<le> i \<Longrightarrow> i < sint c \<Longrightarrow>
     vhash w (stageMetaKey name i) = vhash u (stageMetaKey name i)"
  by (auto simp: later_def keeps_filter_def)

definition loaded :: "platform \<Rightarrow> bool \<Rightarrow> view \<Rightarrow> string \<Rightarrow> bloom \<Rightarrow> view \<Rightarrow> bool" where
  "loaded P p v name f w \<longleftrightarrow> f_name f = name \<and> 40 * int (length (f_stages f)) \<le> 2 ^ 48
     \<and> (p \<longrightarrow> later name v w \<and> (f_stages f \<noteq> [] \<longrightarrow> handle w f)
        \<and> (\<forall>item. present P v name item \<longrightarrow> (\<exists>st \<in> set (f_stages f). stage_has P w name item st)))"

text \<open>What was loaded stage by stage while the filter evolved.\<close>

lemma loaded_handle:
  assumes "later (f_name f) u w" "valid_name (f_name f)" "f_stages f \<noteq> []"
    and "stage_count_text u (f_name f) = Some (FormatInt c)" "sint c = int (length (f_stages f))"
    and "stages_from u (f_name f) 0 (f_stages f)" "40 * int (length (f_stages f)) \<le> 2 ^ 48"
  shows "handle w f"
proof -
  obtain d where "stage_count_text w (f_name f) = Some (FormatInt d)" "sint c \<le> sint d"
    using assms(1,4) by (auto simp: later_def keeps_filter_def)
  moreover have "\<exists>st n. mapToStage (vhash w (stageMetaKey (f_name f) (int j))) (int j) = Ok st
      \<and> f_stages f ! j = st\<lparr>st_fill := n\<rparr>" if "j < length (f_stages f)" for j
    using stages_from_nth [OF assms(6) that] later_stage [OF assms(1,4), of "int j"] assms(5) that
    by (simp add: stage_from_def)
  ultimately show ?thesis using assms(2,3,5,7) by (auto simp: handle_def)
qed

lemma loaded_present:
  assumes "later name u w" "present P u name item"
    and "stage_count_text u name = Some (FormatInt c)" "sint c = int (length sts)"
    and "stages_from u name 0 sts"
  shows "\<exists>st \<in> set sts. stage_has P w name item st"
proof -
  obtain i st where i: "0 \<le> i" "i < sint c"
      "mapToStage (vhash u (stageMetaKey name i)) i = Ok st" "stage_has P u name item st"
    using assms(2,3) by (auto simp: present_def)
  have j: "nat i < length sts" using i assms(4) by simp
  then obtain n where "sts ! nat i = st\<lparr>st_fill := n\<rparr>"
    using stages_from_nth [OF assms(5), of "nat i"] i by (auto simp: stage_from_def)
  moreover have "stage_has P w name item st"
    using i(4) assms(1) by (auto simp: later_def keeps_filter_def intro: stage_has_mono)
  ultimately show ?thesis using j by (metis nth_mem stage_has_fill)
qed

context bit_store
begin

text \<open>
  \<open>p\<close> says that no other request drops the filter; then the stages are those of the view \<open>u\<close> at which
  the filter's metadata was read.
\<close>

lemma rg_load_stage:
  assumes "p \<Longrightarrow> later name u v" "p \<Longrightarrow> valid_name name \<and> name \<notin> X"
    and "p \<Longrightarrow> stage_count_text u name = Some (FormatInt c) \<and> 0 \<le> i \<and> i < sint c"
  shows "rg view X Y v (load_stage (stepwise B) name i) (\<lambda>st w. p \<longrightarrow> later name u w
     \<and> stage_from u name i st)"
  (is "rg _ _ _ _ _ ?Q")
  unfolding load_stage_def
proof (rule rg_bindC [OF rg_wrapC [OF rg_HGetAll]])
  let ?Q1 = "\<lambda>fs w. p \<longrightarrow> later name u w \<and> fs = vhash u (stageMetaKey name i)"
  show "?Q1 (vhash w (stageMetaKey name i)) w" if "evolves X v w" for w
    using assms later_evolves [OF _ that] later_stage by metis
  fix fs w
  assume fs: "?Q1 fs w"
  show "rg view X Y w (bindC (resC (mapToStage fs i)) (\<lambda>st.
      bindC (wrapC (''bloom: read stage '' @ Itoa i @ '' fill: '') (Get (stepwise B) (fillKey name i)))
        (\<lambda>(fillStr, ok). if ok then bindC (resC (wrapR (''bloom: parse stage '' @ Itoa i @ '' fill: '')
            (ParseUint fillStr))) (\<lambda>fill. returnC (st\<lparr>st_fill := fill\<rparr>)) else returnC st))) ?Q"
  proof (rule rg_bindC [OF rg_resC])
    fix st
    assume st: "mapToStage fs i = Ok st"
    show "p \<longrightarrow> later name u w \<and> mapToStage (vhash u (stageMetaKey name i)) i = Ok st" using fs st by auto
  next
    fix st w'
    assume w': "p \<longrightarrow> later name u w' \<and> mapToStage (vhash u (stageMetaKey name i)) i = Ok st"
    show "rg view X Y w' (bindC (wrapC (''bloom: read stage '' @ Itoa i @ '' fill: '') (Get (stepwise B) (fillKey name i)))
        (\<lambda>(fillStr, ok). if ok then bindC (resC (wrapR (''bloom: parse stage '' @ Itoa i @ '' fill: '')
            (ParseUint fillStr))) (\<lambda>fill. returnC (st\<lparr>st_fill := fill\<rparr>)) else returnC st)) ?Q"
    proof (rule rg_bindC [OF rg_wrapC [OF rg_Get [where Q = "\<lambda>_ x. p \<longrightarrow> later name u x"]]])
      show "p \<longrightarrow> later name u x" if "evolves X w' x" for x
        using w' assms(2) later_evolves [OF _ that] by blast
      fix fo x
      assume "p \<longrightarrow> later name u x"
      then show "rg view X Y x (case fo of (fillStr, ok) \<Rightarrow> if ok then bindC (resC (wrapR
          (''bloom: parse stage '' @ Itoa i @ '' fill: '') (ParseUint fillStr)))
          (\<lambda>fill. returnC (st\<lparr>st_fill := fill\<rparr>)) else returnC st) ?Q"
        using w' by (cases fo) (auto intro!: rg_if rg_bind_resC rg_returnC intro: stage_fromI)
    qed (simp, intro prog_intros)
  qed (intro prog_intros)
qed (simp, intro prog_intros)

lemma rg_load_loop:
  assumes "p \<Longrightarrow> later name u v" "p \<Longrightarrow> valid_name name \<and> name \<notin> X"
    and "p \<Longrightarrow> stage_count_text u name = Some (FormatInt c) \<and> int (i + n) \<le> sint c"
  shows "rg view X Y v (load_loop (stepwise B) name i n) (\<lambda>sts w. length sts = n
     \<and> (p \<longrightarrow> later name u w \<and> stages_from u name i sts))"
  using assms(1,3)
proof (induction n arbitrary: i v)
  case 0
  then show ?case by (simp only: load_loop.simps) (rule rg_returnC, simp)
next
  case (Suc n)
  show ?case unfolding load_loop.simps
  proof (rule rg_bindC [OF rg_load_stage])
    show "p \<Longrightarrow> later name u v" by (rule Suc.prems(1))
    show "p \<Longrightarrow> valid_name name \<and> name \<notin> X" by (rule assms(2))
    show "p \<Longrightarrow> stage_count_text u name = Some (FormatInt c) \<and> 0 \<le> int i \<and> int i < sint c"
      using Suc.prems(2) by simp
    fix st w
    assume st: "p \<longrightarrow> later name u w \<and> stage_from u name (int i) st"
    show "rg view X Y w (bindC (load_loop (stepwise B) name (Suc i) n) (\<lambda>sts. returnC (st # sts)))
        (\<lambda>sts w. length sts = Suc n \<and> (p \<longrightarrow> later name u w \<and> stages_from u name i sts))"
    proof (rule rg_bindC [OF Suc.IH])
      show "p \<Longrightarrow> later name u w" using st by blast
      show "p \<Longrightarrow> stage_count_text u name = Some (FormatInt c) \<and> int (Suc i + n) \<le> sint c"
        using Suc.prems(2) by simp
    qed (use st in \<open>auto intro!: rg_returnC prog_intros\<close>)
  qed (intro prog_intros)
qed

lemma rg_load_stages:
  assumes "p \<Longrightarrow> later name v u \<and> valid_name name \<and> name \<notin> X"
    and "Atoi (field (vhash u (metaKey name)) ''stage_count'') = Ok sc" "0 \<le> sc" "40 * sc \<le> 2 ^ 48"
    and mk: "\<And>sts. f_name (mk sts) = name \<and> f_stages (mk sts) = sts"
  shows "rg view X Y u (bindC (load_loop (stepwise B) name 0 (nat sc)) (\<lambda>stages. returnC (mk stages)))
    (loaded P p v name)"
proof -
  obtain c where c: "p \<Longrightarrow> stage_count_text u name = Some (FormatInt c) \<and> sint c = sc"
  proof (cases p)
    case True
    have "stage_count_text u name \<noteq> None"
      using assms(2) by (auto simp: stage_count_text_def field_def split: option.splits)
    then obtain c where "stage_count_text u name = Some (FormatInt c)"
      using assms(1) [OF True] unfolding later_def counts_ok_def by metis
    moreover from this have "sint c = sc" using assms(2) by (simp add: stage_count_text_def field_def)
    ultimately show thesis using that by blast
  qed (use that in blast)
  show ?thesis
  proof (rule rg_bindC [OF rg_load_loop [where p = p and u = u and c = c]])
    show "p \<Longrightarrow> later name u u" using assms(1) by (auto simp: later_def)
    show "p \<Longrightarrow> valid_name name \<and> name \<notin> X" using assms(1) by blast
    show "p \<Longrightarrow> stage_count_text u name = Some (FormatInt c) \<and> int (0 + nat sc) \<le> sint c"
      using c assms(3) by simp
    fix sts w
    assume sts: "length sts = nat sc \<and> (p \<longrightarrow> later name u w \<and> stages_from u name 0 sts)"
    have "later name v w \<and> (f_stages (mk sts) \<noteq> [] \<longrightarrow> handle w (mk sts))
        \<and> (\<forall>item. present P v name item \<longrightarrow> (\<exists>st \<in> set (f_stages (mk sts)). stage_has P w name item st))" if p
    proof -
      have "sint c = int (length sts)" "later name u w" "stages_from u name 0 sts" "later name v u"
          "stage_count_text u name = Some (FormatInt c)"
        using sts c assms(1,3) that by auto
      then show ?thesis
        using loaded_handle [of "mk sts" u w c] loaded_present [of name u w P _ c sts] present_keeps
          assms(1) [OF that] assms(4) mk sts later_trans [of name v u w] later_def [of name v u] by simp
    qed
    then show "rg view X Y w (returnC (mk sts)) (loaded P p v name)"
      using sts assms(3,4) mk by (intro rg_returnC) (simp add: loaded_def)
  qed (intro prog_intros)
qed

lemma rg_Load:
  assumes "p \<Longrightarrow> counts_ok v \<and> valid_name name \<and> name \<notin> X"
  shows "rg view X Y v (Load P (stepwise B) name) (loaded P p v name)"
proof (cases "name = []")
  case True
  then have "Load P (stepwise B) name = resC (Err ErrEmptyName)" by (simp add: Load_def)
  then show ?thesis by (simp only:) (rule rg_resC, simp)
next
  case False
  let ?Q1 = "\<lambda>fs w. fs = vhash w (metaKey name) \<and> (p \<longrightarrow> later name v w)"
  show ?thesis unfolding Load_def if_not_P [OF False]
  proof (rule rg_bindC [OF rg_wrapC [OF rg_HGetAll [where Q = ?Q1]]])
    show "?Q1 (vhash w (metaKey name)) w" if "evolves X v w" for w
      using assms later_evolves [OF later_refl that] by blast
  qed (simp, (intro rg_if rg_bind_resC rg_resC rg_load_stages prog_intros; use assms in auto)+)
qed

section \<open>Membership\<close>

lemma rg_groups_all_set:
  assumes "p \<Longrightarrow> later name u v" "p \<Longrightarrow> valid_name name \<and> name \<notin> X"
  shows "rg view X Y v (groups_all_set (stepwise B) name i gs) (\<lambda>b w. p \<longrightarrow> later name u w
    \<and> ((\<forall>(sh, os) \<in> set gs. set os \<subseteq> vbits u (shardKey name i sh)) \<longrightarrow> b))"
  (is "rg _ _ _ _ _ (?Q gs)")
  using assms(1)
proof (induction gs arbitrary: v)
  case Nil
  then show ?case by (simp only: groups_all_set.simps) (rule rg_returnC, simp)
next
  case (Cons g gs)
  obtain sh os where g: "g = (sh, os)" by (cases g)
  let ?Q1 = "\<lambda>bits w. p \<longrightarrow> later name u w \<and> (set os \<subseteq> vbits u (shardKey name i sh) \<longrightarrow> False \<notin> set bits)"
  show ?case unfolding g groups_all_set.simps
  proof (rule rg_bindC [OF rg_wrapC [OF rg_GetBits [where p = p and u = u]]])
    show "p \<Longrightarrow> later name u v" by (rule Cons.prems)
    show "p \<Longrightarrow> valid_name name \<and> name \<notin> X" by (rule assms(2))
    fix bits w
    assume w: "?Q1 bits w"
    show "rg view X Y w (if False \<in> set bits then returnC False else groups_all_set (stepwise B) name i gs)
        (?Q ((sh, os) # gs))"
    proof (rule rg_if)
      show "rg view X Y w (groups_all_set (stepwise B) name i gs) (?Q ((sh, os) # gs))"
        by (rule rg_mono [OF Cons.IH]) (use w in auto)
    qed (use w in \<open>auto intro!: rg_returnC\<close>)
  qed (intro prog_intros)
qed

lemma rg_exists_loop:
  assumes "p \<Longrightarrow> later name u v" "p \<Longrightarrow> valid_name name \<and> name \<notin> X" "hashParts P item = (h1, h2)"
  shows "rg view X Y v (exists_loop (stepwise B) ords name h1 h2 sts) (\<lambda>b w. p \<longrightarrow>
    (\<exists>st \<in> set sts. stage_has P u name item st) \<longrightarrow> b)"
  (is "rg _ _ _ _ _ (?Q sts)")
  using assms(1)
proof (induction sts arbitrary: v)
  case Nil
  show ?case by (simp only: exists_loop.simps) (rule rg_returnC, simp)
next
  case (Cons st older)
  show ?case unfolding exists_loop.simps
  proof (rule rg_bind_resC)
    fix ps
    assume ps: "positions h1 h2 (st_m st) (st_k st) = Ok ps"
    show "rg view X Y v (bindC (groups_all_set (stepwise B) name (st_index st)
        (range_groups (ords (length older)) (groupByShard ps))) (\<lambda>allSet.
        if allSet then returnC True else exists_loop (stepwise B) ords name h1 h2 older)) (?Q (st # older))"
    proof (rule rg_bindC [OF rg_groups_all_set [OF Cons.prems assms(2)]])
      fix b w
      assume b: "p \<longrightarrow> later name u w \<and> ((\<forall>(sh, os) \<in> set (range_groups (ords (length older)) (groupByShard ps)).
          set os \<subseteq> vbits u (shardKey name (st_index st) sh)) \<longrightarrow> b)"
      then have st: "p \<Longrightarrow> stage_has P u name item st \<Longrightarrow> b"
        using ps assms(3) by (simp add: stage_has_def groups_subset_iff)
      show "rg view X Y w (if b then returnC True else exists_loop (stepwise B) ords name h1 h2 older) (?Q (st # older))"
      proof (rule rg_if)
        assume "\<not> b"
        show "rg view X Y w (exists_loop (stepwise B) ords name h1 h2 older) (?Q (st # older))"
          by (rule rg_mono [OF Cons.IH]) (use b st \<open>\<not> b\<close> in auto)
      qed (auto intro!: rg_returnC)
    qed (assumption | intro prog_intros)+
  qed
qed

lemma rg_Exists:
  assumes "p \<Longrightarrow> counts_ok v \<and> valid_name (f_name f) \<and> f_name f \<notin> X"
  shows "rg view X Y v (Exists P (stepwise B) ords item f) (\<lambda>b w. p \<longrightarrow>
    (\<exists>st \<in> set (f_stages f). stage_has P v (f_name f) item st) \<longrightarrow> b)"
proof -
  obtain h1 h2 where h: "hashParts P item = (h1, h2)" by fastforce
  have "rg view X Y v (exists_loop (stepwise B) ords (f_name f) h1 h2 (rev (f_stages f))) (\<lambda>b w. p \<longrightarrow>
      (\<exists>st \<in> set (rev (f_stages f)). stage_has P v (f_name f) item st) \<longrightarrow> b)"
    by (rule rg_exists_loop) (use assms h later_refl in auto)
  then show ?thesis by (simp add: Exists_def h)
qed

section \<open>Adding\<close>

text \<open>The item is there and stays there.\<close>

lemma present_kept:
  "p \<longrightarrow> counts_ok v \<and> present P v name item \<Longrightarrow> evolves X v w \<Longrightarrow>
     (p \<Longrightarrow> valid_name name \<and> name \<notin> X) \<Longrightarrow> p \<longrightarrow> counts_ok w \<and> present P w name item"
  using present_evolves counts_ok_evolves by blast

lemma rg_set_groups:
  assumes "p \<Longrightarrow> later name u v" "p \<Longrightarrow> valid_name name \<and> name \<notin> X"
  shows "rg view X Y v (set_groups (stepwise B) name i gs) (\<lambda>_ w. p \<longrightarrow> later name u w
    \<and> (\<forall>(sh, os) \<in> set gs. set os \<subseteq> vbits w (shardKey name i sh)))"
  using assms(1)
proof (induction gs arbitrary: u v)
  case Nil
  then show ?case by (simp only: set_groups.simps) (rule rg_returnC, simp)
next
  case (Cons g gs)
  obtain sh os where g: "g = (sh, os)" by (cases g)
  let ?Q = "\<lambda>_ w. p \<longrightarrow> later name u w \<and> (\<forall>(sh, os) \<in> set ((sh, os) # gs). set os \<subseteq> vbits w (shardKey name i sh))"
  let ?Q1 = "\<lambda>_ w. p \<longrightarrow> later name u w \<and> set os \<subseteq> vbits w (shardKey name i sh)"
  show ?case unfolding g set_groups.simps
  proof (rule rg_bindC [OF rg_wrapC [OF rg_SetBits [where p = p and u = u]]])
    show "p \<Longrightarrow> later name u v" by (rule Cons.prems)
    show "p \<Longrightarrow> valid_name name \<and> name \<notin> X" by (rule assms(2))
    fix x w
    assume w: "?Q1 x w"
    have "rg view X Y w (set_groups (stepwise B) name i gs) (\<lambda>_ w'. p \<longrightarrow> later name w w'
        \<and> (\<forall>(sh, os) \<in> set gs. set os \<subseteq> vbits w' (shardKey name i sh)))"
      by (rule Cons.IH) (use w in \<open>auto simp: later_def\<close>)
    then show "rg view X Y w (set_groups (stepwise B) name i gs) ?Q"
    proof (rule rg_mono)
      fix x w'
      assume w': "p \<longrightarrow> later name w w' \<and> (\<forall>(sh, os) \<in> set gs. set os \<subseteq> vbits w' (shardKey name i sh))"
      have "later name u w'" "set os \<subseteq> vbits w' (shardKey name i sh)" if p
      proof -
        show "later name u w'" using w w' that later_trans by blast
        show "set os \<subseteq> vbits w' (shardKey name i sh)"
          using w w' that later_bits [of name w w' i sh] by auto
      qed
      then show "?Q x w'" using w' by auto
    qed
  qed (intro prog_intros)
qed

lemma rg_append:
  assumes "valid_name (f_name f)" "f_stages f \<noteq> []" "40 * int (length (f_stages f)) \<le> 2 ^ 48"
    and "p \<longrightarrow> counts_ok v \<and> present P v (f_name f) item" "p \<Longrightarrow> f_name f \<notin> X"
  shows "rg view X {} v (withFilter f (appendNewStage P (stepwise B))) (\<lambda>_ w. p \<longrightarrow> present P w (f_name f) item)"
proof -
  let ?i = "int (length (f_stages f))"
  let ?Q1 = "\<lambda>_ w. p \<longrightarrow> counts_ok w \<and> present P w (f_name f) item"
  have i: "sint (word_of_int ?i :: i64) = ?i" "(word_of_int ?i :: i64) \<noteq> 0"
    using assms(2,3) int_in_i64 [of ?i] by simp_all
  have app: "rg view X {} v (AppendStage (stepwise B) (metaKey (f_name f)) (word_of_int ?i) fs (stageMetaKey (f_name f) ?i)) ?Q1" for fs
  proof (rule rg_AppendStage)
    fix x w w'
    assume "evolves X v w" "evolves {} w w'"
    then show "?Q1 x w'" using present_kept [OF present_kept [OF assms(4)]] assms(1,5) by blast
  qed (use i assms(1,3) in simp_all)
  have ld: "rg view X {} w (bindC (wrapC s (Load P (stepwise B) (f_name f))) (\<lambda>_. returnC ()))
      (\<lambda>_ w. p \<longrightarrow> present P w (f_name f) item)" if w: "?Q1 x w" for w s x
  proof (rule rg_bindC [OF rg_wrapC [OF rg_Load [where p = p]]])
    show "p \<Longrightarrow> counts_ok w \<and> valid_name (f_name f) \<and> f_name f \<notin> X" using w assms(1,5) by blast
    fix g w'
    assume "loaded P p w (f_name f) g w'"
    then show "rg view X {} w' (returnC ()) (\<lambda>_ w. p \<longrightarrow> present P w (f_name f) item)"
      using w present_keeps by (intro rg_returnC) (auto simp: loaded_def later_def)
  qed (intro prog_intros)
  show ?thesis unfolding withFilter_appendNewStage Let_def
    by (intro rg_bind_resC rg_bindC [OF rg_wrapC [OF app]] rg_if ld)
      (auto intro!: rg_returnC prog_intros)
qed

lemma rg_Add:
  assumes "valid_name (f_name f)" "40 * int (length (f_stages f)) \<le> 2 ^ 48"
    and "p \<Longrightarrow> counts_ok v \<and> f_name f \<notin> X \<and> (f_stages f \<noteq> [] \<longrightarrow> handle v f)"
  shows "rg view X {} v (withFilter f (Add P (stepwise B) ord item)) (\<lambda>_ w. p \<longrightarrow> present P w (f_name f) item)"
proof (cases "f_stages f = []")
  case True
  then have "withFilter f (Add P (stepwise B) ord item) = resC (Panic ''runtime error: index out of range [-1]'')"
    by (simp add: withFilter_Add)
  then show ?thesis by (simp only:) (rule rg_resC, simp)
next
  case ne: False
  let ?Q1 = "\<lambda>_ w. p \<longrightarrow> counts_ok w \<and> present P w (f_name f) item"
  define cur where "cur = last (f_stages f)"
  obtain h1 h2 where h: "hashParts P item = (h1, h2)" by fastforce
  have sg: "rg view X {} v (set_groups (stepwise B) (f_name f) (st_index cur) (range_groups ord (groupByShard ps))) ?Q1"
    if ps: "positions h1 h2 (st_m cur) (st_k cur) = Ok ps" for ps
  proof (rule rg_mono [OF rg_set_groups])
    show "p \<Longrightarrow> later (f_name f) v v" using assms(3) later_refl by blast
    show "p \<Longrightarrow> valid_name (f_name f) \<and> f_name f \<notin> X" using assms(1,3) by blast
    fix w
    assume w: "p \<longrightarrow> later (f_name f) v w \<and> (\<forall>(sh, os) \<in> set (range_groups ord (groupByShard ps)).
        set os \<subseteq> vbits w (shardKey (f_name f) (st_index cur) sh))"
    have "present P w (f_name f) item" if p
    proof (rule handle_present)
      show "handle w f" using handle_keeps assms(3) ne w that by (auto simp: later_def)
      show "cur \<in> set (f_stages f)" using ne by (simp add: cur_def)
      show "stage_has P w (f_name f) item cur"
        using w that ps h by (simp add: stage_has_def groups_subset_iff)
    qed
    then show "p \<longrightarrow> counts_ok w \<and> present P w (f_name f) item" using w by (auto simp: later_def)
  qed
  have incr: "rg view X {} w (Incr (stepwise B) k) ?Q1" if "?Q1 x w" "kind_of k = CounterKey" for w k x
  proof (rule rg_Incr [OF that(2)])
    fix x w1 w2
    assume "evolves X w w1" "evolves {} w1 w2"
    then show "?Q1 x w2" using present_kept [OF present_kept [OF that(1)]] assms(1,3) by blast
  qed
  have app: "rg view X {} w (withFilter (f\<lparr>f_stages := butlast (f_stages f) @ [cur\<lparr>st_fill := n\<rparr>]\<rparr>)
      (appendNewStage P (stepwise B))) (\<lambda>_ w. p \<longrightarrow> present P w (f_name f) item)" if "?Q1 x w" for w n x
    using rg_append [of "f\<lparr>f_stages := butlast (f_stages f) @ [cur\<lparr>st_fill := n\<rparr>]\<rparr>" p w P item X] assms ne that
    by simp
  show ?thesis unfolding withFilter_Add if_not_P [OF ne] Let_def h prod.case cur_def [symmetric]
    by (intro rg_bind_resC rg_bindC [OF sg] rg_bindC [OF rg_wrapC [OF incr]] rg_if app)
      (auto intro!: rg_returnC prog_intros)
qed

end

lemma rg_mapErrC:
  assumes "rg vw X Y v c Q"
  shows "rg vw X Y v (mapErrC c) Q"
  unfolding rg_def
proof (intro allI impI)
  fix r a r'
  assume "mapErrC c r = (a, r')"
  then obtain a' where a: "c r = (a', r')" "a = (case a' of Err e \<Rightarrow> Err (mapErr e) | _ \<Rightarrow> a')"
    by (rule mapErrC_cases)
  then show "\<exists>new. rn_steps r' = rn_steps r @ new
     \<and> (chain vw X v new \<longrightarrow> drops_only vw Y new \<and> (\<forall>x. a = Ok x \<longrightarrow> Q x (left vw v new)))"
    using rgD [OF assms a(1)] by (cases a') simp_all
qed

section \<open>Creating, deleting, sampling\<close>

lemma evolves_hset_own:
  assumes "valid_name nm" "k = metaKey nm \<and> fmlookup fs ''stage_count'' = Some (FormatInt c) \<or> k = stageMetaKey nm i"
  shows "evolves {nm} v (v_hset k fs v)"
proof -
  let ?w = "v_hset k fs v"
  have "k \<in> own_keys nm" using assms(2) by auto
  then have out: "vhash ?w k' = vhash v k'" if "valid_name name" "name \<noteq> nm" "k' \<in> own_keys name" for name k'
    using own_keys_disjoint [OF assms(1) that(1)] that(2,3) by (auto simp: v_hset_def)
  then have "keeps_filter name v ?w" "stage_count_text ?w name = stage_count_text v name"
    if "valid_name name" "name \<noteq> nm" for name
    using that by (auto simp: keeps_filter_def stage_count_text_def v_hset_def)
  moreover have "stage_count_text ?w nm = stage_count_text v nm \<or> stage_count_text ?w nm = Some (FormatInt c)"
    using assms(2) keys_of_kinds(1) [OF assms(1,1)] by (auto simp: stage_count_text_def v_hset_def)
  ultimately show ?thesis unfolding evolves_def counts_ok_def by (metis singletonI)
qed

context bit_store
begin

lemma rg_New:
  assumes "valid_name name"
  shows "rg view X {name} v (New P (stepwise B) now name n q) (\<lambda>_ _. True)"
  unfolding New_def
  by (intro rg_if rg_bindC [OF rg_wrapC [OF rg_HGetAll [where Q = "\<lambda>_ _. True"]]]
      rg_bind_resC rg_bindC [OF rg_wrapC [OF rg_HSet [where Q = "\<lambda>_ _. True"]]]
      rg_bindC [OF rg_wrapC [OF rg_SAdd [where Q = "\<lambda>_ _. True"]]])
    (auto intro!: rg_resC rg_returnC prog_intros evolves_hset_own assms simp: filterMeta_count)

lemma rg_Drop:
  assumes "valid_name (f_name f)"
  shows "rg view X {f_name f} v (Drop (stepwise B) f) (\<lambda>_ _. True)"
  unfolding Drop_def
  by (intro rg_bindC [OF rg_wrapC [OF rg_Del [where Q = "\<lambda>_ _. True"]]]
      rg_wrapC [OF rg_SRem [where Q = "\<lambda>_ _. True"]])
    (auto intro!: prog_intros evolves_del assms drop_keys_own)

lemma rg_sample_loop: "rg view X Y v (sample_loop P (stepwise B) names) (\<lambda>_ _. True)"
proof (induction names arbitrary: v)
  case Nil
  show ?case by (simp only: sample_loop.simps) (rule rg_returnC, simp)
next
  case (Cons name names)
  have ld: "rg view X Y v (bindC (Load P (stepwise B) name) (\<lambda>f. returnC [sample_of P name f])) (\<lambda>_ _. True)" for v
    by (rule rg_bindC [OF rg_Load [where p = False]]) (auto intro!: rg_returnC prog_intros)
  show ?case unfolding sample_loop.simps
    by (intro rg_bindC [OF rg_catchC [OF ld]] rg_bindC [OF Cons.IH]) (auto intro!: rg_returnC prog_intros)
qed

lemma rg_FilterSamples: "rg view X Y v (FilterSamples P (stepwise B) mg) (\<lambda>_ _. True)"
  unfolding FilterSamples_def ListFilters_def
  by (intro rg_catchC rg_bindC [OF rg_SMembers [where Q = "\<lambda>_ _. True"]] rg_bindC [OF rg_sample_loop])
    (auto intro!: rg_returnC prog_intros)

section \<open>Requests\<close>

lemma rg_SvcAdd:
  assumes "valid_name name" "p \<Longrightarrow> counts_ok v \<and> name \<notin> X"
  shows "rg view X {} v (bindC (mapErrC (Load P (stepwise B) name)) (\<lambda>f.
     bindC (mapErrC (withFilter f (Add P (stepwise B) ord item))) (\<lambda>_. returnC ())))
     (\<lambda>_ w. p \<longrightarrow> present P w name item)"
proof (rule rg_bindC [OF rg_mapErrC [OF rg_Load [where p = p]]])
  show "p \<Longrightarrow> counts_ok v \<and> valid_name name \<and> name \<notin> X" using assms by blast
  fix f w
  assume f: "loaded P p v name f w"
  have "rg view X {} w (withFilter f (Add P (stepwise B) ord item)) (\<lambda>_ w. p \<longrightarrow> present P w (f_name f) item)"
    by (rule rg_Add) (use f assms in \<open>auto simp: loaded_def later_def\<close>)
  moreover have "f_name f = name" using f by (simp add: loaded_def)
  ultimately have add: "rg view X {} w (withFilter f (Add P (stepwise B) ord item)) (\<lambda>_ w. p \<longrightarrow> present P w name item)"
    by simp
  show "rg view X {} w (bindC (mapErrC (withFilter f (Add P (stepwise B) ord item))) (\<lambda>_. returnC ()))
      (\<lambda>_ w. p \<longrightarrow> present P w name item)"
    by (rule rg_bindC [OF rg_mapErrC [OF add]]) (rule rg_returnC, assumption, intro prog_intros)
qed (intro prog_intros)

lemma rg_SvcExists:
  assumes "p \<Longrightarrow> counts_ok v \<and> valid_name name \<and> name \<notin> X"
  shows "rg view X Y v (bindC (mapErrC (Load P (stepwise B) name)) (\<lambda>f.
     mapErrC (Exists P (stepwise B) ords item f))) (\<lambda>b _. p \<longrightarrow> present P v name item \<longrightarrow> b)"
proof (rule rg_bindC [OF rg_mapErrC [OF rg_Load [where p = p]]])
  fix f w
  assume f: "loaded P p v name f w"
  have "rg view X Y w (Exists P (stepwise B) ords item f) (\<lambda>b _. p \<longrightarrow>
      (\<exists>st \<in> set (f_stages f). stage_has P w (f_name f) item st) \<longrightarrow> b)"
    by (rule rg_Exists) (use f assms in \<open>auto simp: loaded_def later_def\<close>)
  then show "rg view X Y w (mapErrC (Exists P (stepwise B) ords item f)) (\<lambda>b _. p \<longrightarrow> present P v name item \<longrightarrow> b)"
    using f by (intro rg_mapErrC) (auto simp: loaded_def elim!: rg_mono)
qed (use assms in blast, intro prog_intros)

lemma rg_others:
  "valid_name name \<Longrightarrow> rg view X {name} v (bindC (mapErrC (New P (stepwise B) now name n q)) (\<lambda>f. let st = Stats f in
     if ss_stages st = [] then resC (Panic ''runtime error: index out of range [0] with length 0'')
     else returnC \<lparr>fi_Name = ss_name st, fi_Stages = ss_stage_count st,
       fi_M = st_m (hd (ss_stages st)), fi_K = st_k (hd (ss_stages st))\<rparr>)) (\<lambda>_ _. True)"
  "rg view X Y v (bindC (mapErrC (Load P (stepwise B) name)) (\<lambda>f. returnC (toStats (Stats f)))) (\<lambda>_ _. True)"
  "valid_name name \<Longrightarrow> rg view X {name} v (bindC (mapErrC (Load P (stepwise B) name)) (\<lambda>f. mapErrC (Drop (stepwise B) f)))
     (\<lambda>_ _. True)"
proof -
  show "valid_name name \<Longrightarrow> rg view X {name} v (bindC (mapErrC (Load P (stepwise B) name)) (\<lambda>f. mapErrC (Drop (stepwise B) f)))
     (\<lambda>_ _. True)"
    using rg_Drop by (intro rg_bindC [OF rg_mapErrC [OF rg_Load [where p = False]]] rg_mapErrC prog_intros)
      (auto simp: loaded_def)
qed (auto intro!: rg_bindC [OF rg_mapErrC [OF rg_New]] rg_bindC [OF rg_mapErrC [OF rg_Load [where p = False]]]
    rg_returnC rg_resC prog_intros simp: Let_def)

end

end
