(* ===== verification/Concurrency.thy ===== *)
theory Concurrency
  imports RelyGuarantee
begin

text \<open>
  Many requests on one store: what each of them relies on is what the others guarantee, so in every
  configuration that is reached the store has only evolved, and what an answered \<open>Add\<close> has set is found by
  every \<open>Exists\<close> that starts later.
\<close>

section \<open>Threads among others\<close>

text \<open>The filter a request may drop: creating one writes its metadata anew.\<close>

fun touches :: "request \<Rightarrow> string set" where
  "touches (CreateReq now name n p) = {name}"
| "touches (DeleteReq name) = {name}"
| "touches q = {}"

lemma rg_replay:
  assumes "\<And>tm s. svc_step P (stepwise B) q (tm, s) = map_prod K id (c (tm, s))" "on_run c d"
    and "rg vw X Y v d Q" "chain vw X v (steps_of P B q xs)"
  shows "drops_only vw Y (steps_of P B q xs)"
    and "fst (replay P B q xs) = K (Ok x) \<Longrightarrow> (\<And>a b. K a = K b \<Longrightarrow> a = b) \<Longrightarrow> Q x (left vw v (steps_of P B q xs))"
proof -
  obtain a r where d: "d \<lparr>rn_found = xs, rn_steps = [], rn_waiting = False\<rparr> = (a, r)" by (metis surj_pair)
  have "steps_of P B q xs = rn_steps r" "fst (replay P B q xs) = K a"
    using svc_step_on_run [OF assms(1,2)] d by (simp_all add: steps_of_def replay_def)
  then show "drops_only vw Y (steps_of P B q xs)"
    "fst (replay P B q xs) = K (Ok x) \<Longrightarrow> (\<And>a b. K a = K b \<Longrightarrow> a = b) \<Longrightarrow> Q x (left vw v (steps_of P B q xs))"
    using rgD [OF assms(3) d] assms(4) by auto
qed

lemma chain_left:
  "chain vw X v l \<Longrightarrow> drops_only vw X l \<Longrightarrow> evolves X v (left vw v l)"
proof (induction l arbitrary: v)
  case (Cons p l)
  then show ?case by (cases p) (auto simp: drops_only_def intro: evolves_trans_same)
qed simp

context bit_store
begin

lemma thread_drops_only:
  assumes "valid_request q" "chain view X v (steps_of P B q xs)"
  shows "drops_only view (touches q) (steps_of P B q xs)"
proof (cases q)
  case (CreateReq now name n p)
  then have "valid_name name" using assms(1) by (simp add: valid_request_def)
  then show ?thesis using rg_replay(1) [OF _ on_run_service(1) rg_others(1) assms(2)] CreateReq by simp
next
  case (AddReq ord name item)
  then have "valid_name name" using assms(1) by (simp add: valid_request_def)
  then show ?thesis using rg_replay(1) [OF _ on_run_service(2) rg_SvcAdd [where p = False] assms(2)] AddReq by simp
next
  case (ExistsReq ords name item)
  then show ?thesis using rg_replay(1) [OF _ on_run_service(3) rg_SvcExists [where p = False] assms(2)] by simp
next
  case (StatsReq name)
  then show ?thesis using rg_replay(1) [OF _ on_run_service(4) rg_others(2) assms(2)] by simp
next
  case (DeleteReq name)
  then have "valid_name name" using assms(1) by (simp add: valid_request_def)
  then show ?thesis using rg_replay(1) [OF _ on_run_service(5) rg_others(3) assms(2)] DeleteReq by simp
next
  case (SamplesReq mg)
  then show ?thesis using rg_replay(1) [OF _ on_run_basic(1) rg_FilterSamples assms(2)] by simp
qed

lemma thread_added:
  assumes "answered P B (AddReq ord name item) xs = Some (AddRep (Ok ()))" "valid_name name"
    and "counts_ok v" "name \<notin> X" "chain view X v (steps_of P B (AddReq ord name item) xs)"
  shows "present P (left view v (steps_of P B (AddReq ord name item) xs)) name item"
  using rg_replay(2) [OF _ on_run_service(2) rg_SvcAdd [where p = True] assms(5), of AddRep] assms
  by (simp add: answered_def split: if_splits)

lemma thread_exists:
  assumes "present P v name item" "valid_name name"
    and "counts_ok v" "name \<notin> X" "chain view X v (steps_of P B (ExistsReq ords name item) xs)"
  shows "answered P B (ExistsReq ords name item) xs \<noteq> Some (ExistsRep (Ok False))"
  using rg_replay(2) [OF _ on_run_service(3) rg_SvcExists [where p = True] assms(5), where K = ExistsRep and x = False] assms
  by (auto simp: answered_def split: if_splits)

end

section \<open>Configurations\<close>

text \<open>Requests keep their place; only the states they found grow.\<close>

lemma sys_requests:
  assumes "(sys_step P B)\<^sup>*\<^sup>* (s0, ths0) (s, ths)"
  shows "\<exists>qs. map fst ths = map fst ths0 @ qs"
  using assms
proof (induction "(s, ths)" arbitrary: s ths rule: rtranclp_induct)
  case (step c)
  obtain s1 ths1 where c: "c = (s1, ths1)" by (cases c)
  obtain qs where "map fst ths1 = map fst ths0 @ qs" using step(3) [OF c] by blast
  moreover have "\<exists>rs. map fst ths = map fst ths1 @ rs" using step(2) unfolding c
  proof (cases rule: sys_step.cases)
    case (operate i q xs)
    then have "map fst ths = map fst ths1" by (metis fst_conv list_update_id map_update)
    then show ?thesis by simp
  qed auto
  ultimately show ?case by (metis append_assoc)
qed simp

lemma sys_requests_mono:
  assumes "(sys_step P B)\<^sup>*\<^sup>* (s0, ths0) (s, ths)"
  shows "length ths0 \<le> length ths" "set (map fst ths0) \<subseteq> set (map fst ths)"
proof -
  obtain qs where qs: "map fst ths = map fst ths0 @ qs" using sys_requests [OF assms] by blast
  then have "length (map fst ths) = length (map fst ths0) + length qs" by simp
  then show "length ths0 \<le> length ths" by simp
  show "set (map fst ths0) \<subseteq> set (map fst ths)" unfolding qs by simp
qed

context bit_store
begin

text \<open>A thread that started at \<open>v\<close> or later, in a configuration with the store \<open>s\<close>.\<close>

definition sound :: "platform \<Rightarrow> string set \<Rightarrow> view \<Rightarrow> 's \<Rightarrow> request \<times> 's list \<Rightarrow> bool" where
  "sound P X v s th \<longleftrightarrow> chain view X v (steps_of P B (fst th) (snd th))
     \<and> evolves X (left view v (steps_of P B (fst th) (snd th))) (view s)"

lemma sound_evolves: "sound P X v s th \<Longrightarrow> evolves X (view s) (view t) \<Longrightarrow> sound P X v t th"
  unfolding sound_def using evolves_trans_same by blast

lemma sound_added:
  assumes "sound P X v s (AddReq ord name item, xs)"
    and "answered P B (AddReq ord name item) xs = Some (AddRep (Ok ()))" "valid_name name"
    and "counts_ok v" "name \<notin> X"
  shows "present P (view s) name item"
proof -
  let ?q = "AddReq ord name item"
  have chain: "chain view X v (steps_of P B ?q xs)" "evolves X (left view v (steps_of P B ?q xs)) (view s)"
    using assms(1) by (simp_all add: sound_def)
  have "drops_only view X (steps_of P B ?q xs)"
    using thread_drops_only [OF _ chain(1)] assms(3) evolves_mono
    by (fastforce simp: valid_request_def drops_only_def)
  then have "counts_ok (left view v (steps_of P B ?q xs))"
    using chain_left [OF chain(1)] counts_ok_evolves assms(4) by blast
  then show ?thesis
    using present_evolves [OF thread_added [OF assms(2-5) chain(1)] chain(2)] assms(3,5) by blast
qed

lemma operate_sound:
  assumes "in_progress P B q xs" "valid_request q" "touches q \<subseteq> X" "sound P X v s (q, xs)"
    and t: "t = snd (last (steps_of P B q (xs @ [s])))"
  shows "evolves X (view s) (view t) \<and> sound P X v t (q, xs @ [s])"
proof -
  obtain t' where steps: "steps_of P B q (xs @ [s]) = steps_of P B q xs @ [(s, t')]"
    using thread_steps(2) [OF assms(1)] by blast
  then have "t' = t" using t by simp
  have chain: "chain view X v (steps_of P B q (xs @ [s]))"
    using assms(4) by (simp add: steps chain_append sound_def)
  then have "evolves (touches q) (view s) (view t)"
    using thread_drops_only [OF assms(2) chain] by (simp add: steps drops_only_def \<open>t' = t\<close>)
  then have "evolves X (view s) (view t)" using evolves_mono assms(3) by blast
  then show ?thesis using chain by (simp add: sound_def steps \<open>t' = t\<close>)
qed

text \<open>
  From one configuration to a later one: the view evolves, the threads there were are still sound, and
  those that came are sound from the first configuration on.
\<close>

lemma sys_sound:
  assumes "(sys_step P B)\<^sup>*\<^sup>* (s0, ths0) (s, ths)"
    and "\<forall>i < length ths0. valid_request (fst (ths0 ! i)) \<and> sound P X (base i) s0 (ths0 ! i)"
    and "\<forall>q \<in> set (map fst ths). touches q \<subseteq> X"
  shows "evolves X (view s0) (view s) \<and> (\<forall>i < length ths. valid_request (fst (ths ! i))
    \<and> sound P X (if i < length ths0 then base i else view s0) s (ths ! i))"
  using assms(1,3)
proof (induction "(s, ths)" arbitrary: s ths rule: rtranclp_induct)
  case base
  then show ?case using assms(2) by simp
next
  case (step c)
  obtain s1 ths1 where c: "c = (s1, ths1)" by (cases c)
  have len: "length ths0 \<le> length ths1"
    by (rule sys_requests_mono(1) [OF step(1) [unfolded c]])
  have "\<forall>q \<in> set (map fst ths1). touches q \<subseteq> X"
    using sys_requests_mono(2) [OF r_into_rtranclp [of "sys_step P B", OF step(2) [unfolded c]]] step(4) by blast
  then have IH: "evolves X (view s0) (view s1)"
      "\<forall>i < length ths1. valid_request (fst (ths1 ! i))
        \<and> sound P X (if i < length ths0 then base i else view s0) s1 (ths1 ! i)"
    using step(3) [OF c] by auto
  show ?case using step(2) unfolding c
  proof (cases rule: sys_step.cases)
    case (arrive q)
    have "sound P X (view s0) s1 (q, [])" using IH(1) by (simp add: sound_def)
    then show ?thesis using IH arrive len by (auto simp: nth_append less_Suc_eq)
  next
    case (operate i q xs)
    have old: "ths1 ! i = (q, xs)" "i < length ths1" and new: "ths = ths1[i := (q, xs @ [s1])]"
      using operate by simp_all
    have "(q, xs @ [s1]) \<in> set ths" using old(2) new by (simp add: set_update_memI)
    then have q: "touches q \<subseteq> X" using step(4) by force
    have mine: "valid_request q" "sound P X (if i < length ths0 then base i else view s0) s1 (q, xs)"
      using IH(2) old by (metis fst_conv)+
    have ev: "evolves X (view s1) (view s)"
      and me: "sound P X (if i < length ths0 then base i else view s0) s (q, xs @ [s1])"
      using operate_sound [OF _ mine(1) q mine(2)] operate by simp_all
    have "valid_request (fst (ths ! j)) \<and> sound P X (if j < length ths0 then base j else view s0) s (ths ! j)"
      if "j < length ths" for j
    proof (cases "j = i")
      case True
      then show ?thesis using me mine(1) old new by (auto split: if_splits)
    next
      case False
      then show ?thesis using IH(2) sound_evolves [OF _ ev] new that by simp
    qed
    then show ?thesis using evolves_trans_same [OF IH(1) ev] by simp
  qed
qed

text \<open>What was added before a configuration is found by what starts after it.\<close>

lemma concurrent_present:
  assumes "counts_ok (view s0)" "(sys_step P B)\<^sup>*\<^sup>* (s0, []) (s1, ths1)"
    and "(AddReq ord name item, xs) \<in> set ths1" "answered P B (AddReq ord name item) xs = Some (AddRep (Ok ()))"
    and "(sys_step P B)\<^sup>*\<^sup>* (s1, ths1) (s2, ths2)"
    and "length ths1 \<le> i" "i < length ths2" "ths2 ! i = (ExistsReq ords name item, ys)"
    and "\<forall>q \<in> set (map fst ths2). name \<notin> touches q"
  shows "answered P B (ExistsReq ords name item) ys \<noteq> Some (ExistsRep (Ok False))"
proof -
  let ?X = "\<Union>(touches ` set (map fst ths2))"
  have X: "\<forall>q \<in> set (map fst ths2). touches q \<subseteq> ?X" "name \<notin> ?X" using assms(9) by auto
  have X1: "\<forall>q \<in> set (map fst ths1). touches q \<subseteq> ?X"
    using sys_requests_mono(2) [OF assms(5)] by blast
  have first: "evolves ?X (view s0) (view s1)"
      "\<forall>i < length ths1. valid_request (fst (ths1 ! i)) \<and> sound P ?X (view s0) s1 (ths1 ! i)"
    using sys_sound [OF assms(2) _ X1, of "\<lambda>_. view s0"] by auto
  have second: "sound P ?X (view s1) s2 (ths2 ! i)"
    using sys_sound [OF assms(5) first(2) X(1)] assms(6,7) by auto
  obtain j where "j < length ths1" "ths1 ! j = (AddReq ord name item, xs)"
    using assms(3) by (metis in_set_conv_nth)
  then have add: "sound P ?X (view s0) s1 (AddReq ord name item, xs)" "valid_name name"
    using first(2) by (fastforce simp: valid_request_def)+
  have "counts_ok (view s1)" using counts_ok_evolves assms(1) first(1) by blast
  with sound_added [OF add(1) assms(4) add(2) assms(1) X(2)] show ?thesis
    using thread_exists [OF _ add(2) _ X(2)] second assms(8) by (auto simp: sound_def)
qed

end

end
