(* ===== verification/CreateRace.thy ===== *)
theory CreateRace
  imports Interleaving Demo
begin

text \<open>
  Two creations of the same filter that overlap. \<open>New\<close> reads the metadata and writes it in two operations
  of the store; the late creation here has read that there is no filter, and writes after another one has
  created it and two items have made it grow. The writes set the stage count back to one.
\<close>

text \<open>The map of \<open>memStore\<close> behind commands of single bits.\<close>

abbreviation bitwise :: "memstore bitstore" where "bitwise \<equiv> piped (memStore id)"

lemma bitwise_ok: "reliable_store bitwise mem_view" "bit_store bitwise mem_view False"
  using reliable_store_piped [OF mem.reliable_store_axioms] by (simp_all add: reliable_store_def)

section \<open>The late creation\<close>

abbreviation late :: request where "late \<equiv> CreateReq ''late'' ''f'' 1 demo_p"

definition demo_stage :: stage where
  "demo_stage = \<lparr>st_index = 0, st_m = 15, st_k = 10, st_capacity = 1, st_fill = 0\<rparr>"

definition late_meta :: "memstore \<Rightarrow> memstore" where
  "late_meta s = snd (mem_HSet (metaKey ''f'') (filterMeta demo ''late'' 1 demo_p) s)"

definition late_stage :: "memstore \<Rightarrow> memstore" where
  "late_stage s = snd (mem_HSet (stageMetaKey ''f'' 0) (stageToMap demo_stage) s)"

definition late_listed :: "memstore \<Rightarrow> memstore" where
  "late_listed s = snd (mem_SAdd registryKey [''f''] s)"

lemma demo_compute: "computeStage demo 1 demo_p DefaultR DefaultS 0 = Ok demo_stage"
  by code_simp

lemma demo_p_range: "\<not> demo_p \<le> 0" "\<not> 1 \<le> demo_p"
  by code_simp+

lemma mem_fst: "fst (mem_HSet k fs s) = Ok ()" "fst (mem_SAdd k ms s) = Ok ()"
  by (simp_all add: mem_HSet_def mem_SAdd_def)

lemma late_pairs:
 "mem_HSet (metaKey ''f'') (filterMeta demo ''late'' 1 demo_p) s = (Ok (), late_meta s)"
 "mem_HSet (stageMetaKey ''f'' 0) (stageToMap demo_stage) s = (Ok (), late_stage s)"
 "mem_SAdd registryKey [''f''] s = (Ok (), late_listed s)"
 "mem_HGetAll (metaKey ''f'') NewMemStore = (Ok fmempty, NewMemStore)"
  by (simp_all add: late_meta_def late_stage_def late_listed_def prod_eq_iff mem_fst mem_HGetAll_def NewMemStore_def)

lemma demo_stage_sel: "st_m demo_stage = 15" "st_k demo_stage = 10"
  by (simp_all add: demo_stage_def)

lemma late_replay:
  "in_progress demo (memStore id) late []" "in_progress demo (memStore id) late [NewMemStore]"
  "in_progress demo (memStore id) late [NewMemStore, x]" "in_progress demo (memStore id) late [NewMemStore, x, y]"
  "snd (last (steps_of demo (memStore id) late [NewMemStore])) = NewMemStore"
  "snd (last (steps_of demo (memStore id) late [NewMemStore, x])) = late_meta x"
  "snd (last (steps_of demo (memStore id) late [NewMemStore, x, y])) = late_stage y"
  "snd (last (steps_of demo (memStore id) late [NewMemStore, x, y, z])) = late_listed z"
  "answered demo (memStore id) late [NewMemStore, x, y, z] = Some (CreateRep (Ok (spec_info ''f'' (demo_filter [demo_stage0 []]))))"
  unfolding answered_def steps_of_def in_progress_def replay_def svc_step_on_run [OF svc_step.simps(1) on_run_service(1)]
  by (simp_all add: bindC_def mapErrC_def catchC_def wrapC_def New_def stepwise_def stepC_def demo_p_range Let_def
    late_pairs demo_compute Stats_def resC_def returnC_def demo_stage_sel spec_info_def demo_filter_def demo_stage0_def)

lemma late_steps:
  "sys_step demo (memStore id) (s, []) (s, [(late, [])])"
  "sys_step demo (memStore id) (NewMemStore, [(late, [])]) (NewMemStore, [(late, [NewMemStore])])"
  "(sys_step demo (memStore id))\<^sup>*\<^sup>* (s, (late, [NewMemStore]) # ths)
     (late_listed (late_stage (late_meta s)), (late, [NewMemStore, s, late_meta s, late_stage (late_meta s)]) # ths)"
proof -
  show "sys_step demo (memStore id) (s, []) (s, [(late, [])])"
    using arrive [of late demo "memStore id" s "[]"] demo_requests_ok(3) by (simp add: valid_request_def)
  have step: "sys_step demo (memStore id) (t, (late, xs) # ths) (u, (late, xs @ [t]) # ths)"
    if "in_progress demo (memStore id) late xs" "snd (last (steps_of demo (memStore id) late (xs @ [t]))) = u" for t u xs ths
    using operate [of 0 "(late, xs) # ths" late xs demo "memStore id" t] that by simp
  show "sys_step demo (memStore id) (NewMemStore, [(late, [])]) (NewMemStore, [(late, [NewMemStore])])"
    using step [of "[]" NewMemStore] late_replay by simp
  show "(sys_step demo (memStore id))\<^sup>*\<^sup>* (s, (late, [NewMemStore]) # ths)
     (late_listed (late_stage (late_meta s)), (late, [NewMemStore, s, late_meta s, late_stage (late_meta s)]) # ths)"
    using step [of "[NewMemStore]" s "late_meta s"] step [of "[NewMemStore, s]" "late_meta s" "late_stage (late_meta s)"]
      step [of "[NewMemStore, s, late_meta s]" "late_stage (late_meta s)" "late_listed (late_stage (late_meta s))"]
    by (simp add: late_replay) (meson converse_rtranclp_into_rtranclp r_into_rtranclp)
qed

lemma late_view: "mem_view (late_listed (late_stage (late_meta s)))
    = v_create ''f'' (filterMeta demo ''late'' 1 demo_p) (stageToMap demo_stage) (mem_view s)"
  using mem_view_HSet [OF late_pairs(1)] mem_view_HSet [OF late_pairs(2)] mem_view_SAdd [OF late_pairs(3)]
  by (simp add: v_create_def)

text \<open>After its writes only the first stage is there for those who load the filter.\<close>

lemma late_shows:
  assumes "filter_sim demo v ''f'' (Some (demo_filter [demo_stage0 xs, st]))"
  shows "filter_shown demo (v_create ''f'' (filterMeta demo ''late'' 1 demo_p) (stageToMap demo_stage) v) ''f''
    (demo_filter [demo_stage0 xs])"
proof -
  let ?w = "v_create ''f'' (filterMeta demo ''late'' 1 demo_p) (stageToMap demo_stage) v"
  obtain now where "vhash v (metaKey ''f'') = fmupd ''stage_count'' (FormatInt 2) (filterMeta demo now 1 demo_p)"
    using assms by (auto simp: filter_sim_def meta_sim_def demo_filter_def)
  then have "vhash ?w (metaKey ''f'') = filterMeta demo ''late'' 1 demo_p"
    by (auto simp: v_create_sel [OF demo_requests_ok(3)] filterMeta_def intro!: fmap_ext)
  then have meta: "meta_sim demo (vhash ?w (metaKey ''f'')) (Some (demo_filter [demo_stage0 xs]))"
    using filterMeta_count_id [of demo "''late''" 1 demo_p] by (simp add: meta_sim_def demo_filter_def) metis
  have "mapToStage (vhash ?w (stageMetaKey ''f'' 0)) 0 = Ok (demo_stage\<lparr>st_index := 0\<rparr>)"
    by (rule mapToStage_super)
      (auto simp: v_create_sel [OF demo_requests_ok(3)] demo_stage_sel fmsubset_alt_def fmdomI intro!: fmpredI)
  moreover have "slot demo v ''f'' (int 0) (Some (demo_stage0 xs))"
    using filter_sim_slot [OF assms, of 0] by (simp add: demo_filter_stages)
  ultimately have "slot demo ?w ''f'' 0 (Some (demo_stage0 xs))"
    using v_create_sel [OF demo_requests_ok(3)]
    by (simp add: slot_def demo_stage_def demo_stage0_def)
  with meta show ?thesis by (simp add: filter_shown_def demo_filter_stages)
qed

text \<open>A filter that takes two items and has grown.\<close>

abbreviation demo_grown :: "request list" where
  "demo_grown \<equiv> [demo_create_req, AddReq id ''f'' item_a, AddReq id ''f'' item_b]"

lemma demo_grown_run:
  obtains tm t where "svc_run demo bitwise demo_grown (demo_telemetry, NewMemStore)
      = ([CreateRep (Ok (spec_info ''f'' (demo_filter [demo_stage0 []]))), AddRep (Ok ()), AddRep (Ok ())], (tm, t))"
    "filter_sim demo (mem_view t) ''f'' (Some (demo_filter [demo_stage0 [item_a], demo_stage1 [item_b]]))"
proof -
  have "\<forall>q \<in> set demo_grown. valid_request q \<and> typed_request q" "length demo_grown \<le> 2 ^ 42"
    using demo_requests_ok by (auto simp: valid_request_def demo_p_ok)
  moreover obtain rs tm t where run: "svc_run demo bitwise demo_grown (demo_telemetry, NewMemStore) = (rs, (tm, t))"
    by (metis surj_pair)
  ultimately obtain b where b: "spec_run demo demo_grown (\<lambda>_. None) rs b" "sim demo 3 (mem_view t) b"
    using demo_spec [OF bitwise_ok(1)] by (metis length_Cons list.size(3) numeral_3_eq_3)
  have "rs = [CreateRep (Ok (spec_info ''f'' (demo_filter [demo_stage0 []]))), AddRep (Ok ()), AddRep (Ok ())]"
      "b ''f'' = Some (demo_filter [demo_stage0 [item_a], demo_stage1 [item_b]])"
    using b(1) by (auto simp: demo_create spec_find_def demo_add_a demo_add_b)
  then show ?thesis using that run sim_filter [OF b(2) demo_requests_ok(3)] by simp
qed

lemma demo_b_missed: "spec_exists demo item_b [demo_stage0 [item_a]] = Ok False"
proof -
  have "item_positions demo (demo_stage0 []) item_b = Ok [8, 12, 0, 4, 8, 12, 0, 4, 8, 12]" by code_simp
  then show ?thesis
    by (simp add: stage_bits_def demo_items demo_positions demo_positions_items [of "[item_a]"])
qed

lemma late_forgets:
  assumes "filter_sim demo (mem_view s) ''f'' (Some (demo_filter [demo_stage0 [item_a], demo_stage1 [item_b]]))"
  shows "fst (SvcExists demo bitwise (\<lambda>_. id) ''f'' item_b (tm, late_listed (late_stage (late_meta s)))) = Ok False"
proof -
  let ?F = "demo_filter [demo_stage0 [item_a]]" and ?s = "late_listed (late_stage (late_meta s))"
  have shown: "filter_shown demo (mem_view ?s) ''f'' ?F" using late_shows [OF assms] by (simp only: late_view)
  have ok: "afilter_ok 1 ?F"
    using demo_F_ok(1) by (simp add: afilter_ok_def demo_F_def demo_filter_def demo_stage0_def)
  have view: "Load_view demo (mem_view ?s) ''f'' = Ok (concrete_filter ''f'' ?F)"
    using Load_view_shown [OF shown demo_requests_ok(3) _ demo_text_exact ok] by simp
  obtain r t where load: "Load demo bitwise ''f'' ?s = (r, t)" by fastforce
  have r: "r = Ok (concrete_filter ''f'' ?F)" "mem_view t = mem_view ?s"
    using readsD [OF bit_store.reads_Load [OF bitwise_ok(2)] load] view by auto
  obtain b u where ex: "Exists demo bitwise (\<lambda>_. id) item_b (concrete_filter ''f'' ?F) t = (b, u)" by fastforce
  have "b = Ok False"
    using readsD [OF bit_store.reads_Exists [OF bitwise_ok(2)] ex] r(2) Exists_view_shown [OF shown, of item_b]
      demo_b_missed by (simp add: demo_filter_stages del: spec_exists.simps)
  then show ?thesis using load r(1) ex
    by (simp add: SvcExists_def traced_def bindC_def mapErrC_def catchC_def onStore_def)
qed

end
