(* ===== verification/ConcurrencyProps.thy ===== *)
theory ConcurrencyProps
  imports Concurrency CreateRace
begin

text \<open>The properties of requests that overlap, at the granularity of single operations of the store and of single bits.\<close>

text \<open>A request of the demonstration that runs while the insertion of another item waits.\<close>

lemma demo_valid:
  "valid_request (AddReq ord ''f'' item)" "valid_request (ExistsReq ords ''f'' item)" "valid_request demo_create_req"
  using demo_requests_ok(3) by (simp_all add: valid_request_def demo_p_ok)

abbreviation demo_waiting :: "request \<times> memstore list" where
  "demo_waiting \<equiv> (AddReq id ''f'' item_b, [])"

lemma demo_overlap:
  assumes "svc_step demo bitwise (AddReq id ''f'' item) (tm, s) = (a, (tm', t))"
  shows "\<exists>xs. (sys_step demo (memStore id))\<^sup>*\<^sup>* (s, []) (t, [demo_waiting, (AddReq id ''f'' item, xs)])
    \<and> answered demo (memStore id) (AddReq id ''f'' item) xs = Some a"
proof -
  from run_alone [OF assms demo_valid(1), of "[demo_waiting]"] obtain xs
    where "(sys_step demo (memStore id))\<^sup>*\<^sup>* (s, [] @ [demo_waiting]) (t, [demo_waiting, (AddReq id ''f'' item, xs)])"
      "answered demo (memStore id) (AddReq id ''f'' item) xs = Some a" by auto
  then show ?thesis using arrive_reaches [OF demo_valid(1), of demo "memStore id" s "[]"] by blast
qed

lemma demo_bitwise_run:
  assumes "svc_run demo bitwise demo_requests (demo_telemetry, NewMemStore) = (rs, (tm, t))"
  shows "rs ! 3 = ExistsRep (Ok True)"
proof -
  obtain b where "spec_run demo demo_requests (\<lambda>_. None) rs b"
    using demo_spec [OF bitwise_ok(1) assms demo_requests_ok(1,2)] by blast
  then show ?thesis
    by (auto simp del: spec_exists.simps simp: demo_requests_def demo_create spec_find_def demo_add_a demo_add_b
        demo_exists demo_filter_stages)
qed

section \<open>Properties\<close>

text \<open>
  C3 Concurrent writers are safe. Any number of requests run at the same time on a store that may fail,
  and they can interleave between any two operations of the store, also between the single bits that a
  \<open>SetBits\<close> or \<open>GetBits\<close> sends. Once an \<open>Add\<close> has answered without error, no \<open>Exists\<close> of the item that starts
  later answers false, as long as no request creates or deletes the filter.
\<close>

theorem concurrent_no_false_negatives:
  assumes "bit_store B view failing" "counts_ok (view s0)"
    and "(sys_step P B)\<^sup>*\<^sup>* (s0, []) (s1, ths1)"
    and "(AddReq ord name item, xs) \<in> set ths1" "answered P B (AddReq ord name item) xs = Some (AddRep (Ok ()))"
    and "(sys_step P B)\<^sup>*\<^sup>* (s1, ths1) (s2, ths2)"
    and "length ths1 \<le> i" "i < length ths2" "ths2 ! i = (ExistsReq ords name item, ys)"
    and "\<forall>q \<in> set (map fst ths2). name \<notin> touches q"
  shows "answered P B (ExistsReq ords name item) ys \<noteq> Some (ExistsRep (Ok False))"
  using assms by (rule bit_store.concurrent_present)

text \<open>An insertion of one item waits while another is inserted and found.\<close>

theorem concurrent_no_false_negatives_witness:
  "\<exists>s1 s2 xs ys. (sys_step demo (memStore id))\<^sup>*\<^sup>* (demo_created, [])
      (s1, [(AddReq id ''f'' item_b, []), (AddReq id ''f'' item_a, xs)])
    \<and> (sys_step demo (memStore id))\<^sup>*\<^sup>* (s1, [(AddReq id ''f'' item_b, []), (AddReq id ''f'' item_a, xs)])
      (s2, [(AddReq id ''f'' item_b, []), (AddReq id ''f'' item_a, xs), (ExistsReq (\<lambda>_. id) ''f'' item_a, ys)])
    \<and> answered demo (memStore id) (ExistsReq (\<lambda>_. id) ''f'' item_a) ys = Some (ExistsRep (Ok True))
    \<and> Some (ExistsRep (Ok True)) \<noteq> Some (ExistsRep (Ok False))"
proof -
  let ?B = "memStore id" and ?b = "AddReq id ''f'' item_b" and ?a = "AddReq id ''f'' item_a"
    and ?e = "ExistsReq (\<lambda>_. id) ''f'' item_a"
  obtain tm1 s1 where add: "SvcAdd demo bitwise id ''f'' item_a (demo_telemetry, demo_created) = (Ok (), (tm1, s1))"
      "sim demo 2 (mem_view s1) [''f'' \<mapsto> demo_filter [demo_stage0 [item_a], demo_stage1 []]]"
    by (rule demo_svc_add [OF bitwise_ok(1)])
  have "svc_step demo bitwise ?a (demo_telemetry, demo_created) = (AddRep (Ok ()), (tm1, s1))"
    using add(1) by simp
  from demo_overlap [OF this] obtain xs
    where xs: "(sys_step demo ?B)\<^sup>*\<^sup>* (demo_created, []) (s1, [(?b, []), (?a, xs)])"
      "answered demo ?B ?a xs = Some (AddRep (Ok ()))" by blast
  obtain tm2 s2 where "SvcExists demo bitwise (\<lambda>_. id) ''f'' item_a (tm1, s1) = (Ok True, (tm2, s2))"
    using demo_svc_exists [OF bitwise_ok(1) add(2), where tm = tm1] by (metis prod.collapse)
  then have "svc_step demo bitwise ?e (tm1, s1) = (ExistsRep (Ok True), (tm2, s2))" by simp
  from run_alone [OF this demo_valid(2), of "[(?b, []), (?a, xs)]"] obtain ys
    where ys: "(sys_step demo ?B)\<^sup>*\<^sup>* (s1, [(?b, []), (?a, xs)]) (s2, [(?b, []), (?a, xs), (?e, ys)])"
      "answered demo ?B ?e ys = Some (ExistsRep (Ok True))" by auto
  have "answered demo ?B ?e ys \<noteq> Some (ExistsRep (Ok False))"
    by (rule concurrent_no_false_negatives [OF mem.bit_store_axioms demo_counts xs(1) _ xs(2) ys(1), of 2]) simp_all
  then show ?thesis using xs ys by metis
qed

text \<open>
  C10 Isolation while requests overlap. In whatever order the operations of any number of requests
  interleave, and wherever the store fails, a filter that none of them creates or deletes keeps every set
  bit, its parameters (every field of its metadata but the stage count, which does not shrink) and the
  metadata of every stage, and the stored stage counts keep their form.
\<close>

theorem interleavings_keep_filters:
  assumes "bit_store B view failing" "counts_ok (view s0)"
    and "(sys_step P B)\<^sup>*\<^sup>* (s0, []) (s, ths)"
    and "valid_name name" "\<forall>q \<in> set (map fst ths). name \<notin> touches q"
  shows "counts_ok (view s) \<and> keeps_filter name (view s0) (view s)"
proof -
  let ?X = "\<Union>(touches ` set (map fst ths))"
  have "\<forall>q \<in> set (map fst ths). touches q \<subseteq> ?X" by auto
  from bit_store.sys_sound [OF assms(1,3) _ this] have "evolves ?X (view s0) (view s)" by auto
  then show ?thesis using assms(2,4,5) by (auto simp: evolves_def)
qed

theorem interleavings_keep_filters_witness:
  "\<exists>s xs. (sys_step demo (memStore id))\<^sup>*\<^sup>* (demo_created, [])
      (s, [(AddReq id ''f'' item_b, []), (AddReq id ''f'' item_a, xs)])
    \<and> keeps_filter ''f'' (mem_view demo_created) (mem_view s)"
proof -
  let ?B = "memStore id" and ?b = "AddReq id ''f'' item_b" and ?a = "AddReq id ''f'' item_a"
  obtain a tm1 s1 where "svc_step demo bitwise ?a (demo_telemetry, demo_created) = (a, (tm1, s1))" by (metis surj_pair)
  from demo_overlap [OF this] obtain xs
    where reach: "(sys_step demo ?B)\<^sup>*\<^sup>* (demo_created, []) (s1, [(?b, []), (?a, xs)])" by blast
  have "counts_ok (mem_view s1) \<and> keeps_filter ''f'' (mem_view demo_created) (mem_view s1)"
    by (rule interleavings_keep_filters [OF mem.bit_store_axioms demo_counts reach demo_requests_ok(3)]) simp
  then show ?thesis using reach by blast
qed

text \<open>
  C18 Requests are wait-free. Whatever states of the store its operations find, that is, however the
  operations of the others come between, every request answers after finitely many operations of its own.
\<close>

theorem requests_are_wait_free: "\<exists>n a. answered P B q (map f [0..<n]) = Some a"
  using thread_ends [of P B q f] by (auto simp: answered_def)

text \<open>
  Every history of the service, on the store that sends its bits one by one, is an interleaving: it is reached
  by single steps, with the same answers and the same store in the end.
\<close>

lemma histories_are_interleavings:
  assumes "svc_run P (piped B) qs (tm, s) = (rs, (tm', t))" "\<forall>q \<in> set qs. valid_request q"
  shows "\<exists>ths. (sys_step P B)\<^sup>*\<^sup>* (s, []) (t, ths) \<and> map fst ths = qs
    \<and> map (\<lambda>(q, xs). answered P B q xs) ths = map Some rs"
  using histories_run [OF assms, of "[]"] by simp

text \<open>
  C17 Creating a filter is not atomic. Two overlapping creations of the same filter can both answer
  without error, and an item added in between, by requests that answered without error, is then reported
  as absent: the late creation has set the count of stages back to one.
\<close>

theorem concurrent_creates_lose_item:
  "\<exists>s1 ths s2 ys info. (sys_step demo (memStore id))\<^sup>*\<^sup>* (NewMemStore, []) (s1, ths)
    \<and> map fst ths = [CreateReq ''late'' ''f'' 1 demo_p, CreateReq ''now'' ''f'' 1 demo_p, AddReq id ''f'' item_a,
        AddReq id ''f'' item_b]
    \<and> map (\<lambda>(q, xs). answered demo (memStore id) q xs) ths = [Some (CreateRep (Ok info)), Some (CreateRep (Ok info)),
        Some (AddRep (Ok ())), Some (AddRep (Ok ()))]
    \<and> (sys_step demo (memStore id))\<^sup>*\<^sup>* (s1, ths) (s2, ths @ [(ExistsReq (\<lambda>_. id) ''f'' item_b, ys)])
    \<and> answered demo (memStore id) (ExistsReq (\<lambda>_. id) ''f'' item_b) ys = Some (ExistsRep (Ok False))"
proof -
  let ?B = "memStore id" and ?e = "ExistsReq (\<lambda>_. id) ''f'' item_b"
  let ?info = "spec_info ''f'' (demo_filter [demo_stage0 []])"
  obtain tm s where grown: "svc_run demo bitwise demo_grown (demo_telemetry, NewMemStore)
      = ([CreateRep (Ok ?info), AddRep (Ok ()), AddRep (Ok ())], (tm, s))"
    and sim: "filter_sim demo (mem_view s) ''f'' (Some (demo_filter [demo_stage0 [item_a], demo_stage1 [item_b]]))"
    by (rule demo_grown_run)
  have valid: "\<forall>q \<in> set demo_grown. valid_request q"
    using demo_requests_ok(3) by (simp add: valid_request_def)
  obtain new where new: "(sys_step demo ?B)\<^sup>*\<^sup>* (NewMemStore, [(late, [NewMemStore])]) (s, (late, [NewMemStore]) # new)"
      "map fst new = demo_grown"
      "map (\<lambda>(q, xs). answered demo ?B q xs) new = map Some [CreateRep (Ok ?info), AddRep (Ok ()), AddRep (Ok ())]"
    using histories_run [OF grown valid, of "[(late, [NewMemStore])]"] by auto
  let ?s = "late_listed (late_stage (late_meta s))" and ?xs = "[NewMemStore, s, late_meta s, late_stage (late_meta s)]"
  have first: "(sys_step demo ?B)\<^sup>*\<^sup>* (NewMemStore, []) (?s, (late, ?xs) # new)"
    using late_steps(1,2) new(1) late_steps(3) by (meson converse_rtranclp_into_rtranclp rtranclp_trans)
  obtain tm2 s2 where "SvcExists demo bitwise (\<lambda>_. id) ''f'' item_b (tm, ?s) = (Ok False, (tm2, s2))"
    using late_forgets [OF sim, of tm] by (metis prod.collapse)
  then have "svc_step demo bitwise ?e (tm, ?s) = (ExistsRep (Ok False), (tm2, s2))" by simp
  from run_alone [OF this, of "(late, ?xs) # new"] obtain ys
    where ys: "(sys_step demo ?B)\<^sup>*\<^sup>* (?s, (late, ?xs) # new) (s2, ((late, ?xs) # new) @ [(?e, ys)])"
      "answered demo ?B ?e ys = Some (ExistsRep (Ok False))"
    using demo_requests_ok(3) by (auto simp: valid_request_def)
  show ?thesis
    by (rule exI [of _ ?s], rule exI [of _ "(late, ?xs) # new"], rule exI [of _ s2], rule exI [of _ ys],
        rule exI [of _ ?info], intro conjI first ys) (use new late_replay(9) in simp_all)
qed

end
