(* ===== verification/Startup.thy ===== *)
theory Startup
  imports Config Api
begin

text \<open>
  How the process comes up: \<open>internal/obs/provider.go\<close>, \<open>internal/obs/logger.go\<close>, the construction of
  the instruments in \<open>internal/obs/metrics.go\<close>, and \<open>main\<close> in \<open>cmd/server/main.go\<close> up to the point where
  the server listens. What the process does to the outside and to the globals of the OpenTelemetry
  packages is a list of events. The constructors of third-party packages only succeed or fail here: which
  of them fail is the argument \<open>sdk\<close>, and what they construct is named by its arguments. The pieces of the
  embedded specification and the decoders it goes through are fields of \<open>sdk\<close> too.
\<close>

section \<open>What is constructed\<close>

datatype signal = Traces | Metrics | Logs

datatype exporter = Exporter (ex_transport: string) (ex_signal: signal)

text \<open>
  A resource is its attributes. \<open>resource.New\<close> is third-party: it makes a resource of the options it is
  given, of which \<open>WithFromEnv\<close> takes attributes from the environment, also of the same names.
\<close>

type_synonym resource = "(string \<times> string) list"

datatype resource_option = WithAttributes "(string \<times> string) list" | WithFromEnv | WithTelemetrySDK

type_synonym provider = "resource \<times> exporter"

text \<open>Go's own default logger, the JSON logger of \<open>internal/core/logger\<close>, and the bridge onto a log provider.\<close>

datatype logger = GoLogger | JSONLogger level | OtelLogger string provider

text \<open>
  The levels a logger writes: Go's own from \<open>info\<close> on, the JSON handler from its level on, and the bridge
  all, since the provider has a batch processor and no filter.
\<close>

fun Enabled :: "logger \<Rightarrow> level \<Rightarrow> bool" where
  "Enabled GoLogger l = (LevelInfo \<le> l)"
| "Enabled (JSONLogger m) l = (m \<le> l)"
| "Enabled (OtelLogger name lp) l = True"

lemma Enabled_Error [simp]: "Enabled lg LevelError"
  by (cases lg) simp_all

record sdk =
  sdk_resource :: "resource_option list \<Rightarrow> resource res"
  sdk_exporter :: "exporter \<Rightarrow> unit res"
  sdk_instrument :: "string \<Rightarrow> unit res"
  sdk_callback :: "string list \<Rightarrow> unit res"
  sdk_client :: "string \<Rightarrow> unit res"
  sdk_spec :: "string list"
  sdk_base64 :: "string \<Rightarrow> string res"
  sdk_inflate :: "string \<Rightarrow> string res"
  sdk_inflate_close :: "string \<Rightarrow> unit res"
  sdk_clean :: "string \<Rightarrow> string"
  sdk_load :: "(string \<Rightarrow> string res) \<Rightarrow> string \<Rightarrow> unit res"

text \<open>The fields of \<open>Providers\<close> but for \<open>Log\<close> may be nil.\<close>

record Providers =
  pv_tracer :: "provider option"
  pv_meter :: "provider option"
  pv_logger :: "provider option"
  pv_Log :: logger

record Instruments =
  in_reqDuration :: "string option"
  in_filtersOps :: "string option"
  in_itemsAdded :: "string option"
  in_fillRatio :: "string option"
  in_estFPP :: "string option"
  in_items :: "string option"
  in_filterCount :: "string option"

datatype event =
    SetDefault logger
  | SetTracerProvider provider | SetMeterProvider provider | SetLoggerProvider provider
  | SetPropagator "string list"
  | NotifySignals | StopSignals
  | ClientOpened string | ClientClosed
  | CallbackRegistered "string list"
  | Logged logger level string
  | Listening string
  | RequestStarted | RequestFinished
  | ShuttingDown | Drained | Flushed signal

text \<open>The process while it comes up: what it has done, and \<open>slog.Default()\<close>.\<close>

record boot =
  bt_events :: "event list"
  bt_default :: logger

definition logged :: "logger \<Rightarrow> level \<Rightarrow> string \<Rightarrow> event list" where
  "logged lg lvl msg = (if Enabled lg lvl then [Logged lg lvl msg] else [])"

definition emit_all :: "event list \<Rightarrow> (boot, unit) call" where
  "emit_all es = (\<lambda>b. (Ok (), b\<lparr>bt_events := bt_events b @ es\<rparr>))"

definition emit :: "event \<Rightarrow> (boot, unit) call" where
  "emit e = (\<lambda>b. (Ok (), b\<lparr>bt_events := bt_events b @ [e]\<rparr>))"

definition setDefault :: "logger \<Rightarrow> (boot, unit) call" where
  "setDefault lg = (\<lambda>b. (Ok (), b\<lparr>bt_events := bt_events b @ [SetDefault lg], bt_default := lg\<rparr>))"

definition getDefault :: "(boot, logger) call" where
  "getDefault = (\<lambda>b. (Ok (bt_default b), b))"

section \<open>The providers\<close>

definition ExporterOTLP :: string where "ExporterOTLP = ''otlp''"
definition ExporterStdout :: string where "ExporterStdout = ''stdout''"
definition ExporterNone :: string where "ExporterNone = ''none''"

record obs_Config =
  oc_ServiceName :: string
  oc_ServiceVersion :: string
  oc_Exporter :: string

definition newResource :: "sdk \<Rightarrow> obs_Config \<Rightarrow> resource res" where
  "newResource X cfg = sdk_resource X
     [WithAttributes [(''service.name'', oc_ServiceName cfg), (''service.version'', oc_ServiceVersion cfg)],
      WithFromEnv, WithTelemetrySDK]"

definition new_exporter :: "sdk \<Rightarrow> string \<Rightarrow> signal \<Rightarrow> exporter res" where
  "new_exporter X transport sig = bindR (sdk_exporter X (Exporter transport sig)) (\<lambda>_. Ok (Exporter transport sig))"

definition newExporters :: "sdk \<Rightarrow> string \<Rightarrow> (exporter \<times> exporter \<times> exporter) res" where
  "newExporters X mode =
    (if mode = ExporterOTLP then
       bindR (wrapR ''otlp trace exporter: '' (new_exporter X ''otlp'' Traces)) (\<lambda>te.
       bindR (wrapR ''otlp metric exporter: '' (new_exporter X ''otlp'' Metrics)) (\<lambda>me.
       bindR (wrapR ''otlp log exporter: '' (new_exporter X ''otlp'' Logs)) (\<lambda>le.
       Ok (te, me, le))))
     else if mode = ExporterStdout then
       bindR (wrapR ''stdout trace exporter: '' (new_exporter X ''stdout'' Traces)) (\<lambda>te.
       bindR (wrapR ''stdout metric exporter: '' (new_exporter X ''stdout'' Metrics)) (\<lambda>me.
       bindR (wrapR ''stdout log exporter: '' (new_exporter X ''stdout'' Logs)) (\<lambda>le.
       Ok (te, me, le))))
     else Err (ErrorText (''unknown exporter mode '' @ Quote mode @ '' (want '' @ ExporterOTLP @ ''|''
       @ ExporterStdout @ ''|'' @ ExporterNone @ '')'')))"

definition newLogger :: "string \<Rightarrow> provider \<Rightarrow> logger" where
  "newLogger name lp = OtelLogger name lp"

definition Setup :: "sdk \<Rightarrow> obs_Config \<Rightarrow> (boot, Providers) call" where
  "Setup X cfg =
    (if oc_Exporter cfg = ExporterNone then
       bindC getDefault (\<lambda>lg.
       returnC \<lparr>pv_tracer = None, pv_meter = None, pv_logger = None, pv_Log = lg\<rparr>)
     else
       bindC (resC (wrapR ''obs: build resource: '' (newResource X cfg))) (\<lambda>r.
       bindC (resC (wrapR ''obs: build exporters: '' (newExporters X (oc_Exporter cfg))))
         (\<lambda>(traceExp, metricExp, logExp).
       let tp = (r, traceExp); mp = (r, metricExp); lp = (r, logExp) in
       bindC (emit (SetTracerProvider tp)) (\<lambda>_.
       bindC (emit (SetMeterProvider mp)) (\<lambda>_.
       bindC (emit (SetLoggerProvider lp)) (\<lambda>_.
       bindC (emit (SetPropagator [''tracecontext'', ''baggage''])) (\<lambda>_.
       returnC \<lparr>pv_tracer = Some tp, pv_meter = Some mp, pv_logger = Some lp,
         pv_Log = newLogger (oc_ServiceName cfg) lp\<rparr>)))))))"

text \<open>
  \<open>Shutdown\<close> on a possibly nil receiver; \<open>fails\<close> says with what the SDK shuts a provider down. All of them
  are shut down, and \<open>errors.Join\<close> of the results is nil when all are nil.
\<close>

definition shutdown_of :: "signal \<Rightarrow> provider option \<Rightarrow> event list" where
  "shutdown_of sig p = (case p of None \<Rightarrow> [] | Some _ \<Rightarrow> [Flushed sig])"

definition Shutdown :: "(signal \<Rightarrow> error option) \<Rightarrow> Providers option \<Rightarrow> event list \<times> error list" where
  "Shutdown fails p = (case p of None \<Rightarrow> ([], [])
     | Some p \<Rightarrow>
         let errs = (if pv_tracer p \<noteq> None then [fails Traces] else [])
           @ (if pv_meter p \<noteq> None then [fails Metrics] else [])
           @ (if pv_logger p \<noteq> None then [fails Logs] else [])
         in (shutdown_of Traces (pv_tracer p) @ shutdown_of Metrics (pv_meter p) @ shutdown_of Logs (pv_logger p),
             map the (filter (\<lambda>e. e \<noteq> None) errs)))"

section \<open>The instruments\<close>

definition new_instrument :: "sdk \<Rightarrow> string \<Rightarrow> string option res" where
  "new_instrument X name = bindR (sdk_instrument X name) (\<lambda>_. Ok (Some name))"

definition NewInstruments :: "sdk \<Rightarrow> Instruments res" where
  "NewInstruments X =
    bindR (new_instrument X ''http.server.request.duration'') (\<lambda>reqDur.
    bindR (new_instrument X ''toybloom.filter.operations'') (\<lambda>ops.
    bindR (new_instrument X ''toybloom.filter.items_added'') (\<lambda>items.
    bindR (new_instrument X ''toybloom.filter.fill_ratio'') (\<lambda>fillRatio.
    bindR (new_instrument X ''toybloom.filter.estimated_fpp'') (\<lambda>estFPP.
    bindR (new_instrument X ''toybloom.filter.items'') (\<lambda>itemsGauge.
    bindR (new_instrument X ''toybloom.filter.count'') (\<lambda>filterCount.
    Ok \<lparr>in_reqDuration = reqDur, in_filtersOps = ops, in_itemsAdded = items, in_fillRatio = fillRatio,
      in_estFPP = estFPP, in_items = itemsGauge, in_filterCount = filterCount\<rparr>)))))))"

text \<open>The callback that is registered is \<open>observe_callback\<close> of theory \<^theory_text>\<open>Obs\<close>.\<close>

definition ObserveFilters :: "sdk \<Rightarrow> Instruments option \<Rightarrow> (boot, unit) call" where
  "ObserveFilters X i = (case i of None \<Rightarrow> returnC ()
     | Some i \<Rightarrow>
         (case (in_fillRatio i, in_estFPP i, in_items i, in_filterCount i) of
           (Some fr, Some fpp, Some it, Some fc) \<Rightarrow>
             bindC (resC (sdk_callback X [fr, fpp, it, fc])) (\<lambda>_. emit (CallbackRegistered [fr, fpp, it, fc]))
         | _ \<Rightarrow> returnC ()))"

section \<open>The process\<close>

text \<open>What \<open>main\<close> goes on with, or the status of \<open>os.Exit\<close>; a panic exits with status 2.\<close>

datatype 'a outcome = Running 'a | Exit int

definition or_exit :: "logger option \<Rightarrow> string \<Rightarrow> (boot, 'a) call \<Rightarrow> ('a \<Rightarrow> boot \<Rightarrow> 'b outcome \<times> boot)
    \<Rightarrow> boot \<Rightarrow> 'b outcome \<times> boot" where
  "or_exit lg msg c k b = (case c b of
     (Ok x, b') \<Rightarrow> k x b'
   | (Err e, b') \<Rightarrow> (Exit 1, b'\<lparr>bt_events := bt_events b' @
       logged (case lg of None \<Rightarrow> bt_default b' | Some lg \<Rightarrow> lg) LevelError msg\<rparr>)
   | (Panic p, b') \<Rightarrow> (Exit 2, b'))"

text \<open>
  \<open>internal/api/gen/gen.go\<close>: the embedded specification is decoded once, and loaded with a reader of
  external references that knows no file. \<open>registerFilterRoutes\<close> panics when it does not load.
\<close>

definition decodeSpec :: "sdk \<Rightarrow> string res" where
  "decodeSpec X =
    bindR (wrapR ''error base64 decoding spec: '' (sdk_base64 X (concat (sdk_spec X)))) (\<lambda>compressed.
    bindR (wrapR ''read flate: '' (sdk_inflate X compressed)) (\<lambda>buf.
    bindR (wrapR ''close flate reader: '' (sdk_inflate_close X compressed)) (\<lambda>_. Ok buf)))"

text \<open>The function that returns what was decoded when the package was initialised.\<close>

definition decodeSpecCached :: "sdk \<Rightarrow> unit \<Rightarrow> string res" where
  "decodeSpecCached X = (let decoded = decodeSpec X in (\<lambda>_. decoded))"

definition rawSpec :: "sdk \<Rightarrow> unit \<Rightarrow> string res" where
  "rawSpec X = decodeSpecCached X"

definition PathToRawSpec :: "sdk \<Rightarrow> string \<Rightarrow> string \<rightharpoonup> (unit \<Rightarrow> string res)" where
  "PathToRawSpec X pathToFile = (if 0 < length pathToFile then [pathToFile \<mapsto> rawSpec X] else Map.empty)"

definition GetSpec :: "sdk \<Rightarrow> unit res" where
  "GetSpec X =
    (let resolvePath = PathToRawSpec X [];
         ReadFromURIFunc = (\<lambda>url. let pathToFile = sdk_clean X url in
           case resolvePath pathToFile of None \<Rightarrow> Err (ErrorText (''path not found: '' @ pathToFile))
           | Some getSpec \<Rightarrow> getSpec ())
     in bindR (rawSpec X ()) (sdk_load X ReadFromURIFunc))"

definition GetSpecJSON :: "sdk \<Rightarrow> string res" where
  "GetSpecJSON X = rawSpec X ()"

definition GetSwagger :: "sdk \<Rightarrow> unit res" where
  "GetSwagger X = GetSpec X"

definition registerFilterRoutes :: "sdk \<Rightarrow> (boot, unit) call" where
  "registerFilterRoutes X = (case GetSpec X of
     Ok _ \<Rightarrow> returnC ()
   | Err e \<Rightarrow> resC (Panic (''load embedded openapi spec: '' @ error_text Quote e))
   | Panic p \<Rightarrow> resC (Panic p))"

definition main_start :: "sdk \<Rightarrow> string \<Rightarrow> Config \<Rightarrow> boot \<Rightarrow> Providers outcome \<times> boot" where
  "main_start X version cfg =
    or_exit None [] (setDefault (JSONLogger (logger_level (cfg_LogLevel cfg)))) (\<lambda>_.
    or_exit None [] (emit NotifySignals) (\<lambda>_.
    or_exit None ''observability setup failed'' (Setup X \<lparr>oc_ServiceName = cfg_ServiceName cfg,
      oc_ServiceVersion = version, oc_Exporter = cfg_ObsExporter cfg\<rparr>) (\<lambda>providers.
    let lg = pv_Log providers in
    or_exit None [] (setDefault lg) (\<lambda>_.
    or_exit (Some lg) ''observability instruments failed'' (resC (NewInstruments X)) (\<lambda>inst.
    or_exit (Some lg) ''valkey client init failed'' (resC (sdk_client X (cfg_ValkeyAddr cfg))) (\<lambda>_.
    or_exit None [] (emit (ClientOpened (cfg_ValkeyAddr cfg))) (\<lambda>_.
    or_exit (Some lg) ''observability filter gauges failed'' (ObserveFilters X (Some inst)) (\<lambda>_.
    or_exit None [] (registerFilterRoutes X) (\<lambda>_.
    or_exit None [] (emit_all (logged lg LevelInfo ''listening'')) (\<lambda>_.
    or_exit None [] (emit (Listening (CHR '':'' # cfg_Port cfg))) (\<lambda>_ b.
    (Running providers, b))))))))))))"

section \<open>What startup does\<close>

definition boot0 :: boot where "boot0 = \<lparr>bt_events = [], bt_default = GoLogger\<rparr>"

lemma emit_apply [simp]: "emit e b = (Ok (), b\<lparr>bt_events := bt_events b @ [e]\<rparr>)"
  by (simp add: emit_def)

lemma emit_all_apply [simp]: "emit_all es b = (Ok (), b\<lparr>bt_events := bt_events b @ es\<rparr>)"
  by (simp add: emit_all_def)

lemma logged_Error [simp]: "logged lg LevelError msg = [Logged lg LevelError msg]"
  by (simp add: logged_def)

lemma logged_only: "e \<in> set (logged lg lvl msg) \<Longrightarrow> e = Logged lg lvl msg"
  by (simp add: logged_def split: if_splits)

lemma setDefault_apply [simp]:
  "setDefault lg b = (Ok (), b\<lparr>bt_events := bt_events b @ [SetDefault lg], bt_default := lg\<rparr>)"
  by (simp add: setDefault_def)

lemma getDefault_apply [simp]: "getDefault b = (Ok (bt_default b), b)"
  by (simp add: getDefault_def)

lemma or_exit_ok [simp]: "c b = (Ok x, b') \<Longrightarrow> or_exit lg msg c k b = k x b'"
  by (simp add: or_exit_def)

lemma or_exit_Running:
  assumes "or_exit lg msg c k b = (Running r, b2)"
  obtains x b1 where "c b = (Ok x, b1)" "k x b1 = (Running r, b2)"
  using assms by (auto simp: or_exit_def split: prod.splits res.splits)

lemma or_exit_Exit:
  assumes "or_exit lg msg c k b = (Exit s, b2)"
  obtains (later) x b1 where "c b = (Ok x, b1)" "k x b1 = (Exit s, b2)"
    | (failed) e b1 where "c b = (Err e, b1)" "s = 1"
        "bt_events b2 = bt_events b1 @ [Logged (case lg of None \<Rightarrow> bt_default b1 | Some lg \<Rightarrow> lg) LevelError msg]"
    | (panicked) p where "c b = (Panic p, b2)" "s = 2"
  using assms by (auto simp: or_exit_def split: prod.splits res.splits)

text \<open>What \<open>Setup\<close> registers, by the mode of the exporters.\<close>

definition registered :: "Providers \<Rightarrow> event list" where
  "registered pv = (case (pv_tracer pv, pv_meter pv, pv_logger pv) of
     (Some tp, Some mp, Some lp) \<Rightarrow> [SetTracerProvider tp, SetMeterProvider mp, SetLoggerProvider lp,
        SetPropagator [''tracecontext'', ''baggage'']]
   | _ \<Rightarrow> [])"

definition providers_of :: "sdk \<Rightarrow> obs_Config \<Rightarrow> logger \<Rightarrow> Providers" where
  "providers_of X cfg lg0 =
    (if oc_Exporter cfg = ''none'' then \<lparr>pv_tracer = None, pv_meter = None, pv_logger = None, pv_Log = lg0\<rparr>
     else let r = (case newResource X cfg of Ok r \<Rightarrow> r | _ \<Rightarrow> []); x = Exporter (oc_Exporter cfg) in
       \<lparr>pv_tracer = Some (r, x Traces), pv_meter = Some (r, x Metrics), pv_logger = Some (r, x Logs),
        pv_Log = OtelLogger (oc_ServiceName cfg) (r, x Logs)\<rparr>)"

lemma new_exporter_Ok: "new_exporter X tr sig = Ok x \<Longrightarrow> x = Exporter tr sig"
  by (auto simp: new_exporter_def bindR_Ok_iff)

lemma newExporters_Ok:
  "newExporters X mode = Ok (te, me, le) \<Longrightarrow> mode \<in> {''otlp'', ''stdout''} \<and> te = Exporter mode Traces
     \<and> me = Exporter mode Metrics \<and> le = Exporter mode Logs"
  by (auto simp: newExporters_def bindR_Ok_iff ExporterOTLP_def ExporterStdout_def dest!: new_exporter_Ok split: if_splits)

lemma Setup_result:
  assumes "Setup X cfg b = (r, b1)"
  shows "case r of
     Ok pv \<Rightarrow> oc_Exporter cfg \<in> {''otlp'', ''stdout'', ''none''} \<and> pv = providers_of X cfg (bt_default b)
       \<and> b1 = b\<lparr>bt_events := bt_events b @ registered pv\<rparr>
   | _ \<Rightarrow> b1 = b"
proof (cases "oc_Exporter cfg = ''none''")
  case True
  then show ?thesis using assms
    by (simp add: Setup_def ExporterNone_def providers_of_def registered_def bindC_def split: res.splits) auto
next
  case False
  show ?thesis
  proof (cases "newResource X cfg")
    case (Ok r0)
    show ?thesis
    proof (cases "newExporters X (oc_Exporter cfg)")
      case (Ok t)
      obtain te me le where "t = (te, me, le)" by (metis surj_pair)
      with newExporters_Ok Ok show ?thesis using assms False \<open>newResource X cfg = Ok r0\<close>
        by (fastforce simp: Setup_def ExporterNone_def providers_of_def registered_def bindC_def newLogger_def Let_def)
    qed (use assms False Ok in \<open>auto simp: Setup_def ExporterNone_def bindC_def\<close>)
  qed (use assms False in \<open>auto simp: Setup_def ExporterNone_def bindC_def\<close>)
qed

definition gauges :: "string list" where
  "gauges = [''toybloom.filter.fill_ratio'', ''toybloom.filter.estimated_fpp'', ''toybloom.filter.items'',
     ''toybloom.filter.count'']"

lemma NewInstruments_Ok:
  "NewInstruments X = Ok i \<Longrightarrow> [in_fillRatio i, in_estFPP i, in_items i, in_filterCount i] = map Some gauges"
  by (auto simp: NewInstruments_def new_instrument_def bindR_Ok_iff gauges_def)

lemma ObserveFilters_result:
  assumes "NewInstruments X = Ok i" "ObserveFilters X (Some i) b = (r, b1)"
  shows "case r of Ok _ \<Rightarrow> b1 = b\<lparr>bt_events := bt_events b @ [CallbackRegistered gauges]\<rparr> | _ \<Rightarrow> b1 = b"
proof -
  have "ObserveFilters X (Some i) = bindC (resC (sdk_callback X gauges)) (\<lambda>_. emit (CallbackRegistered gauges))"
    using NewInstruments_Ok [OF assms(1)] by (simp add: ObserveFilters_def gauges_def)
  then show ?thesis using assms(2) by (cases "sdk_callback X gauges") (auto split: res.splits)
qed

text \<open>All that is done before the server listens.\<close>

definition startup_events :: "Config \<Rightarrow> Providers \<Rightarrow> event list" where
  "startup_events cfg pv = [SetDefault (JSONLogger (logger_level (cfg_LogLevel cfg))), NotifySignals] @ registered pv
     @ [SetDefault (pv_Log pv), ClientOpened (cfg_ValkeyAddr cfg), CallbackRegistered gauges]
     @ logged (pv_Log pv) LevelInfo ''listening'' @ [Listening (CHR '':'' # cfg_Port cfg)]"

definition obs_config :: "Config \<Rightarrow> string \<Rightarrow> obs_Config" where
  "obs_config cfg version = \<lparr>oc_ServiceName = cfg_ServiceName cfg, oc_ServiceVersion = version,
     oc_Exporter = cfg_ObsExporter cfg\<rparr>"

lemma Setup_later:
  assumes "Setup X cfg b = (Ok pv, b1)"
  shows "oc_Exporter cfg \<in> {''otlp'', ''stdout'', ''none''} \<and> pv = providers_of X cfg (bt_default b)
    \<and> b1 = b\<lparr>bt_events := bt_events b @ registered pv\<rparr>"
  using Setup_result [OF assms] by simp_all

lemma Setup_failed: "Setup X cfg b = (Err e, b1) \<Longrightarrow> b1 = b" "Setup X cfg b = (Panic p, b1) \<Longrightarrow> b1 = b"
  using Setup_result by fastforce+

lemma ObserveFilters_later:
  "ObserveFilters X (Some i) b = (Ok u, b1) \<Longrightarrow> NewInstruments X = Ok i \<Longrightarrow>
     b1 = b\<lparr>bt_events := bt_events b @ [CallbackRegistered gauges]\<rparr>"
  "ObserveFilters X (Some i) b = (Err e, b1) \<Longrightarrow> NewInstruments X = Ok i \<Longrightarrow> b1 = b"
  "ObserveFilters X (Some i) b = (Panic p, b1) \<Longrightarrow> NewInstruments X = Ok i \<Longrightarrow> b1 = b"
  using ObserveFilters_result by fastforce+

lemma main_start_Running:
  assumes "main_start X version cfg boot0 = (Running pv, b)"
  shows "cfg_ObsExporter cfg \<in> {''otlp'', ''stdout'', ''none''}"
    "pv = providers_of X (obs_config cfg version) (JSONLogger (logger_level (cfg_LogLevel cfg)))"
    "bt_events b = startup_events cfg pv"
  using assms unfolding main_start_def Let_def
  by (auto simp: boot0_def startup_events_def obs_config_def registerFilterRoutes_def dest!: Setup_later ObserveFilters_later
      elim!: or_exit_Running split: res.splits)

lemma registered_quiet: "Listening a \<notin> set (registered pv)"
  by (auto simp: registered_def split: option.splits)

lemma main_start_Exit:
  assumes "main_start X version cfg boot0 = (Exit st, b)"
  shows "st \<in> {1, 2} \<and> (\<forall>a. Listening a \<notin> set (bt_events b))
    \<and> (st = 1 \<longrightarrow> (\<exists>es lg msg. bt_events b = es @ [Logged lg LevelError msg]))"
  using assms registered_quiet unfolding main_start_def Let_def
  by (fastforce simp: boot0_def registerFilterRoutes_def dest!: Setup_later Setup_failed ObserveFilters_later
      elim!: or_exit_Exit split: res.splits)

definition all_ok :: "sdk \<Rightarrow> bool" where
  "all_ok X \<longleftrightarrow> (\<forall>os. \<exists>r. sdk_resource X os = Ok r) \<and> (\<forall>e. sdk_exporter X e = Ok ())
     \<and> (\<forall>n. sdk_instrument X n = Ok ()) \<and> (\<forall>ns. sdk_callback X ns = Ok ())
     \<and> (\<forall>a. sdk_client X a = Ok ()) \<and> GetSpec X = Ok ()"

lemma main_start_all_ok:
  assumes "all_ok X"
  shows "\<exists>b. main_start X version cfg boot0 = (if cfg_ObsExporter cfg \<in> {''otlp'', ''stdout'', ''none''}
    then Running (providers_of X (obs_config cfg version) (JSONLogger (logger_level (cfg_LogLevel cfg)))) else Exit 1, b)"
proof -
  have inst: "NewInstruments X = Ok \<lparr>in_reqDuration = Some ''http.server.request.duration'',
      in_filtersOps = Some ''toybloom.filter.operations'', in_itemsAdded = Some ''toybloom.filter.items_added'',
      in_fillRatio = Some ''toybloom.filter.fill_ratio'', in_estFPP = Some ''toybloom.filter.estimated_fpp'',
      in_items = Some ''toybloom.filter.items'', in_filterCount = Some ''toybloom.filter.count''\<rparr>"
    using assms by (simp add: all_ok_def NewInstruments_def new_instrument_def)
  note ok = assms [unfolded all_ok_def]
  obtain res where res: "newResource X (obs_config cfg version) = Ok res"
    using ok unfolding newResource_def by blast
  have mode: "Setup X (obs_config cfg version) b = (if cfg_ObsExporter cfg \<in> {''otlp'', ''stdout'', ''none''}
      then (let pv = providers_of X (obs_config cfg version) (bt_default b)
            in (Ok pv, b\<lparr>bt_events := bt_events b @ registered pv\<rparr>))
      else (Err (Errorf ''obs: build exporters: '' (ErrorText (''unknown exporter mode '' @ Quote (cfg_ObsExporter cfg)
        @ '' (want otlp|stdout|none)''))), b))" for b
    using ok res [unfolded obs_config_def] by (auto simp: Setup_def newExporters_def new_exporter_def ExporterNone_def ExporterOTLP_def
        ExporterStdout_def obs_config_def Let_def providers_of_def registered_def newLogger_def bindC_def)
  show ?thesis
    using ok mode [unfolded obs_config_def]
    by (auto simp: main_start_def inst boot0_def registerFilterRoutes_def ObserveFilters_def obs_config_def Let_def or_exit_def bindC_def)
qed

section \<open>Property\<close>

text \<open>
  C21 The process comes up completely or not at all. When it listens, everything was set up before, in the
  order of \<open>startup_events\<close>, with the providers of the configured exporter mode; otherwise it exits with a
  status that is not zero without ever listening, and status 1 comes with an error in the log. When no
  constructor fails, it listens exactly when the exporter mode is one of the three known ones.
\<close>

theorem startup_is_all_or_nothing:
  assumes "main_start X version cfg boot0 = (r, b)"
  shows "(case r of
      Running pv \<Rightarrow> bt_events b = startup_events cfg pv
        \<and> pv = providers_of X (obs_config cfg version) (JSONLogger (logger_level (cfg_LogLevel cfg)))
    | Exit st \<Rightarrow> st \<in> {1, 2} \<and> (\<forall>a. Listening a \<notin> set (bt_events b))
        \<and> (st = 1 \<longrightarrow> (\<exists>es lg msg. bt_events b = es @ [Logged lg LevelError msg])))
    \<and> (all_ok X \<longrightarrow> (\<exists>pv. r = Running pv) = (cfg_ObsExporter cfg \<in> {''otlp'', ''stdout'', ''none''}))"
  using main_start_all_ok [of X version cfg] main_start_Running [of X version cfg _ b] main_start_Exit [of X version cfg _ b] assms
  by (cases r) (auto split: if_splits)

text \<open>An environment that names the service.\<close>

primrec demo_attributes :: "resource_option \<Rightarrow> resource" where
  "demo_attributes (WithAttributes as) = as"
| "demo_attributes WithFromEnv = [(''service.name'', ''filters'')]"
| "demo_attributes WithTelemetrySDK = [(''telemetry.sdk.language'', ''go'')]"

definition demo_sdk :: sdk where
  "demo_sdk = \<lparr>sdk_resource = (\<lambda>os. Ok (rev (concat (map demo_attributes os)))), sdk_exporter = (\<lambda>_. Ok ()), sdk_instrument = (\<lambda>_. Ok ()),
     sdk_callback = (\<lambda>_. Ok ()), sdk_client = (\<lambda>_. Ok ()), sdk_spec = [''openapi: '', ''3.0.3''], sdk_base64 = Ok, sdk_inflate = Ok,
     sdk_inflate_close = (\<lambda>_. Ok ()), sdk_clean = id, sdk_load = (\<lambda>_ _. Ok ())\<rparr>"

definition demo_config :: Config where
  "demo_config = LoadConfig (\<lambda>_. Ok 0) (\<lambda>_. [])"

lemma demo_sdk_ok: "all_ok demo_sdk"
  by (simp add: all_ok_def demo_sdk_def GetSpec_def rawSpec_def decodeSpecCached_def decodeSpec_def)

definition demo_providers :: Providers where
  "demo_providers = providers_of demo_sdk (obs_config demo_config ''dev'') (JSONLogger LevelInfo)"

lemma demo_level: "logger_level (cfg_LogLevel demo_config) = LevelInfo" "cfg_ObsExporter demo_config = ''stdout''"
  by (simp_all add: demo_config_def LoadConfig_def envStr_def logger_level_def lower_char_def Let_def of_char_of)

theorem startup_is_all_or_nothing_witness:
  "\<exists>pv b. main_start demo_sdk ''dev'' demo_config boot0 = (Running pv, b)
     \<and> bt_events b = startup_events demo_config pv"
proof -
  obtain r b where run: "main_start demo_sdk ''dev'' demo_config boot0 = (r, b)" by (metis surj_pair)
  from startup_is_all_or_nothing [OF run] demo_sdk_ok demo_level(2)
  show ?thesis using run by (cases r) auto
qed

end
