(* ===== verification/Process.thy ===== *)
theory Process
  imports Startup
begin

text \<open>
  \<open>main\<close> in \<open>cmd/server/main.go\<close> once the server listens: the goroutine that waits for a signal and then
  shuts down, the one that serves, and the requests in flight. A step is what one of them does next, or a
  signal that arrives. \<open>Shutdown\<close> of the HTTP server is as the standard library documents it: it stops the
  acceptance of requests, and returns nil only when none is in flight.
\<close>

section \<open>The steps\<close>

datatype status = Status int | KilledBySignal

text \<open>Where \<open>main\<close> stands, with what it has left to do once it is drained, and the goroutine that serves.\<close>

datatype pc = AtSignal | AtStopped | AtShutdown | AtDrain | Closing "event list" | AtExit int | Exited status

datatype server = Serving | ServeFailed | ServeReported

record process =
  pr_pc :: pc
  pr_server :: server
  pr_ctx :: bool
  pr_notify :: bool
  pr_accepting :: bool
  pr_inflight :: nat
  pr_events :: "event list"

definition listening :: "boot \<Rightarrow> bool \<Rightarrow> process" where
  "listening b signalled = \<lparr>pr_pc = AtSignal, pr_server = Serving, pr_ctx = signalled, pr_notify = True,
     pr_accepting = True, pr_inflight = 0, pr_events = bt_events b\<rparr>"

definition alive :: "process \<Rightarrow> bool" where
  "alive p \<longleftrightarrow> (\<forall>st. pr_pc p \<noteq> Exited st)"

text \<open>Not exited, and not about to exit since the requests were not drained in time.\<close>

definition running :: "process \<Rightarrow> bool" where
  "running p \<longleftrightarrow> alive p \<and> (\<forall>n. pr_pc p \<noteq> AtExit n)"

definition does :: "event list \<Rightarrow> process \<Rightarrow> process" where
  "does es p = p\<lparr>pr_events := pr_events p @ es\<rparr>"

text \<open>
  What is left after the drain, one action after the other: the shutdown of the providers, the last lines of
  \<open>main\<close> and its deferred calls.
\<close>

definition closing :: "logger \<Rightarrow> error list \<Rightarrow> event list" where
  "closing lg errs = (if errs = [] then [] else logged lg LevelError ''telemetry flush failed'')
     @ logged lg LevelInfo ''server stopped cleanly'' @ [ClientClosed, StopSignals]"

definition closing_events :: "(signal \<Rightarrow> error option) \<Rightarrow> Providers \<Rightarrow> event list" where
  "closing_events fails pv = (case Shutdown fails (Some pv) of (es, errs) \<Rightarrow> es @ closing (pv_Log pv) errs)"

inductive main_step :: "(signal \<Rightarrow> error option) \<Rightarrow> Providers \<Rightarrow> process \<Rightarrow> process \<Rightarrow> bool" for fails pv where
  signal_caught: "alive p \<Longrightarrow> pr_notify p \<Longrightarrow> main_step fails pv p (p\<lparr>pr_ctx := True\<rparr>)"
| signal_kills: "alive p \<Longrightarrow> \<not> pr_notify p \<Longrightarrow> main_step fails pv p (p\<lparr>pr_pc := Exited KilledBySignal\<rparr>)"
| accept: "alive p \<Longrightarrow> pr_accepting p \<Longrightarrow>
    main_step fails pv p (does [RequestStarted] (p\<lparr>pr_inflight := pr_inflight p + 1\<rparr>))"
| finish: "alive p \<Longrightarrow> 0 < pr_inflight p \<Longrightarrow>
    main_step fails pv p (does [RequestFinished] (p\<lparr>pr_inflight := pr_inflight p - 1\<rparr>))"
| serve_fails: "alive p \<Longrightarrow> pr_accepting p \<Longrightarrow> pr_server p = Serving \<Longrightarrow>
    main_step fails pv p (p\<lparr>pr_server := ServeFailed\<rparr>)"
| serve_reports: "alive p \<Longrightarrow> pr_server p = ServeFailed \<Longrightarrow>
    main_step fails pv p (does (logged (pv_Log pv) LevelError ''server error'') (p\<lparr>pr_server := ServeReported\<rparr>))"
| serve_exits: "alive p \<Longrightarrow> pr_server p = ServeReported \<Longrightarrow>
    main_step fails pv p (p\<lparr>pr_pc := Exited (Status 1)\<rparr>)"
| wake: "pr_pc p = AtSignal \<Longrightarrow> pr_ctx p \<Longrightarrow>
    main_step fails pv p (does [StopSignals] (p\<lparr>pr_pc := AtStopped, pr_notify := False\<rparr>))"
| announce: "pr_pc p = AtStopped \<Longrightarrow>
    main_step fails pv p (does (logged (pv_Log pv) LevelInfo ''shutting down, draining in-flight requests'')
      (p\<lparr>pr_pc := AtShutdown\<rparr>))"
| shutdown: "pr_pc p = AtShutdown \<Longrightarrow>
    main_step fails pv p (does [ShuttingDown] (p\<lparr>pr_pc := AtDrain, pr_accepting := False\<rparr>))"
| drained: "pr_pc p = AtDrain \<Longrightarrow> pr_inflight p = 0 \<Longrightarrow>
    main_step fails pv p (does [Drained] (p\<lparr>pr_pc := Closing (closing_events fails pv)\<rparr>))"
| drain_fails: "pr_pc p = AtDrain \<Longrightarrow>
    main_step fails pv p (does (logged (pv_Log pv) LevelError ''graceful shutdown failed'') (p\<lparr>pr_pc := AtExit 1\<rparr>))"
| exits: "pr_pc p = AtExit n \<Longrightarrow> main_step fails pv p (p\<lparr>pr_pc := Exited (Status n)\<rparr>)"
| close: "pr_pc p = Closing (e # es) \<Longrightarrow> main_step fails pv p (does [e] (p\<lparr>pr_pc := Closing es\<rparr>))"
| returns: "pr_pc p = Closing [] \<Longrightarrow> main_step fails pv p (p\<lparr>pr_pc := Exited (Status 0)\<rparr>)"

inductive_cases main_stepE: "main_step fails pv p q"

lemma does_sel [simp]:
  "pr_pc (does es p) = pr_pc p" "pr_server (does es p) = pr_server p" "pr_ctx (does es p) = pr_ctx p" "pr_notify (does es p) = pr_notify p"
  "pr_accepting (does es p) = pr_accepting p" "pr_inflight (does es p) = pr_inflight p"
  "pr_events (does es p) = pr_events p @ es"
  by (simp_all add: does_def)

section \<open>The invariant\<close>

definition unflushed :: "event list \<Rightarrow> bool" where
  "unflushed es \<longleftrightarrow> Drained \<notin> set es \<and> (\<forall>sig. Flushed sig \<notin> set es)"

lemma unflushed_append [simp]: "unflushed (es @ fs) \<longleftrightarrow> unflushed es \<and> unflushed fs"
  by (auto simp: unflushed_def)

lemma unflushed_Nil [simp]: "unflushed []"
  by (simp add: unflushed_def)

lemma unflushed_Cons [simp]:
  "unflushed (e # es) \<longleftrightarrow> e \<noteq> Drained \<and> (\<forall>sig. e \<noteq> Flushed sig) \<and> unflushed es"
  by (auto simp: unflushed_def)

text \<open>Requests that started and have not finished.\<close>

definition open_requests :: "event list \<Rightarrow> nat \<Rightarrow> bool" where
  "open_requests es n \<longleftrightarrow> count_list es RequestStarted = count_list es RequestFinished + n"

text \<open>The goroutine that serves reports its failure at any time; the other events are in the order of \<open>main\<close>.\<close>

definition by_main :: "event list \<Rightarrow> event list" where
  "by_main es = filter (\<lambda>e. \<nexists>lg. e = Logged lg LevelError ''server error'') es"

lemma by_main_simps [simp]:
  "by_main [] = []" "by_main (es @ fs) = by_main es @ by_main fs"
  "by_main (e # es) = (if \<exists>lg. e = Logged lg LevelError ''server error'' then by_main es else e # by_main es)"
  by (simp_all add: by_main_def)

lemma by_main_logged [simp]: "msg \<noteq> ''server error'' \<Longrightarrow> by_main (logged lg lvl msg) = logged lg lvl msg"
  by (simp add: logged_def)

lemma closing_unfiltered: "e \<in> set (closing_events fails pv) \<Longrightarrow> e \<noteq> Logged lg LevelError ''server error''"
  by (auto simp: closing_events_def Shutdown_def shutdown_of_def closing_def Let_def
      split: prod.splits option.splits if_splits dest: logged_only)

lemma unflushed_logged [simp]: "unflushed (logged lg lvl msg)"
  by (simp add: logged_def)

lemma open_requests_append [simp]:
  "open_requests (es @ logged lg lvl msg) n = open_requests es n" "open_requests (es @ [StopSignals]) n = open_requests es n"
  "open_requests (es @ [ShuttingDown]) n = open_requests es n"
  "open_requests (es @ [Logged lg lvl msg]) n = open_requests es n"
  "open_requests (es @ [RequestStarted]) (Suc n) = open_requests es n"
  by (auto simp: open_requests_def logged_def)

lemma open_requests_finish: "open_requests es n \<Longrightarrow> 0 < n \<Longrightarrow> open_requests (es @ [RequestFinished]) (n - 1)"
  by (simp add: open_requests_def)

text \<open>Drained with nothing open, and \<open>ds\<close> of the closing events ds.\<close>

definition drained_then :: "event list \<Rightarrow> event list \<Rightarrow> bool" where
  "drained_then es ds \<longleftrightarrow> (\<exists>xs. es = xs @ Drained # ds \<and> unflushed xs \<and> open_requests xs 0)"

lemma drained_then_snoc: "drained_then es ds \<Longrightarrow> drained_then (es @ [e]) (ds @ [e])"
  by (auto simp: drained_then_def)

definition process_ok :: "(signal \<Rightarrow> error option) \<Rightarrow> Providers \<Rightarrow> process \<Rightarrow> bool" where
  "process_ok fails pv p \<longleftrightarrow> (let es = by_main (pr_events p) in case pr_pc p of
     AtSignal \<Rightarrow> pr_notify p \<and> unflushed es \<and> open_requests es (pr_inflight p)
   | AtStopped \<Rightarrow> unflushed es \<and> open_requests es (pr_inflight p)
   | AtShutdown \<Rightarrow> unflushed es \<and> open_requests es (pr_inflight p)
   | AtDrain \<Rightarrow> \<not> pr_accepting p \<and> unflushed es \<and> open_requests es (pr_inflight p)
   | Closing rest \<Rightarrow> \<not> pr_accepting p \<and> pr_inflight p = 0
       \<and> (\<exists>ds. closing_events fails pv = ds @ rest \<and> drained_then es ds)
   | AtExit n \<Rightarrow> n = 1 \<and> unflushed es
   | Exited st \<Rightarrow> if st = Status 0 then drained_then es (closing_events fails pv)
       else unflushed es \<or> (\<exists>ds rest. closing_events fails pv = ds @ rest \<and> drained_then es ds))"

lemma process_ok_step:
  assumes "main_step fails pv p q" "process_ok fails pv p"
  shows "process_ok fails pv q"
  using assms
proof (cases rule: main_step.cases)
  case (finish)
  then show ?thesis using assms(2) open_requests_finish
    by (auto simp: process_ok_def alive_def Let_def split: pc.splits)
next
  case (close e es)
  then obtain ds where d: "closing_events fails pv = ds @ e # es" "drained_then (by_main (pr_events p)) ds"
      "\<not> pr_accepting p" "pr_inflight p = 0"
    using assms(2) by (auto simp: process_ok_def Let_def)
  then have "\<nexists>lg. e = Logged lg LevelError ''server error''"
    using closing_unfiltered [of e fails pv] by auto
  then show ?thesis using close d drained_then_snoc [OF d(2), of e]
    by (auto simp: process_ok_def Let_def intro!: exI [of _ "ds @ [e]"])
qed (auto simp: process_ok_def alive_def Let_def drained_then_def logged_def split: pc.splits)

lemma process_ok_steps:
  assumes "(main_step fails pv)\<^sup>*\<^sup>* p q" "process_ok fails pv p"
  shows "process_ok fails pv q"
  using assms by (induction rule: rtranclp_induct) (auto intro: process_ok_step)

section \<open>Stopping\<close>

text \<open>From the first state of the server.\<close>

lemma startup_quiet:
  assumes "main_start X version cfg boot0 = (Running pv, b)"
  shows "process_ok fails pv (listening b signalled)"
proof -
  have "unflushed (startup_events cfg pv) \<and> RequestStarted \<notin> set (startup_events cfg pv)
      \<and> RequestFinished \<notin> set (startup_events cfg pv)"
    by (auto simp: startup_events_def registered_def logged_def split: option.splits)
  then have "unflushed (by_main (startup_events cfg pv))" "open_requests (by_main (startup_events cfg pv)) 0"
    by (auto simp: unflushed_def by_main_def open_requests_def count_list_0_iff)
  then show ?thesis
    using main_start_Running(3) [OF assms] by (simp add: process_ok_def listening_def)
qed

lemma finish_all:
  "running p \<Longrightarrow> \<exists>q. (main_step fails pv)\<^sup>*\<^sup>* p q \<and> pr_inflight q = 0 \<and> pr_pc q = pr_pc p"
proof (induction "pr_inflight p" arbitrary: p)
  case (Suc n)
  let ?q = "does [RequestFinished] (p\<lparr>pr_inflight := pr_inflight p - 1\<rparr>)"
  have step: "main_step fails pv p ?q" using finish [of p] Suc.hyps(2) Suc.prems by (simp add: running_def)
  have "running ?q" "n = pr_inflight ?q" using Suc.hyps(2) Suc.prems by (simp_all add: running_def alive_def)
  then obtain q where "(main_step fails pv)\<^sup>*\<^sup>* ?q q" "pr_inflight q = 0" "pr_pc q = pr_pc p"
    using Suc.hyps(1) [of ?q] by auto
  then show ?case using step by (meson converse_rtranclp_into_rtranclp)
qed auto

definition can_stop :: "(signal \<Rightarrow> error option) \<Rightarrow> Providers \<Rightarrow> process \<Rightarrow> bool" where
  "can_stop fails pv p \<longleftrightarrow> (\<exists>q. (main_step fails pv)\<^sup>*\<^sup>* p q \<and> pr_pc q = Exited (Status 0))"

lemma can_stop_later: "(main_step fails pv)\<^sup>*\<^sup>* p q \<Longrightarrow> can_stop fails pv q \<Longrightarrow> can_stop fails pv p"
  unfolding can_stop_def using rtranclp_trans by metis

lemma can_stop_step: "main_step fails pv p q \<Longrightarrow> can_stop fails pv q \<Longrightarrow> can_stop fails pv p"
  using can_stop_later r_into_rtranclp by metis

text \<open>The way out from each point of \<open>main\<close>.\<close>

lemma can_stop_closing: "pr_pc p = Closing es \<Longrightarrow> can_stop fails pv p"
proof (induction es arbitrary: p)
  case Nil
  have "main_step fails pv p (p\<lparr>pr_pc := Exited (Status 0)\<rparr>)" using Nil by (rule returns)
  then show ?case unfolding can_stop_def by (intro exI conjI, rule r_into_rtranclp) simp_all
next
  case (Cons e es)
  show ?case by (rule can_stop_step [OF close [OF Cons.prems]]) (simp add: Cons.IH)
qed

lemma can_stop_drain:
  assumes "pr_pc p = AtDrain"
  shows "can_stop fails pv p"
proof -
  obtain q where q: "(main_step fails pv)\<^sup>*\<^sup>* p q" "pr_inflight q = 0" "pr_pc q = AtDrain"
    using finish_all [of p] assms by (auto simp: running_def alive_def)
  have "can_stop fails pv q"
    by (rule can_stop_step [OF drained [OF q(3,2)]]) (simp add: can_stop_closing)
  then show ?thesis using q(1) can_stop_later by blast
qed

lemma can_stop_shutdown: "pr_pc p = AtShutdown \<Longrightarrow> can_stop fails pv p"
  by (rule can_stop_step [OF shutdown]) (simp_all add: can_stop_drain)

lemma can_stop_stopped: "pr_pc p = AtStopped \<Longrightarrow> can_stop fails pv p"
  by (rule can_stop_step [OF announce]) (simp_all add: can_stop_shutdown)

lemma can_stop_signal:
  assumes "pr_pc p = AtSignal" "pr_notify p"
  shows "can_stop fails pv p"
proof -
  have "main_step fails pv p (p\<lparr>pr_ctx := True\<rparr>)" using signal_caught [of p] assms by (simp add: alive_def)
  then show ?thesis
    by (rule can_stop_step) (rule can_stop_step [OF wake], simp_all add: assms can_stop_stopped)
qed

section \<open>Properties\<close>


lemma demo_start:
  obtains b where "main_start demo_sdk ''dev'' demo_config boot0 = (Running demo_providers, b)"
  using main_start_all_ok [OF demo_sdk_ok, of "''dev''" demo_config] demo_level
  by (auto simp: demo_providers_def)

lemma demo_closing: "closing_events (\<lambda>_. None) demo_providers = [Flushed Traces, Flushed Metrics, Flushed Logs,
    Logged (pv_Log demo_providers) LevelInfo ''server stopped cleanly'', ClientClosed, StopSignals]"
  by (simp add: closing_events_def closing_def logged_def demo_providers_def providers_of_def Shutdown_def
      shutdown_of_def obs_config_def demo_level Let_def)



abbreviation demo_busy :: "boot \<Rightarrow> process" where
  "demo_busy b \<equiv> does [RequestStarted] ((listening b True)\<lparr>pr_inflight := 1\<rparr>)"

lemma demo_accepts: "main_step fails pv (listening b True) (demo_busy b)"
  using accept [of "listening b True"] by (simp add: listening_def alive_def)


text \<open>From the signal to the wait for the requests in flight.\<close>

lemma demo_shutdown:
  assumes "pr_pc p = AtSignal" "pr_ctx p"
  obtains q where "(main_step fails pv)\<^sup>*\<^sup>* p q" "pr_pc q = AtDrain" "pr_inflight q = pr_inflight p" "\<not> pr_notify q"
    "set (pr_events p) \<subseteq> set (pr_events q)"
proof -
  let ?p1 = "does [StopSignals] (p\<lparr>pr_pc := AtStopped, pr_notify := False\<rparr>)"
  let ?p2 = "does (logged (pv_Log pv) LevelInfo ''shutting down, draining in-flight requests'') (?p1\<lparr>pr_pc := AtShutdown\<rparr>)"
  let ?p3 = "does [ShuttingDown] (?p2\<lparr>pr_pc := AtDrain, pr_accepting := False\<rparr>)"
  have "main_step fails pv p ?p1" "main_step fails pv ?p1 ?p2" "main_step fails pv ?p2 ?p3"
    using wake [OF assms] announce [of ?p1] shutdown [of ?p2] by simp_all
  then have "(main_step fails pv)\<^sup>*\<^sup>* p ?p3" by (meson converse_rtranclp_into_rtranclp rtranclp.rtrancl_refl)
  then show ?thesis by (rule that [of ?p3]) auto
qed


text \<open>A second signal kills the process in the middle of the flush: the traces are out, metrics and logs are not.\<close>

lemma second_signal_cuts_flush:
  "\<exists>b p. main_start demo_sdk ''dev'' demo_config boot0 = (Running demo_providers, b)
     \<and> (main_step (\<lambda>_. None) demo_providers)\<^sup>*\<^sup>* (listening b True) p \<and> pr_pc p = Exited KilledBySignal
     \<and> Flushed Traces \<in> set (pr_events p) \<and> (\<exists>xs. by_main (pr_events p) = xs @ [Drained, Flushed Traces])"
proof -
  obtain b where b: "main_start demo_sdk ''dev'' demo_config boot0 = (Running demo_providers, b)" by (rule demo_start)
  let ?step = "main_step (\<lambda>_. None) demo_providers"
  obtain q where q: "?step\<^sup>*\<^sup>* (listening b True) q" "pr_pc q = AtDrain" "pr_inflight q = 0" "\<not> pr_notify q"
    by (rule demo_shutdown [of "listening b True"]) (simp_all add: listening_def)
  obtain rest where rest: "closing_events (\<lambda>_. None) demo_providers = Flushed Traces # rest" by (simp add: demo_closing)
  let ?q1 = "does [Drained] (q\<lparr>pr_pc := Closing (closing_events (\<lambda>_. None) demo_providers)\<rparr>)"
  let ?q2 = "does [Flushed Traces] (?q1\<lparr>pr_pc := Closing rest\<rparr>)"
  let ?q3 = "?q2\<lparr>pr_pc := Exited KilledBySignal\<rparr>"
  have "?step q ?q1" using drained [OF q(2,3)] .
  moreover have "?step ?q1 ?q2" using close [of ?q1 "Flushed Traces" rest] rest by simp
  moreover have "?step ?q2 ?q3" using signal_kills [of ?q2] q(4) by (simp add: alive_def)
  ultimately have "?step\<^sup>*\<^sup>* (listening b True) ?q3"
    using q(1) by (meson rtranclp_trans converse_rtranclp_into_rtranclp rtranclp.rtrancl_refl)
  then show ?thesis using b by (intro exI [of _ b] exI [of _ ?q3]) simp
qed

end
