(* ===== verification/WellFormed.thy ===== *)
theory WellFormed
  imports Demo
begin

text \<open>
  What holds of every filter value of the program, with any store and without assuming anything of it: the
  stages are numbered from zero, and the name and the parameters never change.
\<close>

definition well_formed :: "string \<Rightarrow> bloom \<Rightarrow> bool" where
  "well_formed name f \<longleftrightarrow> f_name f = name \<and> name \<noteq> []
     \<and> (\<forall>j < length (f_stages f). st_index (f_stages f ! j) = int j)"

definition same_parameters :: "bloom \<Rightarrow> bloom \<Rightarrow> bool" where
  "same_parameters f g \<longleftrightarrow> f_n g = f_n f \<and> f_p g = f_p f \<and> f_r g = f_r f \<and> f_s g = f_s f"

lemma load_stage_index: "load_stage B name i s = (Ok st, t) \<Longrightarrow> st_index st = i"
  by (auto simp: load_stage_def dest!: mapToStage_index elim!: bindC_OkE split: if_splits)

lemma load_loop_index:
  "load_loop B name i c s = (Ok sts, t) \<Longrightarrow>
     length sts = c \<and> (\<forall>j < c. st_index (sts ! j) = int (i + j))"
proof (induction c arbitrary: i s sts)
  case (Suc c)
  then obtain st u rest where st: "load_stage B name (int i) s = (Ok st, u)"
      "load_loop B name (Suc i) c u = (Ok rest, t)" "sts = st # rest"
    by (auto elim!: bindC_OkE)
  have "st_index (sts ! j) = int (i + j)" if "j < Suc c" for j
    using Suc.IH [OF st(2)] load_stage_index [OF st(1)] st(3) that by (cases j) auto
  then show ?case using Suc.IH [OF st(2)] st(3) by simp
qed simp

lemma Load_well_formed: "Load P B name s = (Ok f, t) \<Longrightarrow> well_formed name f"
  by (auto simp: Load_def well_formed_def dest!: load_loop_index elim!: bindC_OkE split: if_splits)

lemma computeStage_index: "computeStage P n p r s i = Ok st \<Longrightarrow> st_index st = i"
  by (auto simp: computeStage_def bindR_Ok_iff)

lemma New_well_formed: "New P B now name n p s = (Ok f, t) \<Longrightarrow> well_formed name f"
  by (auto simp: New_def well_formed_def dest!: computeStage_index elim!: bindC_OkE split: if_splits)

text \<open>A method with a pointer receiver leaves a well-formed filter, also when it fails.\<close>

lemma same_parameters_refl [simp]: "same_parameters f f"
  by (simp add: same_parameters_def)

lemma well_formed_stages:
  assumes "well_formed name f" "map st_index sts = map st_index (f_stages f)"
  shows "well_formed name (f\<lparr>f_stages := sts\<rparr>)"
proof -
  have "length sts = length (f_stages f)" using assms(2) by (metis length_map)
  then show ?thesis using assms by (auto simp: well_formed_def) (metis nth_map)
qed

lemma reload_keeps: "reload P B (f, s) = (r, (g, t)) \<Longrightarrow> well_formed (f_name f) f \<Longrightarrow>
    well_formed (f_name f) g \<and> same_parameters f g"
  by (auto simp: reload_def well_formed_def same_parameters_def eq_commute [of "Ok _" "wrapR _ _"]
      dest!: Load_well_formed elim!: bindC_cases wrapC_cases onStore_cases)

lemma appendNewStage_keeps:
  assumes "appendNewStage P B (f, s) = (r, (g, t))" "well_formed (f_name f) f"
  shows "well_formed (f_name f) g \<and> same_parameters f g"
  using assms reload_keeps [of P B f _ r g t]
  by (auto simp: appendNewStage_def Let_def well_formed_def same_parameters_def nth_append less_Suc_eq
      dest!: computeStage_index elim!: bindC_cases wrapC_cases onStore_cases split: if_splits)

lemma Add_keeps:
  assumes "Add P B ord item (f, s) = (r, (g, t))" "well_formed (f_name f) f"
  shows "well_formed (f_name f) g \<and> same_parameters f g"
proof (cases "f_stages f")
  case Nil
  then show ?thesis using assms by (auto simp: Add_def bindC_def)
next
  case (Cons st0 sts)
  let ?cur = "last (f_stages f)"
  obtain h1 h2 where h: "hashParts P item = (h1, h2)" by fastforce
  have "map st_index (butlast (f_stages f) @ [?cur\<lparr>st_fill := n\<rparr>]) = map st_index (f_stages f)" for n
  proof -
    have "map st_index (butlast (f_stages f) @ [?cur\<lparr>st_fill := n\<rparr>])
        = map st_index (butlast (f_stages f) @ [?cur])" by (simp only: map_append) simp
    then show ?thesis using Cons by (metis append_butlast_last_id list.distinct(1))
  qed
  then have wf: "well_formed (f_name f) (f\<lparr>f_stages := butlast (f_stages f) @ [?cur\<lparr>st_fill := n\<rparr>]\<rparr>)" for n
    using well_formed_stages [OF assms(2)] by blast
  have later: "well_formed (f_name f) g \<and> same_parameters f g"
    if "appendNewStage P B (f\<lparr>f_stages := butlast (f_stages f) @ [?cur\<lparr>st_fill := n\<rparr>]\<rparr>, u) = (r, (g, t))" for n u
    using appendNewStage_keeps [OF that] wf [of n] by (simp add: same_parameters_def)
  show ?thesis using assms Cons wf later
    by (auto simp: Add_def h Let_def same_parameters_def elim!: bindC_cases wrapC_cases onStore_cases split: if_splits)
qed

section \<open>Property\<close>

text \<open>
  Insertions through one filter value; before each of them the store may have become any other.
\<close>

fun add_all :: "platform \<Rightarrow> 's bitstore \<Rightarrow> (shard_order \<times> bytes \<times> 's) list \<Rightarrow> bloom \<Rightarrow> bloom" where
  "add_all P B [] f = f"
| "add_all P B ((ord, item, s) # steps) f = add_all P B steps (fst (snd (Add P B ord item (f, s))))"

text \<open>
  C22 Filter values stay well formed. With any store whatsoever, \<open>New\<close> and \<open>Load\<close> return a filter with the
  name that was asked for, not empty, whose stages are numbered from zero; any number of insertions through
  it, failed ones and ones that reload it included, leave it so and never change its parameters.
\<close>

theorem filters_stay_well_formed:
  assumes "New P B now name n p s = (Ok f, t) \<or> Load P B name s = (Ok f, t)"
  shows "well_formed name (add_all P B steps f) \<and> same_parameters f (add_all P B steps f)"
proof -
  have "well_formed name (add_all P B steps g) \<and> same_parameters f (add_all P B steps g)"
    if "well_formed name g" "same_parameters f g" for g
    using that
  proof (induction steps arbitrary: g)
    case (Cons step steps)
    obtain ord item s where step: "step = (ord, item, s)" by (metis surj_pair)
    obtain r h u where add: "Add P B ord item (g, s) = (r, (h, u))" by (metis surj_pair)
    have "well_formed (f_name g) g" "f_name g = name" using Cons.prems(1) by (auto simp: well_formed_def)
    then have "well_formed name h" "same_parameters f h"
      using Add_keeps [OF add] Cons.prems(2) by (auto simp: same_parameters_def)
    then show ?case using Cons.IH step add by simp
  qed simp
  moreover have "well_formed name f" using assms by (auto dest: New_well_formed Load_well_formed)
  ultimately show ?thesis by simp
qed

theorem filters_stay_well_formed_witness:
  "well_formed ''f'' (add_all demo (memStore id) [(id, item_a, demo_created), (id, item_b, NewMemStore)] demo_handle)"
proof -
  obtain t where "New demo (memStore id) ''now'' ''f'' 1 demo_p NewMemStore = (Ok demo_handle, t)"
    using demo_new by (metis prod.collapse)
  from filters_stay_well_formed [OF disjI1 [OF this]] show ?thesis by blast
qed

end
