(* ===== verification/FloatError.thy ===== *)
theory FloatError
  imports Sizing Complex_Main
begin

text \<open>
  How far the floats of the program are from the reals they stand for: every operation rounds its exact
  result, with a relative error of at most \<open>2^-53\<close> unless the result is subnormal or overflows.
\<close>

section \<open>The value of a float\<close>

primrec rval :: "f64 \<Rightarrow> real" where
  "rval (Fin m e) = of_int m * 2 powi e"
| "rval (Inf s) = 0"
| "rval NaN = 0"

lemma pow2_pos [simp]: "0 < pow2 k" "pow2 k \<noteq> 0" "0 \<le> pow2 k"
  by (simp_all add: pow2_def)

lemma pow2_ratio: "real_of_int (pow2 k) / real_of_int (pow2 (- k)) = 2 powi k"
  by (simp add: pow2_def power_int_def field_simps)

lemma pow2_shift: "real_of_int (a * pow2 (- k)) / real_of_int (b * pow2 k) = real_of_int a / real_of_int b * 2 powi (- k)"
  using pow2_ratio [of "- k"] by (simp add: field_simps)

lemma bitlen_bounds: "0 < n \<Longrightarrow> 0 < bitlen n \<and> 2 powi (bitlen n - 1) \<le> real_of_int n \<and> real_of_int n < 2 powi bitlen n"
proof (induction n rule: bitlen.induct)
  case (1 n)
  show ?case
  proof (cases "n = 1")
    case True
    then show ?thesis by (simp add: bitlen.simps [of 1] bitlen.simps [of 0])
  next
    case False
    let ?b = "bitlen (n div 2)"
    have n: "\<not> n \<le> 0" "0 < n div 2" using 1(2) False by auto
    have IH: "0 < ?b" "2 powi (?b - 1) \<le> real_of_int (n div 2)" "real_of_int (n div 2) < 2 powi ?b"
      using 1(1) [OF n] by blast+
    have "real_of_int (n div 2) \<le> of_int n / 2" "of_int n / 2 \<le> real_of_int (n div 2) + 1 / 2"
      by linarith+
    moreover have "real_of_int (n div 2) + 1 \<le> 2 powi ?b"
    proof -
      have b: "2 powi ?b = real_of_int (2 ^ nat ?b)" using IH(1) by (simp add: power_int_def)
      have "n div 2 < 2 ^ nat ?b" using IH(3) unfolding b of_int_less_iff .
      then have "n div 2 + 1 \<le> 2 ^ nat ?b" by simp
      then have "real_of_int (n div 2 + 1) \<le> real_of_int (2 ^ nat ?b)" unfolding of_int_le_iff .
      then show ?thesis unfolding b by simp
    qed
    moreover have "2 powi ?b = 2 * (2 powi (?b - 1) :: real)" by (simp add: power_int_diff)
    moreover have "2 powi (1 + ?b) = 2 * (2 powi ?b :: real)" by (simp add: power_int_add)
    moreover have "bitlen n = 1 + ?b" using n by (simp add: bitlen.simps [of n])
    ultimately show ?thesis using IH by (simp)
  qed
qed

section \<open>Rounding\<close>

lemma round_even_error:
  assumes "0 < b"
  shows "\<bar>real_of_int (round_even a b) - of_int a / of_int b\<bar> \<le> 1 / 2"
proof -
  define q r where "q = a div b" and "r = a mod b"
  define t where "t = real_of_int r / of_int b"
  have "a = b * q + r" "0 \<le> r" "r < b" using assms by (simp_all add: q_def r_def)
  then have "of_int a / of_int b = real_of_int q + t" "0 \<le> t" "t \<le> 1"
    using assms by (simp_all add: t_def field_simps)
  moreover have "2 * r \<le> b \<Longrightarrow> t \<le> 1 / 2" "b \<le> 2 * r \<Longrightarrow> 1 / 2 \<le> t"
    using assms by (simp_all add: t_def field_simps)
  ultimately have "\<bar>real_of_int (if 2 * r < b \<or> 2 * r = b \<and> even q then q else q + 1) - of_int a / of_int b\<bar> \<le> 1 / 2"
    by (cases "2 * r \<le> b"; cases "2 * r = b") auto
  then show ?thesis by (simp add: round_even_def Let_def flip: q_def r_def)
qed

lemma scale_of_bounds:
  assumes "0 < a" "0 < b"
  defines "x \<equiv> real_of_int a / of_int b" and "e \<equiv> scale_of a b"
  shows "- 1074 \<le> e" "x < 2 powi (e + 53)" "e = - 1074 \<or> 2 powi (e + 52) \<le> x"
proof -
  define k where "k = bitlen a - bitlen b - 53"
  define j where "j = (if 2 ^ 53 * (b * pow2 k) \<le> a * pow2 (- k) then k + 1 else k)"
  have e: "e = max (- 1074) j" by (simp add: e_def j_def k_def scale_of_def Let_def)
  have ab: "2 powi (bitlen a - 1) \<le> real_of_int a" "real_of_int a < 2 powi bitlen a"
      "2 powi (bitlen b - 1) \<le> real_of_int b" "real_of_int b < 2 powi bitlen b"
    using bitlen_bounds assms(1,2) by auto
  have b: "0 < real_of_int b" using assms(2) by simp
  have x: "0 \<le> x" "x * of_int b = of_int a" using b assms(1) by (simp_all add: x_def)
  have "x * of_int b \<le> x * 2 powi bitlen b" using ab(4) x(1) by (intro mult_left_mono) auto
  then have "2 powi (bitlen a - 1) \<le> x * 2 powi bitlen b" using ab(1) x(2) by linarith
  then have lo: "2 powi (k + 52) \<le> x" by (simp add: k_def power_int_diff power_int_add field_simps)
  have "x * 2 powi (bitlen b - 1) \<le> x * of_int b" using ab(3) x(1) by (intro mult_left_mono) auto
  then have "x * 2 powi (bitlen b - 1) < 2 powi bitlen a" using ab(2) x(2) by linarith
  then have hi: "x < 2 powi (k + 54)" by (simp add: k_def power_int_diff power_int_add field_simps)
  have test: "2 ^ 53 * (b * pow2 k) \<le> a * pow2 (- k) \<longleftrightarrow> 2 powi (k + 53) \<le> x"
  proof -
    have "2 ^ 53 * (b * pow2 k) \<le> a * pow2 (- k) \<longleftrightarrow> real_of_int (2 ^ 53 * (b * pow2 k)) \<le> real_of_int (a * pow2 (- k))"
      by (simp only: of_int_le_iff)
    also have "\<dots> \<longleftrightarrow> 2 ^ 53 \<le> real_of_int (a * pow2 (- k)) / real_of_int (b * pow2 k)"
      using b by (simp add: field_simps)
    also have "\<dots> \<longleftrightarrow> 2 ^ 53 \<le> x * 2 powi (- k)" unfolding pow2_shift x_def ..
    also have "\<dots> \<longleftrightarrow> 2 powi (k + 53) \<le> x" by (simp add: power_int_minus power_int_add field_simps)
    finally show ?thesis .
  qed
  have j: "x < 2 powi (j + 53)" "2 powi (j + 52) \<le> x"
    using lo hi test by (auto simp: j_def add.commute)
  show "- 1074 \<le> e" by (simp add: e)
  show "x < 2 powi (e + 53)"
  proof -
    have "(2 powi (j + 53) :: real) \<le> 2 powi (e + 53)" by (rule power_int_increasing) (auto simp: e)
    then show ?thesis using j(1) by linarith
  qed
  show "e = - 1074 \<or> 2 powi (e + 52) \<le> x" using j(2) by (auto simp: e max_def)
qed

text \<open>The rounded mantissa at the scale of the quotient.\<close>

definition mant :: "int \<Rightarrow> int \<Rightarrow> int" where
  "mant a b = (let e = scale_of \<bar>a\<bar> b in round_even (a * pow2 (- e)) (b * pow2 e))"

lemma mant_bounds:
  assumes "a \<noteq> 0" "0 < b"
  defines "e \<equiv> scale_of \<bar>a\<bar> b" and "x \<equiv> real_of_int a / of_int b"
  obtains y where "x = y * 2 powi e" "\<bar>of_int (mant a b) - y\<bar> \<le> 1 / 2" "\<bar>y\<bar> < 2 ^ 53" "- 1074 \<le> e"
    "e = - 1074 \<or> 2 ^ 52 \<le> \<bar>y\<bar>"
proof
  let ?y = "x * 2 powi (- e)"
  have ax: "real_of_int \<bar>a\<bar> / of_int b = \<bar>x\<bar>" using assms(2) by (simp add: abs_div x_def)
  note sc = scale_of_bounds [of "\<bar>a\<bar>" b, unfolded ax, folded e_def]
  have e: "- 1074 \<le> e" "\<bar>x\<bar> < 2 powi (e + 53)" "e = - 1074 \<or> 2 powi (e + 52) \<le> \<bar>x\<bar>"
    using sc assms(1,2) by simp_all
  show x: "x = ?y * 2 powi e" by (simp add: power_int_minus)
  have "\<bar>x\<bar> = \<bar>?y\<bar> * 2 powi e" by (subst x) (simp add: abs_mult)
  then show "\<bar>?y\<bar> < 2 ^ 53" "- 1074 \<le> e" "e = - 1074 \<or> 2 ^ 52 \<le> \<bar>?y\<bar>"
    using e by (simp_all add: power_int_add)
  have "0 < b * pow2 e" using assms(2) by simp
  from round_even_error [OF this, of "a * pow2 (- e)"] show "\<bar>of_int (mant a b) - ?y\<bar> \<le> 1 / 2"
    unfolding pow2_shift mant_def Let_def x_def e_def .
qed

text \<open>A quotient that is not too big does not overflow.\<close>

lemma rnd_mant:
  assumes "a \<noteq> 0" "0 < b" "\<bar>real_of_int a / of_int b\<bar> \<le> 2 ^ 1023"
  shows "finite64 (rnd a b) \<and> rval (rnd a b) = of_int (mant a b) * 2 powi scale_of \<bar>a\<bar> b"
proof -
  let ?e = "scale_of \<bar>a\<bar> b" and ?q = "mant a b"
  obtain y where y: "real_of_int a / of_int b = y * 2 powi ?e" "\<bar>of_int ?q - y\<bar> \<le> 1 / 2"
      "?e = - 1074 \<or> 2 ^ 52 \<le> \<bar>y\<bar>"
    using mant_bounds [OF assms(1,2)] by metis
  have big: "\<bar>y\<bar> * 2 powi ?e \<le> 2 ^ 1023" using assms(3) unfolding y(1) by (simp add: abs_mult)
  have rn: "rnd a b = pack64 ?q ?e" using assms(1) by (simp add: rnd_def Let_def mant_def)
  show ?thesis
  proof (cases "\<bar>?q\<bar> = 2 ^ 53")
    case True
    have "?e + 1 \<le> 971"
    proof (rule ccontr)
      assume "\<not> ?e + 1 \<le> 971"
      then have "(2 powi 971 :: real) \<le> 2 powi ?e" by (intro power_int_increasing) auto
      moreover have "2 ^ 53 \<le> \<bar>real_of_int ?q\<bar>" using arg_cong [OF True, of real_of_int] by simp
      then have "2 ^ 53 - 1 / 2 \<le> \<bar>y\<bar>" using y(2) by linarith
      ultimately have "(2 ^ 53 - 1 / 2) * 2 powi 971 \<le> \<bar>y\<bar> * 2 powi ?e" by (intro mult_mono) auto
      then show False using big by simp
    qed
    then have "pack64 ?q ?e = Fin (sgn ?q * 2 ^ 52) (?e + 1)" using True by (simp add: pack64_def)
    moreover have "real_of_int (sgn ?q * 2 ^ 52) * 2 powi (?e + 1) = of_int (sgn ?q * \<bar>?q\<bar>) * 2 powi ?e"
      using True by (simp add: power_int_add)
    ultimately show ?thesis by (simp add: sgn_mult_abs rn)
  next
    case False
    have "?e \<le> 971"
    proof (rule ccontr)
      assume e: "\<not> ?e \<le> 971"
      then have "(2 powi 972 :: real) \<le> 2 powi ?e" by (intro power_int_increasing) auto
      moreover have "2 ^ 52 \<le> \<bar>y\<bar>" using y(3) e by linarith
      ultimately have "2 ^ 52 * 2 powi 972 \<le> \<bar>y\<bar> * 2 powi ?e" by (intro mult_mono) auto
      then show False using big by simp
    qed
    then show ?thesis using False by (simp add: pack64_def rn)
  qed
qed

lemma rnd_value:
  assumes "0 < b" "\<bar>real_of_int a / of_int b\<bar> \<le> 2 ^ 1023"
  shows "finite64 (rnd a b) \<and> (\<bar>rval (rnd a b) - of_int a / of_int b\<bar> \<le> 2 powi (- 1075)
    \<or> \<bar>rval (rnd a b) - of_int a / of_int b\<bar> \<le> \<bar>of_int a / of_int b\<bar> / 2 ^ 53)"
proof (cases "a = 0")
  case False
  let ?e = "scale_of \<bar>a\<bar> b" and ?q = "mant a b" and ?x = "real_of_int a / of_int b"
  obtain y where y: "?x = y * 2 powi ?e" "\<bar>of_int ?q - y\<bar> \<le> 1 / 2" "?e = - 1074 \<or> 2 ^ 52 \<le> \<bar>y\<bar>"
    using mant_bounds [OF False assms(1)] by metis
  have "\<bar>of_int ?q * 2 powi ?e - ?x\<bar> = \<bar>of_int ?q - y\<bar> * 2 powi ?e"
    unfolding y(1) by (simp add: abs_mult flip: left_diff_distrib)
  also have "\<dots> \<le> 1 / 2 * 2 powi ?e" using y(2) by (intro mult_right_mono) auto
  finally have err: "\<bar>of_int ?q * 2 powi ?e - ?x\<bar> \<le> 2 powi ?e / 2" by simp
  have "(2 powi ?e :: real) / 2 = 2 powi (- 1075) \<or> 2 powi ?e / 2 \<le> \<bar>?x\<bar> / 2 ^ 53"
  proof (cases "?e = - 1074")
    case True
    have "(2 powi (- 1075) :: real) = 2 powi (- 1074) / 2" using power_int_diff [of "2 :: real" "- 1074" 1] by simp
    then show ?thesis using True by simp
  next
    case e: False
    have "2 ^ 52 * 2 powi ?e \<le> \<bar>y\<bar> * 2 powi ?e" using y(3) e by (intro mult_right_mono) auto
    then show ?thesis unfolding y(1) by (simp add: abs_mult)
  qed
  then show ?thesis using rnd_mant [OF False assms] err by auto
qed (simp add: rnd_def)

section \<open>Operations\<close>

text \<open>\<open>rel d x z\<close>: the float \<open>x\<close> is the real \<open>z\<close> up to a relative error of \<open>d\<close>.\<close>

definition rel :: "real \<Rightarrow> f64 \<Rightarrow> real \<Rightarrow> bool" where
  "rel d x z \<longleftrightarrow> finite64 x \<and> \<bar>rval x - z\<bar> \<le> d * \<bar>z\<bar>"

definition normal :: "real \<Rightarrow> bool" where
  "normal z \<longleftrightarrow> 2 powi (- 1022) \<le> \<bar>z\<bar> \<and> \<bar>z\<bar> \<le> 2 ^ 1023"

lemma relD:
  "rel d x z \<Longrightarrow> finite64 x" "rel d x z \<Longrightarrow> rval x \<le> z + d * \<bar>z\<bar>" "rel d x z \<Longrightarrow> z - d * \<bar>z\<bar> \<le> rval x"
  by (auto simp: rel_def abs_le_iff)

lemma rel_mono: "rel d x z \<Longrightarrow> d \<le> d' \<Longrightarrow> rel d' x z"
  using mult_right_mono [of d d' "\<bar>z\<bar>"] by (auto simp: rel_def)

lemma rel_exact: "finite64 x \<Longrightarrow> rval x = z \<Longrightarrow> 0 \<le> d \<Longrightarrow> rel d x z"
  by (simp add: rel_def)

lemma rnd_rel:
  assumes "0 < b" "normal (real_of_int a / of_int b)"
  shows "rel (1 / 2 ^ 53) (rnd a b) (of_int a / of_int b)"
proof -
  let ?z = "real_of_int a / of_int b"
  have "(2 powi (- 1075) :: real) = 2 powi (- 1022) / 2 ^ 53"
    using power_int_diff [of "2 :: real" "- 1022" 53] by simp
  also have "\<dots> \<le> \<bar>?z\<bar> / 2 ^ 53" using assms(2) unfolding normal_def by (intro divide_right_mono) auto
  finally show ?thesis
    using rnd_value [OF assms(1), of a] assms(2) unfolding normal_def rel_def by auto
qed

lemma rnd_dyadic_value: "real_of_int (m * pow2 e) / of_int (pow2 (- e)) = of_int m * 2 powi e"
  using pow2_ratio [of e] by (simp add: field_simps)

lemma rnd_dyadic_rel: "normal (of_int m * 2 powi e) \<Longrightarrow> rel (1 / 2 ^ 53) (rnd_dyadic m e) (of_int m * 2 powi e)"
  using rnd_rel [of "pow2 (- e)" "m * pow2 e"] by (simp add: rnd_dyadic_def rnd_dyadic_value del: of_int_mult)

lemma times_near:
  assumes "finite64 x" "finite64 y" "normal (rval x * rval y)"
  shows "rel (1 / 2 ^ 53) (x * y) (rval x * rval y)"
proof -
  obtain m d n e where xy: "x = Fin m d" "y = Fin n e" using assms(1,2) by (metis finite64.elims(2))
  have v: "rval x * rval y = of_int (m * n) * 2 powi (d + e)" by (simp add: xy power_int_add)
  show ?thesis using rnd_dyadic_rel [of "m * n" "d + e"] assms(3) unfolding v by (simp add: xy)
qed

lemma divide_near:
  assumes "finite64 x" "finite64 y" "rval y \<noteq> 0" "normal (rval x / rval y)"
  shows "rel (1 / 2 ^ 53) (x / y) (rval x / rval y)"
proof -
  obtain m d n e where xy: "x = Fin m d" "y = Fin n e" using assms(1,2) by (metis finite64.elims(2))
  have n: "n \<noteq> 0" using assms(3) by (auto simp: xy)
  have b: "0 < \<bar>n\<bar> * pow2 (- (d - e))" using n by simp
  have "real_of_int (m * sgn n * pow2 (d - e)) / of_int (\<bar>n\<bar> * pow2 (- (d - e))) = of_int (m * sgn n) / of_int \<bar>n\<bar> * 2 powi (d - e)"
    using pow2_ratio [of "d - e"] by (simp add: field_simps)
  also have "of_int (m * sgn n) / of_int \<bar>n\<bar> = real_of_int m / of_int n" by (cases "0 < n") (use n in auto)
  also have "\<dots> * 2 powi (d - e) = rval x / rval y" by (simp add: xy power_int_diff)
  finally show ?thesis using rnd_rel [OF b, of "m * sgn n * pow2 (d - e)"] assms(4) n by (simp add: xy)
qed

lemma uminus_val [simp]: "finite64 x \<Longrightarrow> finite64 (- x) \<and> rval (- x) = - rval x"
  by (cases x) simp_all

lemma less_val: "finite64 x \<Longrightarrow> finite64 y \<Longrightarrow> x < y \<longleftrightarrow> rval x < rval y"
  and less_eq_val: "finite64 x \<Longrightarrow> finite64 y \<Longrightarrow> x \<le> y \<longleftrightarrow> rval x \<le> rval y"
proof -
  assume "finite64 x" "finite64 y"
  then obtain m d n e where xy: "x = Fin m d" "y = Fin n e" by (metis finite64.elims(2))
  have p: "real_of_int (pow2 (d - e)) / of_int (pow2 (e - d)) = 2 powi d / 2 powi e"
    using pow2_ratio [of "d - e"] by (simp add: power_int_diff)
  have "x < y \<longleftrightarrow> real_of_int (m * pow2 (d - e)) < of_int (n * pow2 (e - d))"
    by (simp only: xy less_f64.simps of_int_less_iff)
  also have "\<dots> \<longleftrightarrow> of_int m * (real_of_int (pow2 (d - e)) / of_int (pow2 (e - d))) < of_int n" by (simp add: field_simps)
  also have "\<dots> \<longleftrightarrow> rval x < rval y" unfolding p by (simp add: xy field_simps)
  finally show "x < y \<longleftrightarrow> rval x < rval y" .
  have "x \<le> y \<longleftrightarrow> real_of_int (m * pow2 (d - e)) \<le> of_int (n * pow2 (e - d))"
    by (simp only: xy less_eq_f64.simps of_int_le_iff)
  also have "\<dots> \<longleftrightarrow> of_int m * (real_of_int (pow2 (d - e)) / of_int (pow2 (e - d))) \<le> of_int n" by (simp add: field_simps)
  also have "\<dots> \<longleftrightarrow> rval x \<le> rval y" unfolding p by (simp add: xy field_simps)
  finally show "x \<le> y \<longleftrightarrow> rval x \<le> rval y" .
qed

lemma f64_of_u64_rel:
  assumes "w \<noteq> 0"
  shows "rel (1 / 2 ^ 53) (f64_of_u64 w) (of_int (uint w))"
proof -
  have "uint w \<noteq> 0" using assms by (simp add: uint_0_iff)
  then have "0 < uint w" using uint_ge_0 [of w] by linarith
  then have "1 \<le> real_of_int (uint w)" by linarith
  moreover have "uint w < 2 ^ 64" using uint_bounded [of w] by simp
  then have "real_of_int (uint w) < real_of_int (2 ^ 64)" unfolding of_int_less_iff .
  then have "real_of_int (uint w) < 2 ^ 64" by simp
  moreover have "(2 powi (- 1022) :: real) \<le> 1" by (simp add: power_int_minus)
  ultimately have "normal (of_int (uint w))" by (simp add: normal_def)
  then show ?thesis using rnd_rel [of 1 "uint w"] by (simp add: f64_of_u64_def)
qed

text \<open>Relative errors add up.\<close>

lemma rel_step:
  assumes "rel (1 / 2 ^ 53) x y" "\<bar>y - z\<bar> \<le> d * \<bar>z\<bar>" "0 \<le> d" "d \<le> 1 / 2 ^ 20"
  shows "rel (d + 1 / 2 ^ 52) x z"
proof -
  have "\<bar>y\<bar> \<le> \<bar>z\<bar> + d * \<bar>z\<bar>" using assms(2) by linarith
  also have "\<dots> \<le> \<bar>z\<bar> + 1 * \<bar>z\<bar>" using assms(4) by (intro add_left_mono mult_right_mono) auto
  finally have "\<bar>y\<bar> / 2 ^ 53 \<le> \<bar>z\<bar> / 2 ^ 52" by simp
  then have "\<bar>rval x - y\<bar> \<le> \<bar>z\<bar> / 2 ^ 52" using assms(1) by (simp add: rel_def)
  then have "\<bar>rval x - z\<bar> \<le> d * \<bar>z\<bar> + \<bar>z\<bar> / 2 ^ 52" using assms(2) by linarith
  then show ?thesis using assms(1) by (simp add: rel_def algebra_simps)
qed

text \<open>What is within half of a quantity of the middle range is normal.\<close>

lemma normal_close:
  assumes "\<bar>y - z\<bar> \<le> d * \<bar>z\<bar>" "d \<le> 1 / 2" "2 powi (- 1021) \<le> \<bar>z\<bar>" "\<bar>z\<bar> \<le> 2 ^ 1022"
  shows "normal y"
proof -
  have "d * \<bar>z\<bar> \<le> 1 / 2 * \<bar>z\<bar>" using assms(2) by (intro mult_right_mono) auto
  then have y: "\<bar>z\<bar> / 2 \<le> \<bar>y\<bar>" "\<bar>y\<bar> \<le> 2 * \<bar>z\<bar>" using assms(1) by linarith+
  have "(2 powi (- 1021) :: real) / 2 = 2 powi (- 1022)" using power_int_diff [of "2 :: real" "- 1021" 1] by simp
  then have "2 powi (- 1022) \<le> \<bar>y\<bar>" using y(1) assms(3) by linarith
  moreover have "2 * (2 :: real) ^ 1022 = 2 ^ 1023" by (simp only: power_Suc [symmetric] eval_nat_numeral)
  then have "\<bar>y\<bar> \<le> 2 ^ 1023" using y(2) assms(4) by linarith
  ultimately show ?thesis by (simp add: normal_def)
qed

lemma times_rel:
  assumes "rel a x z" "rel b y w" "0 \<le> a" "a \<le> 1 / 2 ^ 40" "0 \<le> b" "b \<le> 1 / 2 ^ 40"
    and "2 powi (- 1021) \<le> \<bar>z * w\<bar>" "\<bar>z * w\<bar> \<le> 2 ^ 1022"
  shows "rel (a + b + 1 / 2 ^ 51) (x * y) (z * w)"
proof -
  let ?p = "rval x * rval y" and ?d = "a + b + 1 / 2 ^ 80"
  have xz: "\<bar>rval x - z\<bar> \<le> a * \<bar>z\<bar>" and yw: "\<bar>rval y - w\<bar> \<le> b * \<bar>w\<bar>" and fin: "finite64 x" "finite64 y"
    using assms(1,2) by (auto simp: rel_def)
  have "?p - z * w = (rval x - z) * w + z * (rval y - w) + (rval x - z) * (rval y - w)" by (simp add: algebra_simps)
  then have "\<bar>?p - z * w\<bar> \<le> \<bar>rval x - z\<bar> * \<bar>w\<bar> + \<bar>z\<bar> * \<bar>rval y - w\<bar> + \<bar>rval x - z\<bar> * \<bar>rval y - w\<bar>"
    by (simp flip: abs_mult)
  also have "\<dots> \<le> (a * \<bar>z\<bar>) * \<bar>w\<bar> + \<bar>z\<bar> * (b * \<bar>w\<bar>) + (a * \<bar>z\<bar>) * (b * \<bar>w\<bar>)"
    using xz yw by (intro add_mono mult_mono) auto
  also have "\<dots> = (a + b + a * b) * \<bar>z * w\<bar>" by (simp add: algebra_simps abs_mult)
  also have "\<dots> \<le> ?d * \<bar>z * w\<bar>"
  proof -
    have "a * b \<le> 1 / 2 ^ 40 * (1 / 2 ^ 40)" using assms(3-6) by (intro mult_mono) auto
    then show ?thesis by (intro mult_right_mono) auto
  qed
  finally have err: "\<bar>?p - z * w\<bar> \<le> ?d * \<bar>z * w\<bar>" .
  have "?d \<le> 1 / 2" using assms(4,6) by simp
  from normal_close [OF err this] have "normal ?p" using assms(7,8) by blast
  from rel_step [OF times_near [OF fin this] err] show ?thesis using assms(3-6) by (auto elim!: rel_mono)
qed

lemma divide_rel:
  assumes "rel a x z" "rel b y w" "0 \<le> a" "a \<le> 1 / 2 ^ 40" "0 \<le> b" "b \<le> 1 / 2 ^ 40" "w \<noteq> 0"
    and "2 powi (- 1021) \<le> \<bar>z / w\<bar>" "\<bar>z / w\<bar> \<le> 2 ^ 1022"
  shows "rel (a + b + 1 / 2 ^ 51) (x / y) (z / w)"
proof -
  let ?p = "rval x / rval y" and ?d = "a + b + 1 / 2 ^ 60"
  have xz: "\<bar>rval x - z\<bar> \<le> a * \<bar>z\<bar>" and yw: "\<bar>rval y - w\<bar> \<le> b * \<bar>w\<bar>" and fin: "finite64 x" "finite64 y"
    using assms(1,2) by (auto simp: rel_def)
  have "b * \<bar>w\<bar> \<le> 1 / 2 ^ 40 * \<bar>w\<bar>" using assms(6) by (intro mult_right_mono) auto
  then have y: "(1 - 1 / 2 ^ 40) * \<bar>w\<bar> \<le> \<bar>rval y\<bar>" using yw by (simp add: algebra_simps)
  moreover have "0 < \<bar>w\<bar>" using assms(7) by simp
  ultimately have y0: "rval y \<noteq> 0" by auto
  have "?p - z / w = (rval x - z) / rval y + z * (w - rval y) / (rval y * w)" using y0 assms(7) by (simp add: field_simps)
  then have "\<bar>?p - z / w\<bar> \<le> \<bar>rval x - z\<bar> / \<bar>rval y\<bar> + \<bar>z\<bar> * \<bar>rval y - w\<bar> / (\<bar>rval y\<bar> * \<bar>w\<bar>)"
    using abs_triangle_ineq [of "(rval x - z) / rval y" "z * (w - rval y) / (rval y * w)"]
    by (simp add: abs_mult abs_minus_commute [of w])
  also have "\<dots> \<le> (a * \<bar>z\<bar>) / \<bar>rval y\<bar> + \<bar>z\<bar> * (b * \<bar>w\<bar>) / (\<bar>rval y\<bar> * \<bar>w\<bar>)"
    using xz yw by (intro add_mono divide_right_mono mult_left_mono) auto
  also have "\<dots> = (a + b) * \<bar>z\<bar> / \<bar>rval y\<bar>" using assms(7) by (simp add: distrib_right add_divide_distrib)
  also have "\<dots> \<le> (a + b) * \<bar>z\<bar> / ((1 - 1 / 2 ^ 40) * \<bar>w\<bar>)"
    using y assms(3,5,7) by (intro divide_left_mono) (auto intro!: mult_pos_pos y0)
  also have "\<dots> = ((a + b) / (1 - 1 / 2 ^ 40)) * \<bar>z / w\<bar>" by simp
  also have "\<dots> \<le> ?d * \<bar>z / w\<bar>" using assms(3-6) by (intro mult_right_mono) (auto simp: field_simps)
  finally have err: "\<bar>?p - z / w\<bar> \<le> ?d * \<bar>z / w\<bar>" .
  have "?d \<le> 1 / 2" using assms(4,6) by simp
  from normal_close [OF err this] have "normal ?p" using assms(8,9) by blast
  from rel_step [OF divide_near [OF fin y0 this] err] show ?thesis using assms(3-6) by (auto elim!: rel_mono)
qed

section \<open>Integers\<close>

lemma pow2_neg: "k \<le> 0 \<Longrightarrow> pow2 k = 1"
  by (simp add: pow2_def)

text \<open>Rounding an integer gives an integer.\<close>

lemma rnd_int:
  assumes "\<bar>real_of_int a\<bar> \<le> 2 ^ 1023"
  obtains i where "finite64 (rnd a 1)" "rval (rnd a 1) = of_int i" "\<bar>of_int i - real_of_int a\<bar> \<le> \<bar>real_of_int a\<bar> / 2 ^ 53"
proof (cases "a = 0")
  case False
  let ?e = "scale_of \<bar>a\<bar> 1"
  have v: "finite64 (rnd a 1)" "rval (rnd a 1) = of_int (mant a 1) * 2 powi ?e"
    using rnd_mant [OF False, of 1] assms by simp_all
  have "\<exists>i. rval (rnd a 1) = of_int i"
  proof (cases "0 \<le> ?e")
    case True
    then have "rval (rnd a 1) = of_int (mant a 1 * 2 ^ nat ?e)" unfolding v(2) by (simp add: power_int_def)
    then show ?thesis by blast
  next
    case e: False
    have "round_even x 1 = x" for x by (simp add: round_even_def Let_def)
    then have "mant a 1 = a * pow2 (- ?e)" using e by (simp add: mant_def Let_def pow2_neg)
    then have "rval (rnd a 1) = of_int a * (of_int (pow2 (- ?e)) / of_int (pow2 ?e) * 2 powi ?e)"
      using e unfolding v(2) by (simp add: pow2_neg)
    also have "of_int (pow2 (- ?e)) / of_int (pow2 ?e) * 2 powi ?e = (1 :: real)"
      using pow2_ratio [of "- ?e"] by (simp add: power_int_minus)
    finally show ?thesis by auto
  qed
  moreover have "1 \<le> \<bar>real_of_int a\<bar>" using False by linarith
  then have "normal (of_int a)" using assms by (simp add: normal_def power_int_minus)
  then have "\<bar>rval (rnd a 1) - of_int a\<bar> \<le> \<bar>real_of_int a\<bar> / 2 ^ 53"
    using rnd_rel [of 1 a] by (simp add: rel_def)
  ultimately show ?thesis using v(1) that by auto
qed (use that [of 0] in \<open>simp add: rnd_def\<close>)

text \<open>An integer that the mantissa can hold is exact.\<close>

lemma rnd_exact:
  assumes "0 < b" "real_of_int a / of_int b = of_int i" "\<bar>i\<bar> < 2 ^ 53"
  shows "finite64 (rnd a b) \<and> rval (rnd a b) = of_int i"
proof (cases "a = 0")
  case False
  let ?e = "scale_of \<bar>a\<bar> b"
  obtain y where y: "real_of_int a / of_int b = y * 2 powi ?e" "\<bar>of_int (mant a b) - y\<bar> \<le> 1 / 2"
      "?e = - 1074 \<or> 2 ^ 52 \<le> \<bar>y\<bar>"
    using mant_bounds [OF False assms(1)] by metis
  have "real_of_int \<bar>i\<bar> < real_of_int (2 ^ 53)" using assms(3) unfolding of_int_less_iff .
  then have i: "\<bar>real_of_int i\<bar> < 2 ^ 53" by simp
  have "?e \<le> 0"
  proof (rule ccontr)
    assume e: "\<not> ?e \<le> 0"
    then have "(2 powi 1 :: real) \<le> 2 powi ?e" by (intro power_int_increasing) auto
    then have "2 ^ 52 * 2 \<le> \<bar>y\<bar> * 2 powi ?e" using y(3) e by (intro mult_mono) auto
    then show False using i y(1) assms(2) by (simp add: abs_mult)
  qed
  then have "y = of_int (i * 2 ^ nat (- ?e))" using y(1) assms(2) by (simp add: power_int_def field_simps)
  then have "mant a b = i * 2 ^ nat (- ?e)" using y(2) by linarith
  moreover have "(2 :: real) ^ nat (- ?e) = 2 powi (- ?e)" using \<open>?e \<le> 0\<close> by (simp add: power_int_def)
  then have "(2 :: real) ^ nat (- ?e) * 2 powi ?e = 1" by (simp add: power_int_minus)
  moreover have "(2 :: real) ^ 53 \<le> 2 ^ 1023" by (rule power_increasing) auto
  then have "\<bar>real_of_int a / of_int b\<bar> \<le> 2 ^ 1023" using i assms(2) by simp
  ultimately show ?thesis using rnd_mant [OF False assms(1)] by (simp add: mult.assoc)
qed (use assms(2) in \<open>simp add: rnd_def\<close>)

lemma rnd_int_exact: "\<bar>a\<bar> < 2 ^ 53 \<Longrightarrow> finite64 (rnd a 1) \<and> rval (rnd a 1) = of_int a"
  using rnd_exact [of 1 a a] by simp

lemma times_exact:
  assumes "finite64 x" "finite64 y" "rval x * rval y = of_int i" "\<bar>i\<bar> < 2 ^ 53"
  shows "finite64 (x * y) \<and> rval (x * y) = of_int i"
proof -
  obtain m d n e where xy: "x = Fin m d" "y = Fin n e" using assms(1,2) by (metis finite64.elims(2))
  have v: "rval x * rval y = of_int (m * n) * 2 powi (d + e)" by (simp add: xy power_int_add)
  have "real_of_int (m * n * pow2 (d + e)) / of_int (pow2 (- (d + e))) = of_int i"
    unfolding rnd_dyadic_value using assms(3) v by simp
  from rnd_exact [OF _ this assms(4)] show ?thesis by (simp add: xy rnd_dyadic_def)
qed

lemma fin_nonneg: "0 \<le> rval (Fin m e) \<longleftrightarrow> 0 \<le> m"
proof -
  have "\<not> (2 powi e :: real) \<le> 0" by (simp add: not_le)
  then show ?thesis by (simp add: zero_le_mult_iff)
qed

lemma trunc64_floor:
  assumes "finite64 x" "0 \<le> rval x"
  shows "trunc64 x = \<lfloor>rval x\<rfloor>"
proof -
  obtain m e where x: "x = Fin m e" using assms(1) by (cases x) auto
  then have "0 \<le> m" using assms(2) fin_nonneg [of m e] by (simp del: rval.simps)
  then have "trunc64 x = (m * pow2 e) div pow2 (- e)" by (cases "m = 0") (simp_all add: x)
  also have "\<dots> = \<lfloor>real_of_int (m * pow2 e) / of_int (pow2 (- e))\<rfloor>" by (simp only: floor_divide_of_int_eq)
  finally show ?thesis unfolding rnd_dyadic_value by (simp add: x)
qed

text \<open>The mantissa over the power of two, when the exponent is negative.\<close>

lemma rval_neg: "e < 0 \<Longrightarrow> rval (Fin m e) = of_int m / of_int (pow2 (- e))"
  using rnd_dyadic_value [of m e] by (simp add: pow2_neg)

lemma rval_nonneg: "0 \<le> e \<Longrightarrow> rval (Fin m e) = of_int (m * 2 ^ nat e)"
  by (simp add: power_int_def)

lemma Ceil_value:
  assumes "finite64 x" "0 < rval x" "rval x \<le> 2 ^ 1022"
  obtains i where "finite64 (Ceil x)" "rval (Ceil x) = of_int i" "of_int i \<le> (rval x + 1) * (1 + 1 / 2 ^ 53)"
    "rval x * (1 - 1 / 2 ^ 53) \<le> of_int i"
proof -
  obtain m e where x: "x = Fin m e" using assms(1) by (cases x) auto
  let ?c = "\<lceil>rval x\<rceil>"
  have c: "rval x \<le> of_int ?c" "of_int ?c \<le> rval x + 1" "0 < ?c" using assms(2) by linarith+
  show thesis
  proof (cases "0 \<le> e")
    case True
    then show thesis using assms(1,2) rval_nonneg [OF True, of m] by (intro that [of "m * 2 ^ nat e"]) (auto simp: x algebra_simps)
  next
    case False
    have "?c = - ((- m) div pow2 (- e))" using rval_neg [of e m] False by (simp add: x ceiling_divide_eq_div)
    then have C: "Ceil x = rnd ?c 1" using False by (simp add: x)
    have "(1 :: real) \<le> 2 ^ 1022" by (rule one_le_power) simp
    moreover have "2 * (2 :: real) ^ 1022 = 2 ^ 1023" by (simp only: power_Suc [symmetric] eval_nat_numeral)
    ultimately have "\<bar>real_of_int ?c\<bar> \<le> 2 ^ 1023" using c assms(3) by linarith
    then obtain i where i: "finite64 (rnd ?c 1)" "rval (rnd ?c 1) = of_int i"
        "\<bar>of_int i - real_of_int ?c\<bar> \<le> \<bar>real_of_int ?c\<bar> / 2 ^ 53" by (rule rnd_int)
    have "of_int i \<le> real_of_int ?c * (1 + 1 / 2 ^ 53)" "real_of_int ?c * (1 - 1 / 2 ^ 53) \<le> of_int i"
    proof -
      have "\<bar>real_of_int ?c\<bar> = of_int ?c" using c(3) by simp
      then show "of_int i \<le> real_of_int ?c * (1 + 1 / 2 ^ 53)" "real_of_int ?c * (1 - 1 / 2 ^ 53) \<le> of_int i"
        using i(3) by (simp_all only: distrib_left right_diff_distrib mult_1_right times_divide_eq_right)
    qed
    moreover have "real_of_int ?c * (1 + 1 / 2 ^ 53) \<le> (rval x + 1) * (1 + 1 / 2 ^ 53)"
        "rval x * (1 - 1 / 2 ^ 53) \<le> real_of_int ?c * (1 - 1 / 2 ^ 53)"
      using c(1,2) by (intro mult_right_mono; simp)+
    ultimately show thesis using i(1,2) unfolding C [symmetric] by (intro that [of i]; linarith?) 
  qed
qed

lemma Round_value:
  assumes "finite64 x" "0 \<le> rval x" "rval x < 2 ^ 52"
  shows "finite64 (Round x) \<and> rval (Round x) = of_int \<lfloor>rval x + 1 / 2\<rfloor>"
proof -
  obtain m e where x: "x = Fin m e" using assms(1) by (cases x) auto
  have m: "0 \<le> m" using assms(2) fin_nonneg [of m e] by (simp add: x del: rval.simps)
  show ?thesis
  proof (cases "0 \<le> e")
    case True
    then have v: "rval x = of_int (m * 2 ^ nat e)" using rval_nonneg [OF True, of m] by (simp only: x)
    have "\<lfloor>real_of_int i + 1 / 2\<rfloor> = i" for i by (simp add: floor_unique)
    then have "\<lfloor>rval x + 1 / 2\<rfloor> = m * 2 ^ nat e" unfolding v .
    moreover have "Round x = x" using True by (simp add: x)
    ultimately show ?thesis using v assms(1) by simp
  next
    case False
    let ?P = "pow2 (- e)"
    have "\<lfloor>rval x + 1 / 2\<rfloor> = \<lfloor>real_of_int (2 * m + ?P) / of_int (2 * ?P)\<rfloor>"
    proof -
      have "rval x = of_int m / of_int ?P" using rval_neg [of e m] False by (simp only: x not_le)
      moreover have "real_of_int ?P \<noteq> 0" by simp
      ultimately have "rval x + 1 / 2 = real_of_int (2 * m + ?P) / of_int (2 * ?P)" by (simp add: field_simps)
      then show ?thesis by simp
    qed
    also have "\<dots> = (2 * m + ?P) div (2 * ?P)" by (simp only: floor_divide_of_int_eq)
    finally have f: "\<lfloor>rval x + 1 / 2\<rfloor> = (2 * m + ?P) div (2 * ?P)" .
    have R: "Round x = rnd \<lfloor>rval x + 1 / 2\<rfloor> 1"
    proof (cases "m = 0")
      case True
      then show ?thesis using False by (simp add: x)
    next
      case nz: False
      then show ?thesis unfolding f using False m by (simp add: x)
    qed
    have "\<bar>\<lfloor>rval x + 1 / 2\<rfloor>\<bar> < 2 ^ 53" using assms(2,3) by (simp add: abs_less_iff floor_less_iff le_floor_iff)
    from rnd_int_exact [OF this] show ?thesis by (simp add: R)
  qed
qed

end
