(* ===== verification/LnBounds.thy ===== *)
theory LnBounds
  imports Complex_Main
begin

text \<open>Bounds of the natural logarithm at rational points, from the series of \<open>ln ((1 + x) / (1 - x))\<close>.\<close>

definition ln_sum :: "nat \<Rightarrow> real \<Rightarrow> real" where
  "ln_sum n x = (\<Sum>k<n. 2 * x ^ (2 * k + 1) / real (2 * k + 1))"

lemma odd_power_deriv:
  "c \<noteq> 0 \<Longrightarrow> ((\<lambda>x. 2 * x ^ (2 * k + 1) / (real (2 * k + 1) * c)) has_real_derivative 2 * x ^ (2 * k) / c) (at x)"
  by (rule DERIV_cong, (rule derivative_intros | simp)+)

lemma ln_sum_deriv: "(ln_sum n has_real_derivative (\<Sum>k<n. 2 * x ^ (2 * k))) (at x)"
  unfolding ln_sum_def [abs_def] using odd_power_deriv [of 1] by (intro DERIV_sum) (simp only: mult_1_right div_by_1 zero_neq_one not_False_eq_True simp_thms one_neq_zero)

lemma geometric_sum: "\<bar>x\<bar> < 1 \<Longrightarrow> (\<Sum>k<n. 2 * x ^ (2 * k)) = 2 * (1 - x ^ (2 * n)) / (1 - x\<^sup>2)" for x :: real
proof -
  assume "\<bar>x\<bar> < 1"
  then have "1 - x\<^sup>2 \<noteq> 0" by (auto simp: power2_eq_1_iff)
  moreover have "(\<Sum>k<n. 2 * x ^ (2 * k)) * (1 - x\<^sup>2) = 2 * (1 - x ^ (2 * n))"
  proof (induction n)
    case (Suc n)
    have "(\<Sum>k<Suc n. 2 * x ^ (2 * k)) * (1 - x\<^sup>2) = (\<Sum>k<n. 2 * x ^ (2 * k)) * (1 - x\<^sup>2) + 2 * x ^ (2 * n) * (1 - x\<^sup>2)"
      by (simp add: distrib_right)
    also have "\<dots> = 2 * (1 - x ^ (2 * n)) + 2 * x ^ (2 * n) * (1 - x\<^sup>2)" by (simp only: Suc.IH)
    also have "\<dots> = 2 * (1 - x ^ (2 * Suc n))" by (simp add: algebra_simps power2_eq_square)
    finally show ?case .
  qed simp
  ultimately show ?thesis by (simp add: field_simps)
qed

lemma ln_ratio_deriv:
  "\<bar>x\<bar> < 1 \<Longrightarrow> ((\<lambda>x. ln (1 + x) - ln (1 - x)) has_real_derivative 2 / (1 - x\<^sup>2)) (at x)" for x :: real
  by (rule DERIV_cong, (rule derivative_intros | simp)+)
    (auto simp: abs_less_iff power2_eq_square field_simps power2_eq_1_iff)

lemma ln_ratio_lower:
  assumes "0 \<le> x" "x < 1"
  shows "ln_sum n x \<le> ln (1 + x) - ln (1 - x)"
proof -
  let ?f = "\<lambda>t. ln (1 + t) - ln (1 - t) - ln_sum n t"
  have "?f 0 \<le> ?f x"
  proof (rule DERIV_nonneg_imp_nondecreasing [OF assms(1)])
    fix t
    assume t: "0 \<le> t" "t \<le> x"
    then have "\<bar>t\<bar> < 1" using assms(2) by simp
    then have "(?f has_real_derivative 2 / (1 - t\<^sup>2) - 2 * (1 - t ^ (2 * n)) / (1 - t\<^sup>2)) (at t)"
      using ln_sum_deriv [of n t] by (simp only: geometric_sum) (intro DERIV_diff ln_ratio_deriv ln_sum_deriv)
    moreover have "t\<^sup>2 < 1" using t assms(2) by (simp add: abs_square_less_1)
    then have "0 \<le> 2 / (1 - t\<^sup>2) - 2 * (1 - t ^ (2 * n)) / (1 - t\<^sup>2)"
      by (simp add: right_diff_distrib diff_divide_distrib)
    ultimately show "\<exists>y. (?f has_real_derivative y) (at t) \<and> 0 \<le> y" by blast
  qed
  then show ?thesis by (simp add: ln_sum_def)
qed

lemma ln_ratio_upper:
  assumes "0 \<le> x" "x < 1"
  shows "ln (1 + x) - ln (1 - x) \<le> ln_sum n x + 2 * x ^ (2 * n + 1) / (real (2 * n + 1) * (1 - x\<^sup>2))"
proof -
  let ?f = "\<lambda>t. ln_sum n t + 2 * t ^ (2 * n + 1) / (real (2 * n + 1) * (1 - x\<^sup>2)) - (ln (1 + t) - ln (1 - t))"
  have x: "x\<^sup>2 < 1" using assms by (simp add: abs_square_less_1)
  have "?f 0 \<le> ?f x"
  proof (rule DERIV_nonneg_imp_nondecreasing [OF assms(1)])
    fix t
    assume t: "0 \<le> t" "t \<le> x"
    then have "\<bar>t\<bar> < 1" using assms(2) by simp
    moreover have "((\<lambda>t. 2 * t ^ (2 * n + 1) / (real (2 * n + 1) * (1 - x\<^sup>2))) has_real_derivative 2 * t ^ (2 * n) / (1 - x\<^sup>2)) (at t)"
      using x by (intro odd_power_deriv) simp
    ultimately have "(?f has_real_derivative 2 * (1 - t ^ (2 * n)) / (1 - t\<^sup>2) + 2 * t ^ (2 * n) / (1 - x\<^sup>2) - 2 / (1 - t\<^sup>2)) (at t)"
      using ln_sum_deriv [of n t] by (simp only: geometric_sum) (intro DERIV_diff DERIV_add ln_ratio_deriv ln_sum_deriv)
    moreover have tx: "t\<^sup>2 \<le> x\<^sup>2" using t by (simp add: power_mono)
    have "2 * t ^ (2 * n) / (1 - t\<^sup>2) \<le> 2 * t ^ (2 * n) / (1 - x\<^sup>2)"
    proof (intro divide_left_mono mult_pos_pos)
      show "0 < 1 - t\<^sup>2" using tx x by linarith
    qed (use t tx x in auto)
    then have "0 \<le> 2 * (1 - t ^ (2 * n)) / (1 - t\<^sup>2) + 2 * t ^ (2 * n) / (1 - x\<^sup>2) - 2 / (1 - t\<^sup>2)"
      by (simp add: right_diff_distrib diff_divide_distrib)
    ultimately show "\<exists>y. (?f has_real_derivative y) (at t) \<and> 0 \<le> y" by blast
  qed
  then show ?thesis by (simp add: ln_sum_def)
qed

text \<open>At a rational \<open>a / b > 1\<close>.\<close>

lemma ln_bounds:
  assumes "1 \<le> y" "x = (y - 1) / (y + 1)"
  shows "ln_sum n x \<le> ln y" "ln y \<le> ln_sum n x + 2 * x ^ (2 * n + 1) / (real (2 * n + 1) * (1 - x\<^sup>2))"
proof -
  have x: "0 \<le> x" "x < 1" using assms(1) unfolding assms(2) by (simp_all add: field_simps)
  have "1 + x = 2 * y / (y + 1)" "1 - x = 2 / (y + 1)" using assms(1) unfolding assms(2) by (simp_all add: field_simps)
  then have "ln (1 + x) - ln (1 - x) = ln y" using assms(1) by (simp add: ln_div ln_mult)
  then show "ln_sum n x \<le> ln y" "ln y \<le> ln_sum n x + 2 * x ^ (2 * n + 1) / (real (2 * n + 1) * (1 - x\<^sup>2))"
    using ln_ratio_lower [OF x] ln_ratio_upper [OF x] by simp_all
qed

lemma ln_2_bounds: "693147180559945309417 / 10 ^ 21 \<le> ln (2 :: real)" "ln (2 :: real) \<le> 693147180559945309418 / 10 ^ 21"
  using ln_bounds [of 2 "1 / 3" 22] by (simp_all add: ln_sum_def eval_nat_numeral)

end
