(* ===== verification/SizingLaws.thy ===== *)
theory SizingLaws
  imports FloatError LnBounds
begin

text \<open>
  The sizes of a stage are big enough: the arithmetic of \<open>OptimalM\<close> and \<open>OptimalK\<close> is compared with the
  real formulas, and those with the estimate of the false-positive rate that \<open>EstimatedFPP\<close> uses.
\<close>

section \<open>Constants\<close>

lemma rval_consts [simp]: "rval 0 = 0" "rval 1 = 1" "finite64 0" "finite64 1"
  by (simp_all add: zero_f64_def one_f64_def power_int_minus)

lemma ln2_rel: "rel (1 / 2 ^ 53) ln2 (ln 2)"
proof -
  have v: "ln2 = Fin 6243314768165359 (- 53)" by code_simp
  have "rval ln2 = 6243314768165359 / 2 ^ 53" by (simp add: v power_int_minus field_simps)
  then show ?thesis using ln_2_bounds by (simp add: rel_def v abs_le_iff)
qed

lemma ln2Squared_rel: "rel (1 / 2 ^ 53) ln2Squared ((ln 2)\<^sup>2)"
proof -
  have v: "ln2Squared = Fin 8655072057804175 (- 54)" by code_simp
  have "rval ln2Squared = 8655072057804175 / 2 ^ 54" by (simp add: v power_int_minus field_simps)
  moreover have "(693147180559945309417 / 10 ^ 21)\<^sup>2 \<le> (ln (2 :: real))\<^sup>2" "(ln (2 :: real))\<^sup>2 \<le> (693147180559945309418 / 10 ^ 21)\<^sup>2"
    using ln_2_bounds by (intro power_mono; simp)+
  ultimately show ?thesis by (simp add: rel_def v abs_le_iff power2_eq_square)
qed

lemma MaxUint64f_value: "finite64 MaxUint64f" "rval MaxUint64f = 2 ^ 64"
proof -
  have v: "MaxUint64f = Fin (2 ^ 52) 12" by code_simp
  show "finite64 MaxUint64f" "rval MaxUint64f = 2 ^ 64" by (simp_all add: v)
qed

lemma rel_uminus: "rel d x z \<Longrightarrow> rel d (- x) (- z)"
proof -
  assume r: "rel d x z"
  then have "rval (- x) = - rval x" "finite64 (- x)" by (simp_all add: rel_def)
  moreover have "\<bar>- rval x - - z\<bar> = \<bar>rval x - z\<bar>" by linarith
  ultimately show ?thesis using r by (simp add: rel_def)
qed

section \<open>The platform's logarithm\<close>

text \<open>\<open>math.Log\<close> is accurate to a unit in the last place: its implementations promise an error below one.\<close>

definition log_close :: "platform \<Rightarrow> f64 \<Rightarrow> bool" where
  "log_close P p \<longleftrightarrow> rel (1 / 2 ^ 52) (Log P p) (ln (rval p))"

text \<open>Error budgets of stages, and how big their logarithms are.\<close>

definition budget_ok :: "f64 \<Rightarrow> bool" where
  "budget_ok p \<longleftrightarrow> finite64 p \<and> 2 powi (- 1074) \<le> rval p \<and> rval p \<le> 1 / 9"

lemma two_powi_ge: "(0 :: real) < 2 powi e" "0 \<le> e \<Longrightarrow> (1 :: real) \<le> 2 powi e"
  by (simp_all add: power_int_def)

lemma ln_two_powi: "ln (2 powi k :: real) = of_int k * ln 2"
  by (cases "0 \<le> k") (simp_all add: power_int_def ln_realpow ln_div flip: divide_inverse power_one_over)

lemma budget_pos: "budget_ok p \<Longrightarrow> 0 < rval p"
  using two_powi_ge(1) [of "- 1074"] by (simp add: budget_ok_def)

text \<open>The smallest positive float is \<open>2^-1074\<close>.\<close>

lemma smallest_float:
  assumes "finite64 p" "f64_ok p" "0 < rval p"
  shows "2 powi (- 1074) \<le> rval p"
proof -
  obtain m e where p: "p = Fin m e" using assms(1) by (cases p) auto
  have "\<not> (2 powi e :: real) < 0" by (simp add: not_less)
  then have "0 < m" using assms(3) by (simp add: p zero_less_mult_iff)
  then have "1 * (2 powi (- 1074) :: real) \<le> of_int m * 2 powi e"
    using assms(2) by (intro mult_mono power_int_increasing) (auto simp: p)
  then show ?thesis by (simp add: p)
qed

lemma budget_ln:
  assumes "budget_ok p"
  shows "2 \<le> - ln (rval p)" "- ln (rval p) \<le> 745"
proof -
  have p: "0 < rval p" "rval p \<le> 1 / 9" "2 powi (- 1074) \<le> rval p"
    using assms budget_pos by (auto simp: budget_ok_def)
  have "ln (rval p) \<le> ln (1 / 9)" using p(1,2) by simp
  moreover have "ln (9 :: real) = 2 * ln 3" using ln_realpow [of 3 2] by simp
  moreover have "1 \<le> ln (3 :: real)" using ln_bounds(1) [of 3 "1 / 2" 3] by (simp add: ln_sum_def eval_nat_numeral)
  ultimately show "2 \<le> - ln (rval p)" by (simp add: ln_div)
  have "ln (2 powi (- 1074) :: real) \<le> ln (rval p)" using p(1,3) by (subst ln_le_cancel_iff) (rule two_powi_ge(1))
  then show "- ln (rval p) \<le> 745" using ln_two_powi [of "- 1074"] ln_2_bounds by simp
qed

section \<open>The number of bits\<close>

lemma ln2sq_bounds: "48 / 100 \<le> (ln (2 :: real))\<^sup>2" "(ln (2 :: real))\<^sup>2 \<le> 1 / 2"
proof -
  have "(6931 / 10000)\<^sup>2 \<le> (ln (2 :: real))\<^sup>2" "(ln (2 :: real))\<^sup>2 \<le> (6932 / 10000)\<^sup>2"
    using ln_2_bounds by (intro power_mono; simp)+
  then show "48 / 100 \<le> (ln (2 :: real))\<^sup>2" "(ln (2 :: real))\<^sup>2 \<le> 1 / 2" by (simp_all add: power2_eq_square)
qed

lemma uint_real:
  assumes "n \<noteq> 0"
  shows "1 \<le> real_of_int (uint n)"
proof -
  have "uint n \<noteq> 0" using assms by (simp add: uint_0_iff)
  then show ?thesis using uint_ge_0 [of n] by linarith
qed

lemma uint_le_real: "n \<le> 2 ^ 50 \<Longrightarrow> real_of_int (uint n) \<le> 2 ^ 50" for n :: u64
proof -
  assume "n \<le> 2 ^ 50"
  then have "uint n \<le> 2 ^ 50" by (simp add: word_le_def)
  then have "real_of_int (uint n) \<le> real_of_int (2 ^ 50)" unfolding of_int_le_iff .
  then show ?thesis by simp
qed

text \<open>Everything from \<open>1\<close> to \<open>2^70\<close> is in the normal range, with room.\<close>

lemma middle: "1 \<le> \<bar>z\<bar> \<Longrightarrow> 2 powi (- 1021) \<le> \<bar>z\<bar>" "\<bar>z\<bar> \<le> 2 ^ 70 \<Longrightarrow> \<bar>z\<bar> \<le> 2 ^ 1022" for z :: real
proof -
  have "(2 powi (- 1021) :: real) \<le> 1" by (simp add: power_int_minus)
  then show "1 \<le> \<bar>z\<bar> \<Longrightarrow> 2 powi (- 1021) \<le> \<bar>z\<bar>" by linarith
  have "(2 :: real) ^ 70 \<le> 2 ^ 1022" by (rule power_increasing) auto
  then show "\<bar>z\<bar> \<le> 2 ^ 70 \<Longrightarrow> \<bar>z\<bar> \<le> 2 ^ 1022" by linarith
qed

text \<open>The float that is rounded up, against \<open>- n * ln p / (ln 2)^2\<close>.\<close>

lemma size_float:
  assumes "n \<noteq> 0" "n \<le> 2 ^ 50" "budget_ok p" "log_close P p"
  defines "Z \<equiv> of_int (uint n) * - ln (rval p) / (ln 2)\<^sup>2"
  shows "rel (1 / 2 ^ 49) (- f64_of_u64 n * Log P p / ln2Squared) Z" "4 \<le> Z" "Z \<le> 2 ^ 61"
proof -
  let ?N = "real_of_int (uint n)" and ?l = "- ln (rval p)"
  have N: "1 \<le> ?N" "?N \<le> 2 ^ 50" using uint_real uint_le_real assms(1,2) by auto
  have l: "2 \<le> ?l" "?l \<le> 745" using budget_ln [OF assms(3)] by auto
  have Nl: "1 * 2 \<le> ?N * ?l" "?N * ?l \<le> 2 ^ 50 * 745" using N l by (intro mult_mono; simp)+
  show Z: "4 \<le> Z" "Z \<le> 2 ^ 61"
  proof -
    have "4 * (ln 2)\<^sup>2 \<le> ?N * ?l" using Nl(1) ln2sq_bounds(2) by linarith
    then show "4 \<le> Z" using ln2sq_bounds(1) by (simp add: Z_def field_simps)
    have "?N * ?l \<le> 2 ^ 61 * (48 / 100)" using Nl(2) by simp
    also have "\<dots> \<le> 2 ^ 61 * (ln 2)\<^sup>2" using ln2sq_bounds(1) by (intro mult_left_mono) auto
    finally show "Z \<le> 2 ^ 61" using ln2sq_bounds(1) by (simp add: Z_def field_simps)
  qed
  have n: "rel (1 / 2 ^ 53) (- f64_of_u64 n) (- ?N)" by (rule rel_uminus [OF f64_of_u64_rel [OF assms(1)]])
  have L: "rel (1 / 2 ^ 52) (Log P p) (ln (rval p))" using assms(4) by (simp add: log_close_def)
  have abs: "\<bar>- ?N * ln (rval p)\<bar> = ?N * ?l" using N(1) l(1) by (simp add: abs_mult)
  have "rel (1 / 2 ^ 53 + 1 / 2 ^ 52 + 1 / 2 ^ 51) (- f64_of_u64 n * Log P p) (- ?N * ln (rval p))"
    by (rule times_rel [OF n L]) (use Nl middle [of "?N * ?l"] in \<open>simp_all add: abs\<close>)
  then have prod: "rel (7 / 2 ^ 53) (- f64_of_u64 n * Log P p) (?N * ?l)" by simp
  have eq: "?N * ?l / (ln 2)\<^sup>2 = Z" by (simp only: Z_def)
  have "rel (7 / 2 ^ 53 + 1 / 2 ^ 53 + 1 / 2 ^ 51) (- f64_of_u64 n * Log P p / ln2Squared) Z"
    by (rule divide_rel [OF prod ln2Squared_rel, unfolded eq]) (use Z middle [of Z] in simp_all)
  then show "rel (1 / 2 ^ 49) (- f64_of_u64 n * Log P p / ln2Squared) Z" by (auto elim!: rel_mono)
qed

lemma budget_guard: "budget_ok p \<Longrightarrow> \<not> (IsNaN p \<or> p \<le> 0 \<or> 1 \<le> p)"
  using budget_pos [of p] by (auto simp: budget_ok_def IsNaN_def less_eq_val)

lemma u64_of_f64_int:
  assumes "finite64 x" "rval x = of_int i" "0 \<le> i" "i < 2 ^ 64"
  shows "uint (u64_of_f64 big x) = i"
proof -
  have "trunc64 x = i" using trunc64_floor [OF assms(1)] assms(2,3) by simp
  moreover have "uint (word_of_int i :: u64) = i mod 2 ^ 64" by (simp add: uint_word_of_int)
  then have "uint (word_of_int i :: u64) = i" using assms(3,4) by (simp only: mod_pos_pos_trivial)
  ultimately show ?thesis using assms(1,3,4) by (simp add: u64_of_f64_def Let_def)
qed

lemma OptimalM_value:
  assumes "n \<noteq> 0" "n \<le> 2 ^ 50" "budget_ok p" "log_close P p"
  defines "Z \<equiv> of_int (uint n) * - ln (rval p) / (ln 2)\<^sup>2"
  obtains m where "OptimalM P n p = Ok m" "Z * (1 - 1 / 2 ^ 48) \<le> of_int (uint m)"
    "of_int (uint m) \<le> Z * (1 + 1 / 2 ^ 40) + 2"
proof -
  let ?z = "- f64_of_u64 n * Log P p / ln2Squared"
  note z = size_float [OF assms(1-4), folded Z_def]
  have zb: "rval ?z \<le> Z * (1 + 1 / 2 ^ 49)" "Z * (1 - 1 / 2 ^ 49) \<le> rval ?z"
    using relD(2,3) [OF z(1)] z(2) by (simp_all add: algebra_simps)
  have "rval ?z \<le> 2 ^ 62" and pos: "0 < rval ?z" using zb z(2,3) by simp_all
  moreover have "(2 :: real) ^ 62 \<le> 2 ^ 1022" by (rule power_increasing) auto
  ultimately have le: "rval ?z \<le> 2 ^ 1022" by linarith
  obtain i where i: "finite64 (Ceil ?z)" "rval (Ceil ?z) = of_int i"
      "of_int i \<le> (rval ?z + 1) * (1 + 1 / 2 ^ 53)" "rval ?z * (1 - 1 / 2 ^ 53) \<le> of_int i"
    by (rule Ceil_value [OF relD(1) [OF z(1)] pos le])
  have lo: "Z * (1 - 1 / 2 ^ 48) \<le> of_int i"
  proof -
    have "Z * (1 - 1 / 2 ^ 48) \<le> Z * (1 - 1 / 2 ^ 49) * (1 - 1 / 2 ^ 53)" using z(2) by simp
    also have "\<dots> \<le> rval ?z * (1 - 1 / 2 ^ 53)" using zb(2) by (intro mult_right_mono) auto
    finally show ?thesis using i(4) by linarith
  qed
  have hi: "of_int i \<le> Z * (1 + 1 / 2 ^ 40) + 2"
  proof -
    have "(rval ?z + 1) * (1 + 1 / 2 ^ 53) \<le> (Z * (1 + 1 / 2 ^ 49) + 1) * (1 + 1 / 2 ^ 53)"
      using zb(1) by (intro mult_right_mono) auto
    also have "\<dots> \<le> Z * (1 + 1 / 2 ^ 40) + 2" using z(2) by (simp add: field_simps)
    finally show ?thesis using i(3) by linarith
  qed
  have lt: "real_of_int i < 2 ^ 64" and gt: "0 < real_of_int i" using lo hi z(2,3) by simp_all
  have "real_of_int i < real_of_int (2 ^ 64)" using lt by simp
  then have ib: "0 \<le> i" "i < 2 ^ 64" using gt unfolding of_int_less_iff by simp_all
  have "\<not> MaxUint64f < Ceil ?z" using less_val [OF MaxUint64f_value(1) i(1)] MaxUint64f_value(2) i(2) lt by simp
  then have ok: "OptimalM P n p = Ok (u64_of_f64 (u64_big P) (Ceil ?z))"
    using assms(1) budget_guard [OF assms(3)] by (simp add: OptimalM_def Let_def)
  show thesis by (rule that [OF ok]; simp only: u64_of_f64_int [OF i(1,2) ib] lo hi)
qed

section \<open>The number of hash functions\<close>

text \<open>\<open>m / n * ln 2\<close> in real numbers, which the code rounds to the nearest integer.\<close>

definition ideal_k :: "u64 \<Rightarrow> u64 \<Rightarrow> real" where
  "ideal_k n m = of_int (uint m) / of_int (uint n) * ln 2"

lemma int_of_f64_int:
  assumes "finite64 x" "rval x = of_int i" "0 \<le> i" "i < 2 ^ 63"
  shows "int_of_f64 big x = i"
proof -
  have "trunc64 x = i" using trunc64_floor [OF assms(1)] assms(2,3) by simp
  then show ?thesis using assms(1,3,4) by (simp add: int_of_f64_def Let_def)
qed

lemma OptimalK_value:
  assumes "n \<noteq> 0" "m \<noteq> 0" "2 \<le> ideal_k n m" "ideal_k n m \<le> 2 ^ 20"
  obtains k where "OptimalK P n m = Ok k" "1 \<le> k" "\<bar>of_int k - ideal_k n m\<bar> \<le> 51 / 100"
proof -
  let ?q = "real_of_int (uint m) / of_int (uint n)" and ?f = "f64_of_u64 m / f64_of_u64 n * ln2"
  have N: "1 \<le> real_of_int (uint n)" using uint_real assms(1) by auto
  have ln2: "69 / 100 \<le> ln (2 :: real)" "ln (2 :: real) \<le> 70 / 100" using ln_2_bounds by simp_all
  have q0: "0 \<le> ?q" using uint_ge_0 by (intro divide_nonneg_nonneg) (simp_all only: of_int_0_le_iff)
  have q: "1 \<le> ?q" "?q \<le> 2 ^ 21"
  proof -
    have "?q * ln 2 \<le> ?q * 1" using ln2 q0 by (intro mult_left_mono) auto
    then show "1 \<le> ?q" using assms(3) by (simp add: ideal_k_def)
    have "?q * (1 / 2) \<le> ?q * ln 2" using ln2 q0 by (intro mult_left_mono) auto
    then show "?q \<le> 2 ^ 21" using assms(4) by (simp add: ideal_k_def)
  qed
  have "rel (1 / 2 ^ 53 + 1 / 2 ^ 53 + 1 / 2 ^ 51) (f64_of_u64 m / f64_of_u64 n) ?q"
    by (rule divide_rel [OF f64_of_u64_rel [OF assms(2)] f64_of_u64_rel [OF assms(1)]]) (use q N middle [of ?q] in simp_all)
  then have qr: "rel (6 / 2 ^ 53) (f64_of_u64 m / f64_of_u64 n) ?q" by simp
  have "rel (6 / 2 ^ 53 + 1 / 2 ^ 53 + 1 / 2 ^ 51) ?f (ideal_k n m)"
    by (rule times_rel [OF qr ln2_rel, folded ideal_k_def]) (use assms(3,4) middle [of "ideal_k n m"] in simp_all)
  then have f: "rel (1 / 2 ^ 49) ?f (ideal_k n m)" by (auto elim!: rel_mono)
  have fb: "rval ?f \<le> ideal_k n m + 1 / 100" "ideal_k n m - 1 / 100 \<le> rval ?f"
    using relD(2,3) [OF f] assms(3,4) by simp_all
  let ?k = "\<lfloor>rval ?f + 1 / 2\<rfloor>"
  have R: "finite64 (Round ?f)" "rval (Round ?f) = of_int ?k"
    using Round_value [OF relD(1) [OF f]] fb assms(3,4) by simp_all
  have k: "rval ?f - 1 / 2 \<le> of_int ?k" "of_int ?k \<le> rval ?f + 1 / 2" by linarith+
  have k1: "1 \<le> ?k" "?k < 2 ^ 63" using fb assms(3,4) by (simp_all add: le_floor_iff floor_less_iff)
  have "\<not> Round ?f < 1" using less_val [OF R(1)] R(2) k1(1) by simp
  then have "OptimalK P n m = Ok ?k"
    using assms(1) int_of_f64_int [OF R] k1 by (simp add: OptimalK_def Let_def)
  moreover have "\<bar>of_int ?k - ideal_k n m\<bar> \<le> 51 / 100" using k fb unfolding abs_le_iff by linarith
  ultimately show thesis using k1(1) that by blast
qed

section \<open>The rate of false positives\<close>

text \<open>
  The estimate that \<open>EstimatedFPP\<close> evaluates for a stage, in real numbers: after \<open>n\<close> insertions all \<open>k\<close>
  bits of an item that was not added are set.
\<close>

definition fp_rate :: "int \<Rightarrow> u64 \<Rightarrow> u64 \<Rightarrow> real" where
  "fp_rate k m n = (1 - exp (- of_int k * of_int (uint n) / of_int (uint m))) ^ nat k"

text \<open>
  With \<open>k\<close> off the ideal \<open>x\<close> by \<open>d\<close>, the rate is off the ideal rate \<open>2 powr - x\<close> by a factor of at
  most \<open>2 powr (d^2 / x)\<close>.
\<close>

lemma exp_half: "exp (- ln 2 - t) = exp (- t) / 2" for t :: real
  by (simp add: exp_diff exp_minus field_simps)

lemma rate_near_ideal:
  fixes x :: real
  assumes "0 < x" "1 \<le> k"
  shows "(1 - exp (- of_int k * ln 2 / x)) ^ nat k \<le> 2 powr (- x + (of_int k - x)\<^sup>2 / x)"
proof -
  let ?y = "(of_int k - x) / x"
  have "- of_int k * ln 2 / x = - ln 2 - ?y * ln 2" using assms(1) by (simp add: field_simps)
  then have "exp (- of_int k * ln 2 / x) = exp (- ln 2 - ?y * ln 2)" by (rule arg_cong)
  also have "\<dots> = exp (- (?y * ln 2)) / 2" by (rule exp_half)
  finally have "exp (- of_int k * ln 2 / x) = exp (- (?y * ln 2)) / 2" .
  moreover have "1 - ?y * ln 2 \<le> exp (- (?y * ln 2))" using exp_ge_add_one_self [of "- (?y * ln 2)"] by simp
  ultimately have "1 - exp (- of_int k * ln 2 / x) \<le> (1 + ?y * ln 2) / 2" by simp
  also have "\<dots> \<le> exp (?y * ln 2) / 2" by (intro divide_right_mono exp_ge_add_one_self) simp
  also have "\<dots> = exp ((?y - 1) * ln 2)" using exp_half [of "- (?y * ln 2)"] by (simp add: left_diff_distrib)
  finally have le: "1 - exp (- of_int k * ln 2 / x) \<le> exp ((?y - 1) * ln 2)" .
  have "0 \<le> of_int k * ln 2 / x" using assms by simp
  then have "exp (- of_int k * ln 2 / x) \<le> 1" by simp
  then have "(1 - exp (- of_int k * ln 2 / x)) ^ nat k \<le> exp ((?y - 1) * ln 2) ^ nat k" using le by (intro power_mono) auto
  also have "\<dots> = exp (of_int k * ((?y - 1) * ln 2))"
    using assms(2) by (simp add: exp_of_nat_mult [symmetric])
  also have "of_int k * ((?y - 1) * ln 2) = (- x + (of_int k - x)\<^sup>2 / x) * ln 2"
    using assms(1) by (simp add: field_simps power2_eq_square)
  finally show ?thesis by (simp add: powr_def)
qed

lemma fp_rate_ideal:
  assumes "n \<noteq> 0" "m \<noteq> 0" "1 \<le> k"
  shows "fp_rate k m n \<le> 2 powr (- ideal_k n m + (of_int k - ideal_k n m)\<^sup>2 / ideal_k n m)"
proof -
  have p: "0 < real_of_int (uint m)" "0 < real_of_int (uint n)" using uint_real assms(1,2) by (meson less_le_trans zero_less_one)+
  moreover have "0 < ln (2 :: real)" by simp
  ultimately have "- of_int k * ln 2 / ideal_k n m = - of_int k * of_int (uint n) / of_int (uint m)" "0 < ideal_k n m"
    by (simp_all add: ideal_k_def field_simps)
  then show ?thesis using rate_near_ideal [of "ideal_k n m" k] assms(3) by (simp add: fp_rate_def)
qed

section \<open>Sizes meet the budget\<close>

lemma ln_9: "316 / 100 * ln 2 \<le> ln (9 :: real)"
proof -
  have "ln ((2 :: real) ^ 79) \<le> ln (9 ^ 25)" by (rule iffD2 [OF ln_le_cancel_iff]) simp_all
  then show ?thesis unfolding ln_realpow by simp
qed

lemma powr_twelfth: "2 powr (1 / 12) \<le> (10599 / 10000 :: real)"
proof -
  have "ln (2 :: real) \<le> ln ((10599 / 10000) ^ 12)" by (rule iffD2 [OF ln_le_cancel_iff]) (simp_all add: power_divide)
  then have "1 / 12 * ln 2 \<le> ln (10599 / 10000 :: real)" unfolding ln_realpow by simp
  then have "exp (1 / 12 * ln 2) \<le> exp (ln (10599 / 10000 :: real))" by (rule iffD2 [OF exp_le_cancel_iff])
  also have "exp (ln (10599 / 10000 :: real)) = 10599 / 10000" by (rule exp_ln) simp
  finally show ?thesis by (simp add: powr_def)
qed

lemma exp_small: "0 \<le> t \<Longrightarrow> t \<le> 745 / 2 ^ 48 \<Longrightarrow> exp t \<le> 100005 / 100000" for t :: real
proof -
  assume t: "0 \<le> t" "t \<le> 745 / 2 ^ 48"
  have "(1 - t) * exp t \<le> exp (- t) * exp t" using exp_ge_add_one_self [of "- t"] by (intro mult_right_mono) auto
  then have "(1 - t) * exp t \<le> 1" by (simp flip: exp_add)
  moreover have "100000 / 100005 * exp t \<le> (1 - t) * exp t" using t by (intro mult_right_mono) auto
  ultimately show ?thesis by linarith
qed

lemma cancel_sizes:
  fixes N L l c d :: real
  assumes "N \<noteq> 0" "L \<noteq> 0"
  shows "N * l / L\<^sup>2 * c * (L / N) = l * c / L" "(N * l / L\<^sup>2 * c + d) * (L / N) = l * c / L + d * L / N"
  using assms by (simp_all add: field_simps power2_eq_square)

lemma ideal_k_bounds:
  assumes "n \<noteq> 0" "budget_ok p"
    and m: "of_int (uint n) * - ln (rval p) / (ln 2)\<^sup>2 * (1 - 1 / 2 ^ 48) \<le> real_of_int (uint m)"
      "real_of_int (uint m) \<le> of_int (uint n) * - ln (rval p) / (ln 2)\<^sup>2 * (1 + 1 / 2 ^ 40) + 2"
  shows "- ln (rval p) * (1 - 1 / 2 ^ 48) \<le> ideal_k n m * ln 2" "315 / 100 \<le> ideal_k n m" "ideal_k n m \<le> 2 ^ 20"
proof -
  let ?N = "real_of_int (uint n)" and ?l = "- ln (rval p)"
  have N: "1 \<le> ?N" "0 < ?N" "?N \<noteq> 0" using uint_real [OF assms(1)] by linarith+
  have ln2: "69 / 100 \<le> ln (2 :: real)" "ln (2 :: real) \<le> 70 / 100" "ln (2 :: real) \<noteq> 0" using ln_2_bounds by simp_all
  have l: "2 \<le> ?l" "?l \<le> 745" using budget_ln [OF assms(2)] by auto
  have k: "ideal_k n m = of_int (uint m) * (ln 2 / ?N)" by (simp only: ideal_k_def times_divide_eq_left times_divide_eq_right)
  have pos: "0 \<le> ln 2 / ?N" using N ln2 by (intro divide_nonneg_nonneg) linarith+
  have "?N * ?l / (ln 2)\<^sup>2 * (1 - 1 / 2 ^ 48) * (ln 2 / ?N) \<le> ideal_k n m" unfolding k by (rule mult_right_mono [OF m(1) pos])
  also have "?N * ?l / (ln 2)\<^sup>2 * (1 - 1 / 2 ^ 48) * (ln 2 / ?N) = ?l * (1 - 1 / 2 ^ 48) / ln 2"
    by (rule cancel_sizes(1) [OF N(3) ln2(3)])
  finally have lo: "?l * (1 - 1 / 2 ^ 48) / ln 2 \<le> ideal_k n m" .
  then show le: "?l * (1 - 1 / 2 ^ 48) \<le> ideal_k n m * ln 2" using ln2 by (simp add: field_simps)
  have "ln (rval p) \<le> ln (1 / 9)" using assms(2) budget_pos [of p] by (simp add: budget_ok_def)
  then have "316 / 100 * ln 2 \<le> ?l" using ln_9 by (simp add: ln_div)
  then have "316 / 100 * ln 2 * (1 - 1 / 2 ^ 48) \<le> ?l * (1 - 1 / 2 ^ 48)" by (intro mult_right_mono) auto
  moreover have "315 / 100 * ln 2 \<le> 316 / 100 * ln 2 * (1 - 1 / 2 ^ 48 :: real)" using ln2 by simp
  ultimately have "315 / 100 * ln 2 \<le> ideal_k n m * ln 2" using le by linarith
  then show "315 / 100 \<le> ideal_k n m" using ln2 by simp
  have "ideal_k n m \<le> (?N * ?l / (ln 2)\<^sup>2 * (1 + 1 / 2 ^ 40) + 2) * (ln 2 / ?N)" unfolding k by (rule mult_right_mono [OF m(2) pos])
  also have "\<dots> = ?l * (1 + 1 / 2 ^ 40) / ln 2 + 2 * ln 2 / ?N"
    by (rule cancel_sizes(2) [OF N(3) ln2(3)])
  also have "\<dots> \<le> 745 * 2 / (69 / 100) + 2 * 1 / 1"
    using N l ln2 by (intro add_mono frac_le mult_mono) simp_all
  also have "\<dots> \<le> 2 ^ 20" by simp
  finally show "ideal_k n m \<le> 2 ^ 20" .
qed

lemma fp_rate_budget:
  assumes "n \<noteq> 0" "m \<noteq> 0" "1 \<le> k" "budget_ok p" "\<bar>of_int k - ideal_k n m\<bar> \<le> 51 / 100"
    and "- ln (rval p) * (1 - 1 / 2 ^ 48) \<le> ideal_k n m * ln 2" "315 / 100 \<le> ideal_k n m"
  shows "fp_rate k m n \<le> 106 / 100 * rval p"
proof -
  let ?x = "ideal_k n m" and ?l = "- ln (rval p)"
  have "\<bar>of_int k - ?x\<bar>\<^sup>2 \<le> (51 / 100)\<^sup>2" using assms(5) by (intro power_mono) auto
  then have "(of_int k - ?x)\<^sup>2 / ?x \<le> (51 / 100)\<^sup>2 / (315 / 100)" using assms(7) by (intro frac_le) auto
  also have "\<dots> \<le> 1 / 12" by (simp add: power2_eq_square)
  finally have "2 powr (- ?x + (of_int k - ?x)\<^sup>2 / ?x) \<le> 2 powr (- ?x + 1 / 12)" by simp
  then have "fp_rate k m n \<le> 2 powr (- ?x + 1 / 12)" using fp_rate_ideal [OF assms(1-3)] by linarith
  also have "\<dots> = 2 powr (1 / 12) * 2 powr (- ?x)" by (simp flip: powr_add)
  also have "\<dots> \<le> 10599 / 10000 * (rval p * (100005 / 100000))"
  proof (intro mult_mono powr_twelfth)
    have "2 powr (- ?x) \<le> exp (ln (rval p) + ?l / 2 ^ 48)" using assms(6) by (simp add: powr_def algebra_simps)
    also have "\<dots> = rval p * exp (?l / 2 ^ 48)" using budget_pos [OF assms(4)] by (simp only: exp_add exp_ln)
    also have "\<dots> \<le> rval p * (100005 / 100000)"
      using budget_ln [OF assms(4)] budget_pos [OF assms(4)] assms(4) by (intro mult_left_mono exp_small) (auto simp: budget_ok_def)
    finally show "2 powr (- ?x) \<le> rval p * (100005 / 100000)" .
  qed auto
  also have "\<dots> \<le> 106 / 100 * rval p" using budget_pos [OF assms(4)] by simp
  finally show ?thesis .
qed

lemma sizes_exist:
  assumes "n \<noteq> 0" "n \<le> 2 ^ 50" "budget_ok p" "log_close P p"
  shows "\<exists>m k. OptimalM P n p = Ok m \<and> OptimalK P n m = Ok k \<and> m \<noteq> 0 \<and> 1 \<le> k \<and> fp_rate k m n \<le> 106 / 100 * rval p"
proof -
  let ?Z = "of_int (uint n) * - ln (rval p) / (ln 2)\<^sup>2"
  obtain m where m: "OptimalM P n p = Ok m" "?Z * (1 - 1 / 2 ^ 48) \<le> of_int (uint m)"
    "of_int (uint m) \<le> ?Z * (1 + 1 / 2 ^ 40) + 2"
    by (rule OptimalM_value [OF assms])
  have "4 \<le> ?Z" by (rule size_float(2) [OF assms])
  then have "0 < real_of_int (uint m)" using m(2) by simp
  then have m0: "m \<noteq> 0" by auto
  note x = ideal_k_bounds [OF assms(1,3) m(2,3)]
  obtain k where k: "OptimalK P n m = Ok k" "1 \<le> k" "\<bar>of_int k - ideal_k n m\<bar> \<le> 51 / 100"
    by (rule OptimalK_value [OF assms(1) m0 _ x(3)]) (use x(2) in auto)
  from fp_rate_budget [OF assms(1) m0 k(2) assms(3) k(3) x(1,2)] m(1) k m0 show ?thesis by blast
qed

end
