(* ===== verification/ErrorRate.thy ===== *)
theory ErrorRate
  imports SizingLaws Demo
begin

text \<open>
  What the error rate of a filter comes to: every stage meets its budget, the budgets of all stages add
  up to the rate the filter was created for, and the capacities double.
\<close>

section \<open>Budgets and capacities of stages\<close>

text \<open>\<open>math.Pow\<close> at the ratios of the program: the tightening ratio nearly, powers of two exactly.\<close>

definition pow_close :: "platform \<Rightarrow> nat \<Rightarrow> bool" where
  "pow_close P i \<longleftrightarrow> rel (1 / 2 ^ 41) (Pow P DefaultR (f64_of_int i)) (rval DefaultR ^ i)
     \<and> finite64 (Pow P DefaultS (f64_of_int i)) \<and> rval (Pow P DefaultS (f64_of_int i)) = 2 ^ i"

lemma DefaultR_value: "finite64 DefaultR" "1 / 2 \<le> rval DefaultR" "rval DefaultR < 1"
  "finite64 (1 - DefaultR)" "rval (1 - DefaultR) = 1 - rval DefaultR" "9 / 10 \<le> rval DefaultR" "rval DefaultR \<le> 95 / 100"
proof -
  have v: "DefaultR = Fin 8106479329266893 (- 53)" "1 - DefaultR = Fin 7205759403792792 (- 56)" by code_simp+
  have "finite64 DefaultR" "rval DefaultR = 8106479329266893 / 2 ^ 53"
    unfolding v(1) by (simp_all add: power_int_minus field_simps)
  moreover have "finite64 (1 - DefaultR)" "rval (1 - DefaultR) = 7205759403792792 / 2 ^ 56"
    unfolding v(2) by (simp_all add: power_int_minus field_simps)
  ultimately show "finite64 DefaultR" "1 / 2 \<le> rval DefaultR" "rval DefaultR < 1"
    "finite64 (1 - DefaultR)" "rval (1 - DefaultR) = 1 - rval DefaultR" "9 / 10 \<le> rval DefaultR" "rval DefaultR \<le> 95 / 100"
    by simp_all
qed

lemma DefaultS_value: "finite64 DefaultS" "rval DefaultS = 2" "\<not> (IsNaN DefaultS \<or> DefaultS \<le> 1)"
proof -
  have v: "DefaultS = Fin (2 ^ 52) (- 51)" by code_simp
  show "finite64 DefaultS" "rval DefaultS = 2" by (simp_all add: v power_int_minus)
  then show "\<not> (IsNaN DefaultS \<or> DefaultS \<le> 1)" by (auto simp: IsNaN_def less_eq_val v)
qed

text \<open>The budget of stage \<open>i\<close> is \<open>p (1 - r) r^i\<close>, up to rounding.\<close>

definition budget :: "f64 \<Rightarrow> nat \<Rightarrow> real" where
  "budget p i = rval p * (1 - rval DefaultR) * rval DefaultR ^ i"

lemma StageError_value:
  assumes "finite64 p" "2 powi (- 900) \<le> rval p" "rval p < 1" "i \<le> 50" "pow_close P i"
  obtains pi where "StageError P p (int i) [DefaultR] = Ok pi" "rel (1 / 2 ^ 40) pi (budget p i)" "budget_ok pi"
proof -
  let ?R = "rval DefaultR" and ?p0 = "p * (1 - DefaultR)"
  have p: "0 < rval p" using assms(2) two_powi_ge(1) [of "- 900"] by linarith
  have guards: "\<not> (IsNaN p \<or> p \<le> 0 \<or> 1 \<le> p)" "\<not> (IsNaN DefaultR \<or> DefaultR \<le> 0 \<or> 1 \<le> DefaultR)"
    using assms(1,3) p DefaultR_value by (auto simp: IsNaN_def less_eq_val)
  have lo0: "2 powi (- 905) \<le> rval p * (1 - ?R)"
  proof -
    have "(2 powi (- 905) :: real) = 2 powi (- 900) * (1 / 32)" using power_int_diff [of "2 :: real" "- 900" 5] by simp
    also have "\<dots> \<le> rval p * (1 - ?R)" using assms(2) DefaultR_value(7) p by (intro mult_mono) auto
    finally show ?thesis .
  qed
  have lo: "2 powi (- 955) \<le> budget p i"
  proof -
    have "(1 / 2) ^ 50 \<le> (1 / 2 :: real) ^ i" using assms(4) by (intro power_decreasing) auto
    also have "\<dots> \<le> ?R ^ i" using DefaultR_value(2) by (intro power_mono) auto
    finally have "2 powi (- 905) * (1 / 2) ^ 50 \<le> rval p * (1 - ?R) * ?R ^ i" using lo0 by (intro mult_mono) auto
    moreover have "(2 powi (- 955) :: real) = 2 powi (- 905) * (1 / 2) ^ 50"
      using power_int_diff [of "2 :: real" "- 905" 50] by (simp add: power_divide)
    ultimately show ?thesis by (simp add: budget_def)
  qed
  have R1: "?R ^ i \<le> 1" "0 < ?R ^ i" using DefaultR_value(2,3) by (auto intro: power_le_one)
  have hi0: "rval p * (1 - ?R) \<le> 1 * (1 / 10)" using assms(3) DefaultR_value(3,6) p by (intro mult_mono) auto
  have hi: "budget p i \<le> 1 / 10"
    using mult_mono [OF hi0 R1(1)] R1(2) by (simp add: budget_def)
  have mid: "(2 powi (- 1021) :: real) \<le> 2 powi (- 955)" "(2 powi (- 1021) :: real) \<le> 2 powi (- 905)"
      "(2 powi (- 1074) :: real) \<le> 2 powi (- 956)"
    by (rule power_int_increasing; simp)+
  have one: "(1 :: real) \<le> 2 ^ 1022" by (rule one_le_power) simp
  have big: "\<bar>rval p * (1 - ?R)\<bar> \<le> 2 ^ 1022" "\<bar>budget p i\<bar> \<le> 2 ^ 1022"
    using hi0 hi lo0 lo one two_powi_ge(1) [of "- 905"] two_powi_ge(1) [of "- 955"] by (simp_all only: abs_le_iff) linarith+
  have "rel (0 + 0 + 1 / 2 ^ 51) ?p0 (rval p * (1 - ?R))"
  proof (rule times_rel)
    show "rel 0 p (rval p)" "rel 0 (1 - DefaultR) (1 - ?R)" using assms(1) DefaultR_value by (auto intro: rel_exact)
  qed (use lo0 mid(2) big(1) in auto)
  then have p0: "rel (1 / 2 ^ 51) ?p0 (rval p * (1 - ?R))" by simp
  have "rel (1 / 2 ^ 51 + 1 / 2 ^ 41 + 1 / 2 ^ 51) (?p0 * Pow P DefaultR (f64_of_int i)) (rval p * (1 - ?R) * ?R ^ i)"
    by (rule times_rel [OF p0]) (use assms(5) lo mid(1) big(2) in \<open>auto simp: pow_close_def budget_def\<close>)
  then have pi: "rel (1 / 2 ^ 40) (?p0 * Pow P DefaultR (f64_of_int i)) (budget p i)"
    unfolding budget_def by (auto elim!: rel_mono)
  have "budget_ok (?p0 * Pow P DefaultR (f64_of_int i))"
  proof -
    have half: "(2 powi (- 955) :: real) / 2 = 2 powi (- 956)" using power_int_diff [of "2 :: real" "- 955" 1] by simp
    have b: "0 \<le> budget p i" using lo two_powi_ge(1) [of "- 955"] by linarith
    then have "budget p i - 1 / 2 ^ 40 * \<bar>budget p i\<bar> \<ge> budget p i / 2" "budget p i + 1 / 2 ^ 40 * \<bar>budget p i\<bar> \<le> 1 / 9"
      using hi by simp_all
    then show ?thesis using relD [OF pi] lo half mid(3) unfolding budget_ok_def by linarith
  qed
  moreover have "StageError P p (int i) [DefaultR] = Ok (?p0 * Pow P DefaultR (f64_of_int i))"
    unfolding StageError_def if_not_P [OF guards(1)] using guards(2) by simp
  ultimately show thesis using that pi by blast
qed

text \<open>Capacities double.\<close>

lemma StageCapacity_value:
  assumes "n \<noteq> 0" "uint n * 2 ^ i \<le> 2 ^ 50" "pow_close P i"
  obtains c where "StageCapacity P n (int i) [DefaultS] = Ok c" "uint c = uint n * 2 ^ i"
proof -
  let ?c = "f64_of_u64 n * Pow P DefaultS (f64_of_int i)" and ?i = "uint n * 2 ^ i"
  have n: "0 \<le> uint n" "uint n \<le> ?i" by (simp_all add: mult_le_cancel_left1 flip: mult_1_right)
  then have "\<bar>uint n\<bar> < 2 ^ 53" using assms(2) by simp
  from rnd_int_exact [OF this] have f: "finite64 (f64_of_u64 n)" "rval (f64_of_u64 n) = of_int (uint n)"
    by (simp_all add: f64_of_u64_def)
  have "rval (f64_of_u64 n) * rval (Pow P DefaultS (f64_of_int i)) = of_int ?i"
    using assms(3) by (simp only: f(2) pow_close_def) simp
  moreover have "\<bar>?i\<bar> < 2 ^ 53" using assms(2) n by simp
  ultimately have c: "finite64 ?c" "rval ?c = of_int ?i"
    using times_exact [OF f(1), of "Pow P DefaultS (f64_of_int i)" ?i] assms(3) by (simp_all only: pow_close_def)
  have "real_of_int ?i \<le> real_of_int (2 ^ 50)" using assms(2) unfolding of_int_le_iff .
  then have "rval ?c \<le> 2 ^ 50" unfolding c(2) by simp
  then have "\<not> MaxUint64f < ?c" using less_val [OF MaxUint64f_value(1) c(1)] MaxUint64f_value(2) by simp
  then have "StageCapacity P n (int i) [DefaultS] = Ok (u64_of_f64 (u64_big P) ?c)"
    using assms(1) DefaultS_value(3) by (simp add: StageCapacity_def Let_def)
  moreover have "uint (u64_of_f64 (u64_big P) ?c) = ?i" by (rule u64_of_f64_int [OF c]) (use assms(2) n in simp_all)
  ultimately show thesis using that by blast
qed

section \<open>Stages and filters\<close>

definition stage_rate :: "stage \<Rightarrow> real" where
  "stage_rate st = fp_rate (st_k st) (st_m st) (st_capacity st)"

lemma fp_rate_range: "1 \<le> k \<Longrightarrow> 0 \<le> fp_rate k m n \<and> fp_rate k m n \<le> 1"
proof -
  assume "1 \<le> k"
  then have "0 \<le> of_int k * of_int (uint n) / real_of_int (uint m)"
    by (intro divide_nonneg_nonneg mult_nonneg_nonneg) (simp_all only: of_int_0_le_iff uint_ge_0)
  then have "exp (- of_int k * of_int (uint n) / real_of_int (uint m)) \<le> 1" by simp
  then show ?thesis unfolding fp_rate_def by (auto intro!: power_le_one)
qed

lemma computeStage_rate:
  assumes "finite64 p" "2 powi (- 900) \<le> rval p" "rval p < 1" "i \<le> 50" "pow_close P i"
    and "n \<noteq> 0" "uint n * 2 ^ i \<le> 2 ^ 50"
    and log: "\<And>pi. StageError P p (int i) [DefaultR] = Ok pi \<Longrightarrow> log_close P pi"
  obtains st where "computeStage P n p DefaultR DefaultS (int i) = Ok st" "uint (st_capacity st) = uint n * 2 ^ i"
    "0 \<le> stage_rate st" "stage_rate st \<le> 1" "stage_rate st \<le> 1065 / 1000 * budget p i"
proof -
  obtain pi where pi: "StageError P p (int i) [DefaultR] = Ok pi" "rel (1 / 2 ^ 40) pi (budget p i)" "budget_ok pi"
    by (rule StageError_value [OF assms(1-5)])
  obtain c where c: "StageCapacity P n (int i) [DefaultS] = Ok c" "uint c = uint n * 2 ^ i"
    by (rule StageCapacity_value [OF assms(6,7,5)])
  have c0: "c \<noteq> 0" using c(2) assms(6) by (metis mult_eq_0_iff power_not_zero uint_0_iff zero_neq_numeral)
  have c50: "c \<le> 2 ^ 50" using c(2) assms(7) by (simp add: word_le_def)
  obtain m k where mk: "OptimalM P c pi = Ok m" "OptimalK P c m = Ok k" "1 \<le> k" "fp_rate k m c \<le> 106 / 100 * rval pi"
    using sizes_exist [OF c0 c50 pi(3) log [OF pi(1)]] by blast
  have "0 \<le> budget p i" using assms(2) two_powi_ge(1) [of "- 900"] DefaultR_value(2,3) by (auto simp: budget_def intro!: mult_nonneg_nonneg)
  then have "106 / 100 * rval pi \<le> 1065 / 1000 * budget p i" using relD(2) [OF pi(2)] by simp
  then show thesis
    using that [of "\<lparr>st_index = int i, st_m = m, st_k = k, st_capacity = c, st_fill = 0\<rparr>"] pi(1) c mk fp_rate_range [OF mk(3), of m c]
    by (simp add: computeStage_def stage_rate_def)
qed

lemma prod_budget:
  fixes xs :: "real list"
  assumes "\<forall>x \<in> set xs. 0 \<le> x \<and> x \<le> 1"
  shows "1 - sum_list xs \<le> prod_list (map (\<lambda>x. 1 - x) xs) \<and> 0 \<le> prod_list (map (\<lambda>x. 1 - x) xs)
    \<and> prod_list (map (\<lambda>x. 1 - x) xs) \<le> 1"
  using assms
proof (induction xs)
  case (Cons x xs)
  let ?p = "prod_list (map (\<lambda>x. 1 - x) xs)"
  have IH: "1 - sum_list xs \<le> ?p" "0 \<le> ?p" "?p \<le> 1" and x: "0 \<le> x" "x \<le> 1" using Cons by auto
  have "x * ?p \<le> x * 1" "0 \<le> x * ?p" "0 \<le> (1 - x) * ?p"
    using IH x by (intro mult_left_mono mult_nonneg_nonneg; simp)+
  then show ?case using IH by (simp add: left_diff_distrib)
qed simp

text \<open>The budgets of any number of stages stay below the rate of the filter.\<close>

lemma budget_sum:
  assumes "0 \<le> rval p"
  shows "(\<Sum>i\<leftarrow>[0..<L]. budget p i) \<le> rval p"
proof -
  let ?R = "rval DefaultR"
  have "(\<Sum>i\<leftarrow>[0..<L]. budget p i) = rval p * (1 - ?R ^ L)"
    by (induction L) (simp_all add: budget_def algebra_simps)
  also have "\<dots> \<le> rval p * 1" using assms DefaultR_value(2) by (intro mult_left_mono) auto
  finally show ?thesis by simp
qed

text \<open>A filter for one item at one percent, with two stages and Go's portable \<open>Log\<close> and \<open>Pow\<close>.\<close>

lemma demo_budgets:
  "StageError demo demo_p 0 [DefaultR] = Ok (Fin 4611686018427387 (- 62))"
  "StageError demo demo_p 1 [DefaultR] = Ok (Fin 8301034833169297 (- 63))"
  by code_simp+

lemma demo_logs:
  "Log demo (Fin 4611686018427387 (- 62)) = Fin (- 7777441025097632) (- 50)"
  "Log demo (Fin 8301034833169297 (- 63)) = Fin (- 7896066419861670) (- 50)"
  by code_simp+

lemma demo_lns:
  "237165266173160421182 / 10 ^ 22 \<le> ln (128 / 125 :: real)" "ln (128 / 125 :: real) \<le> 237165266173160421184 / 10 ^ 22"
  "408219945202551295080 / 10 ^ 22 \<le> ln (25 / 24 :: real)" "ln (25 / 24 :: real) \<le> 408219945202551295546 / 10 ^ 22"
  using ln_bounds [of "128 / 125" "3 / 253" 5] ln_bounds [of "25 / 24" "1 / 49" 5]
  by (simp_all add: ln_sum_def eval_nat_numeral)

lemma ln_near: "a - e \<le> y \<Longrightarrow> y \<le> a \<Longrightarrow> 1 / 2 \<le> y \<Longrightarrow> ln a - 2 * e \<le> ln y \<and> ln y \<le> ln a" for a y :: real
proof -
  assume y: "a - e \<le> y" "y \<le> a" "1 / 2 \<le> y"
  have "ln a - ln y \<le> (a - y) / y" using y by (intro ln_diff_le) auto
  also have "\<dots> \<le> e / (1 / 2)" using y by (intro frac_le) auto
  finally show ?thesis using y by simp
qed

lemma scaled_ln:
  fixes a y t :: real
  assumes "a - e \<le> y \<and> y \<le> a" "al \<le> a" "a \<le> ah" "t0 \<le> t" "t \<le> t1" "lo \<le> al - e - 10 * t1" "ah - 10 * t0 \<le> hi"
  shows "lo \<le> y - 10 * t \<and> y - 10 * t \<le> hi"
  using assms by linarith

lemma near_negative:
  fixes l lo hi x c :: real
  assumes "lo \<le> x" "x \<le> hi" "hi \<le> 0" "0 \<le> c" "l - lo \<le> c * - hi" "hi - l \<le> c * - hi"
  shows "\<bar>l - x\<bar> \<le> c * \<bar>x\<bar>"
proof -
  have "c * - hi \<le> c * \<bar>x\<bar>" using assms(2-4) by (intro mult_left_mono) auto
  then show ?thesis using assms by linarith
qed

lemma demo_log_close: "log_close demo (Fin 4611686018427387 (- 62))" "log_close demo (Fin 8301034833169297 (- 63))"
proof -
  let ?y = "4611686018427387 / 2 ^ 52 :: real"
  have "rval (Fin 4611686018427387 (- 62)) = ?y / 2 ^ 10" by (simp add: power_int_minus)
  then have "ln (rval (Fin 4611686018427387 (- 62))) = ln ?y - ln (2 ^ 10)" by (simp only: ln_div) simp
  also have "ln (2 ^ 10 :: real) = 10 * ln 2" by (simp only: ln_realpow)
  finally have v: "ln (rval (Fin 4611686018427387 (- 62))) = ln ?y - 10 * ln 2" .
  have l: "rval (Fin (- 7777441025097632) (- 50)) = - 7777441025097632 / 2 ^ 50" by (simp add: power_int_minus)
  have near: "ln (128 / 125) - 2 * (3 / 10 ^ 16) \<le> ln ?y \<and> ln ?y \<le> ln (128 / 125)" by (rule ln_near) simp_all
  have "- 6907755278982137653 / 10 ^ 18 \<le> ln ?y - 10 * ln 2 \<and> ln ?y - 10 * ln 2 \<le> - 6907755278982137052 / 10 ^ 18"
    by (rule scaled_ln [OF near demo_lns(1,2) ln_2_bounds]) simp_all
  then have "\<bar>- 7777441025097632 / 2 ^ 50 - (ln ?y - 10 * ln 2)\<bar> \<le> 1 / 2 ^ 52 * \<bar>ln ?y - 10 * ln 2\<bar>"
    by (elim conjE, intro near_negative) (assumption | simp)+
  then show "log_close demo (Fin 4611686018427387 (- 62))" by (simp only: log_close_def rel_def demo_logs v l) simp
next
  let ?y = "8301034833169297 / 2 ^ 53 :: real"
  have "rval (Fin 8301034833169297 (- 63)) = ?y / 2 ^ 10" by (simp add: power_int_minus)
  then have "ln (rval (Fin 8301034833169297 (- 63))) = ln ?y - ln (2 ^ 10)" by (simp only: ln_div) simp
  also have "ln (2 ^ 10 :: real) = 10 * ln 2" by (simp only: ln_realpow)
  finally have v: "ln (rval (Fin 8301034833169297 (- 63))) = ln ?y - 10 * ln 2" .
  have l: "rval (Fin (- 7896066419861670) (- 50)) = - 7896066419861670 / 2 ^ 50" by (simp add: power_int_minus)
  have sq: "ln (9216 / 10000 :: real) = - 2 * ln (25 / 24)"
  proof -
    have "9216 / 10000 = 1 / (25 / 24 :: real) ^ 2" by (simp add: power2_eq_square)
    then have "ln (9216 / 10000 :: real) = - ln ((25 / 24) ^ 2)" by (simp only: ln_div) simp
    then show ?thesis by (simp only: ln_realpow)
  qed
  have near: "ln (9216 / 10000) - 2 * (3 / 10 ^ 16) \<le> ln ?y \<and> ln ?y \<le> ln (9216 / 10000)" by (rule ln_near) simp_all
  have lb: "- 816439890405102591092 / 10 ^ 22 \<le> - 2 * ln (25 / 24 :: real)" "- 2 * ln (25 / 24 :: real) \<le> - 816439890405102590160 / 10 ^ 22"
    using demo_lns(3,4) by simp_all
  have "- 7013115794639963954 / 10 ^ 18 \<le> ln ?y - 10 * ln 2 \<and> ln ?y - 10 * ln 2 \<le> - 7013115794639963353 / 10 ^ 18"
    by (rule scaled_ln [OF near [unfolded sq] lb ln_2_bounds]) simp_all
  then have "\<bar>- 7896066419861670 / 2 ^ 50 - (ln ?y - 10 * ln 2)\<bar> \<le> 1 / 2 ^ 52 * \<bar>ln ?y - 10 * ln 2\<bar>"
    by (elim conjE, intro near_negative) (assumption | simp)+
  then show "log_close demo (Fin 8301034833169297 (- 63))" by (simp only: log_close_def rel_def demo_logs v l) simp
qed

lemma demo_pow: "Pow demo DefaultR (f64_of_int (int 0)) = 1" "Pow demo DefaultR (f64_of_int (int 1)) = DefaultR"
  "Pow demo DefaultS (f64_of_int (int 0)) = 1" "Pow demo DefaultS (f64_of_int (int 1)) = DefaultS"
  by code_simp+

lemma demo_pow_close: "i < 2 \<Longrightarrow> pow_close demo i"
  using demo_pow DefaultR_value(1) DefaultS_value(1,2) by (auto simp: pow_close_def less_2_cases_iff intro: rel_exact)

lemma demo_p_value: "finite64 demo_p" "rval demo_p = 5764607523034235 / 2 ^ 59"
proof -
  have v: "demo_p = Fin 5764607523034235 (- 59)" by code_simp
  show "finite64 demo_p" "rval demo_p = 5764607523034235 / 2 ^ 59" by (simp_all add: v power_int_minus)
qed

section \<open>The error rate of a filter\<close>

text \<open>
  C6 A filter keeps its error rate. With \<open>math.Log\<close> and \<open>math.Pow\<close> as accurate as they are meant to be,
  every stage of a filter for \<open>n\<close> items at rate \<open>p\<close> has room for \<open>n * 2^i\<close> items, and when all stages are
  full, the estimate \<open>1 - \<Prod> (1 - (1 - exp (- k n / m))^k)\<close> of the chance that an item which was not added
  is reported exceeds \<open>p\<close> by at most 7 percent, however many stages there are.
\<close>

theorem filter_keeps_error_rate:
  assumes "finite64 p" "2 powi (- 900) \<le> rval p" "rval p < 1"
    and "n \<noteq> 0" "uint n * 2 ^ L \<le> 2 ^ 50"
    and "\<And>i. i < L \<Longrightarrow> pow_close P i"
    and "\<And>i pi. i < L \<Longrightarrow> StageError P p (int i) [DefaultR] = Ok pi \<Longrightarrow> log_close P pi"
  shows "\<exists>sts. length sts = L
    \<and> (\<forall>i < L. computeStage P n p DefaultR DefaultS (int i) = Ok (sts ! i) \<and> uint (st_capacity (sts ! i)) = uint n * 2 ^ i)
    \<and> 1 - (\<Prod>st\<leftarrow>sts. 1 - stage_rate st) \<le> 107 / 100 * rval p"
proof -
  let ?ok = "\<lambda>i st. computeStage P n p DefaultR DefaultS (int i) = Ok st \<and> uint (st_capacity st) = uint n * 2 ^ i
    \<and> 0 \<le> stage_rate st \<and> stage_rate st \<le> 1 \<and> stage_rate st \<le> 1065 / 1000 * budget p i"
  have "1 \<le> uint n" using uint_real [OF assms(4)] by linarith
  then have "1 * 2 ^ L \<le> uint n * 2 ^ L" by (intro mult_right_mono) auto
  then have "(2 :: int) ^ L \<le> 2 ^ 50" using assms(5) by linarith
  then have L: "L \<le> 50" by (rule power_le_imp_le_exp [rotated]) simp
  have "\<exists>st. ?ok i st" if i: "i < L" for i
  proof -
    have "uint n * 2 ^ i \<le> uint n * 2 ^ L" using that by (intro mult_left_mono power_increasing) auto
    then have cap: "uint n * 2 ^ i \<le> 2 ^ 50" using assms(5) by linarith
    have "i \<le> 50" using that L by simp
    then obtain st where "?ok i st"
      using computeStage_rate [OF assms(1-3) _ assms(6) [OF i] assms(4) cap assms(7) [OF i]] by auto
    then show ?thesis by blast
  qed
  then obtain f where f: "\<And>i. i < L \<Longrightarrow> ?ok i (f i)" by metis
  let ?rs = "map (\<lambda>i. stage_rate (f i)) [0..<L]"
  have "1 - (\<Prod>st\<leftarrow>map f [0..<L]. 1 - stage_rate st) \<le> sum_list ?rs"
    using prod_budget [of ?rs] f by (simp add: comp_def)
  also have "\<dots> \<le> (\<Sum>i\<leftarrow>[0..<L]. 1065 / 1000 * budget p i)" using f by (intro sum_list_mono) simp
  also have "\<dots> = 1065 / 1000 * (\<Sum>i\<leftarrow>[0..<L]. budget p i)" by (rule sum_list_const_mult)
  also have "\<dots> \<le> 1065 / 1000 * rval p"
    using budget_sum [of p L] assms(2) two_powi_ge(1) [of "- 900"] by (intro mult_left_mono) auto
  also have "\<dots> \<le> 107 / 100 * rval p" using assms(2) two_powi_ge(1) [of "- 900"] by simp
  finally show ?thesis using f by (intro exI [of _ "map f [0..<L]"]) simp
qed

theorem filter_keeps_error_rate_witness:
  "\<exists>sts. length sts = 2 \<and> uint (st_capacity (sts ! 1)) = 2
    \<and> computeStage demo 1 demo_p DefaultR DefaultS 1 = Ok (sts ! 1)
    \<and> 1 - (\<Prod>st\<leftarrow>sts. 1 - stage_rate st) \<le> 107 / 100 * rval demo_p"
proof -
  have p: "2 powi (- 900) \<le> rval demo_p" "rval demo_p < 1"
  proof -
    have "(2 powi (- 900) :: real) \<le> 2 powi (- 10)" by (rule power_int_increasing) auto
    also have "\<dots> \<le> rval demo_p" by (simp add: demo_p_value power_int_minus)
    finally show "2 powi (- 900) \<le> rval demo_p" .
  qed (simp add: demo_p_value)
  have log: "log_close demo pi" if "i < 2" "StageError demo demo_p (int i) [DefaultR] = Ok pi" for i pi
    using that demo_budgets demo_log_close by (auto simp: less_2_cases_iff)
  have n: "(1 :: u64) \<noteq> 0" "uint (1 :: u64) * 2 ^ 2 \<le> 2 ^ 50" by simp_all
  have "\<exists>sts. length sts = 2
    \<and> (\<forall>i < 2. computeStage demo 1 demo_p DefaultR DefaultS (int i) = Ok (sts ! i) \<and> uint (st_capacity (sts ! i)) = uint (1 :: u64) * 2 ^ i)
    \<and> 1 - (\<Prod>st\<leftarrow>sts. 1 - stage_rate st) \<le> 107 / 100 * rval demo_p"
  proof (rule filter_keeps_error_rate [OF demo_p_value(1) p n])
    show "pow_close demo i" if "i < 2" for i using that by (rule demo_pow_close)
  qed (rule log)
  then obtain sts where sts: "length sts = 2"
    "\<forall>i < 2. computeStage demo 1 demo_p DefaultR DefaultS (int i) = Ok (sts ! i) \<and> uint (st_capacity (sts ! i)) = uint (1 :: u64) * 2 ^ i"
    "1 - (\<Prod>st\<leftarrow>sts. 1 - stage_rate st) \<le> 107 / 100 * rval demo_p"
    by blast
  have "computeStage demo 1 demo_p DefaultR DefaultS (int 1) = Ok (sts ! 1) \<and> uint (st_capacity (sts ! 1)) = uint (1 :: u64) * 2 ^ 1"
    using sts(2) by (elim allE [of _ 1]) simp
  then show ?thesis using sts(1,3) by (intro exI [of _ sts]) simp
qed

end
