(* ===== verification/Deadline.thy ===== *)
theory Deadline
  imports ValkeyServer ApiProps Startup
begin

text \<open>
  \<open>Timeout\<close> and \<open>NewRouter\<close>: the deadline a request gets, and what it bounds. Time is a clock in the state
  of the server, which only the calls of the client move; a client maintains a deadline when no call of it ends
  later than the deadline of its context or, if that has passed, later than it began.
\<close>

section \<open>Contexts and the router\<close>

text \<open>Of a context the calls of the client only look at the deadline, a time in nanoseconds.\<close>

type_synonym deadline = "int option"

definition WithTimeout :: "int \<Rightarrow> deadline \<Rightarrow> int \<Rightarrow> deadline" where
  "WithTimeout now parent timeout = (case parent of None \<Rightarrow> Some (now + timeout)
     | Some e \<Rightarrow> Some (min e (now + timeout)))"

definition Timeout :: "i64 \<Rightarrow> int \<Rightarrow> (deadline \<Rightarrow> 'a) \<Rightarrow> deadline \<Rightarrow> 'a" where
  "Timeout d now next ctx = next (WithTimeout now ctx (sint d))"

text \<open>
  The methods of a store take a context, so the store of a request is a function of the deadline. The
  request reaches \<open>Timeout\<close> at the time \<open>now\<close> with a context that has no deadline; the middleware before it
  does not call the store. The logger \<open>lg\<close> decides which lines of the log are written.
\<close>

definition NewRouter :: "external \<Rightarrow> platform \<Rightarrow> (deadline \<Rightarrow> 's bitstore) \<Rightarrow> (deadline \<Rightarrow> ('s, unit) call)
    \<Rightarrow> Config \<Rightarrow> logger \<Rightarrow> (nat \<Rightarrow> shard_order) \<Rightarrow> int \<Rightarrow> http_req \<Rightarrow> telemetry \<times> 's
    \<Rightarrow> (string \<times> response) \<times> (telemetry \<times> 's)" where
  "NewRouter E P vs ping cfg lg ords now rq = Timeout (cfg_RequestTimeout cfg) now
     (\<lambda>ctx. serve (E\<lparr>ex_enabled := Enabled lg\<rparr>) P (vs ctx) (ping ctx) ords (cfg_MaxBodyBytes cfg) rq) None"

section \<open>Calls that keep a predicate\<close>

definition maintains :: "('s \<Rightarrow> bool) \<Rightarrow> ('s, 'a) call \<Rightarrow> bool" where
  "maintains I c \<longleftrightarrow> (\<forall>s. I s \<longrightarrow> I (snd (c s)))"

named_theorems maintains_intros \<open>calls that keep a predicate of the state\<close>

lemma maintainsD: "maintains I c \<Longrightarrow> I s \<Longrightarrow> c s = (r, t) \<Longrightarrow> I t"
  unfolding maintains_def by (metis snd_conv)

lemma maintainsI: "(\<And>s r t. I s \<Longrightarrow> c s = (r, t) \<Longrightarrow> I t) \<Longrightarrow> maintains I c"
  unfolding maintains_def by (metis prod.collapse)

lemma maintains_basic [maintains_intros]: "maintains I (returnC x)" "maintains I (resC r)" "maintains I (\<lambda>s. (r, s))"
  by (simp_all add: maintains_def)

lemma maintains_bindC [maintains_intros]: "maintains I c \<Longrightarrow> (\<And>x. maintains I (f x)) \<Longrightarrow> maintains I (bindC c f)"
  by (rule maintainsI) (auto elim!: bindC_cases dest: maintainsD)

lemma maintains_catchC [maintains_intros]: "maintains I c \<Longrightarrow> (\<And>e. maintains I (h e)) \<Longrightarrow> maintains I (catchC c h)"
  by (rule maintainsI) (auto elim!: catchC_cases dest: maintainsD)

lemma maintains_wrapC [maintains_intros]: "maintains I c \<Longrightarrow> maintains I (wrapC p c)"
  by (rule maintainsI) (auto elim!: wrapC_cases dest: maintainsD)

lemma maintains_mapErrC [maintains_intros]: "maintains I c \<Longrightarrow> maintains I (mapErrC c)"
  unfolding mapErrC_def by (intro maintains_intros)

lemma maintains_structure [maintains_intros]:
  "(\<And>a b. maintains I (f' a b)) \<Longrightarrow> maintains I (case xy of (a, b) \<Rightarrow> f' a b)"
  "maintains I c \<Longrightarrow> maintains I d \<Longrightarrow> maintains I (if b then c else d)"
  "maintains I (f x) \<Longrightarrow> maintains I (let y = x in f y)"
  by (cases xy; simp)+

text \<open>A call of a service or a handler is on a pair; the predicate speaks of the store.\<close>

lemma maintains_onStore [maintains_intros]: "maintains I c \<Longrightarrow> maintains (\<lambda>x. I (snd x)) (onStore c)"
  by (simp add: maintains_def onStore_def split: prod.split) (metis snd_conv)

lemma maintains_withFilter [maintains_intros]: "maintains (\<lambda>x. I (snd x)) c \<Longrightarrow> maintains I (withFilter f c)"
  by (simp add: maintains_def withFilter_def split: prod.split) (metis snd_conv)

lemma maintains_traced [maintains_intros]: "maintains (\<lambda>x. I (snd x)) c \<Longrightarrow> maintains (\<lambda>x. I (snd x)) (traced span op c)"
  by (simp add: maintains_def traced_def split: prod.split) (metis snd_conv)

lemma maintains_own [maintains_intros]:
  "maintains (\<lambda>x. I (snd x)) getF" "maintains (\<lambda>x. I (snd x)) (putF f)" "maintains (\<lambda>x. I (snd x)) (logC E lvl l)"
  "maintains (\<lambda>x. I (snd x)) (\<lambda>(tm, s). (Ok (), (g tm, s)))"
  by (simp_all add: maintains_def getF_def putF_def logC_def split: prod.split)

section \<open>The operations on a store that keeps the predicate\<close>

definition store_maintains :: "('s \<Rightarrow> bool) \<Rightarrow> 's bitstore \<Rightarrow> bool" where
  "store_maintains I B \<longleftrightarrow> (\<forall>k os. maintains I (SetBits B k os)) \<and> (\<forall>k os. maintains I (GetBits B k os))
     \<and> (\<forall>k. maintains I (HGetAll B k)) \<and> (\<forall>k fs. maintains I (HSet B k fs)) \<and> (\<forall>k. maintains I (Incr B k))
     \<and> (\<forall>k. maintains I (Get B k)) \<and> (\<forall>k ms. maintains I (SAdd B k ms)) \<and> (\<forall>k ms. maintains I (SRem B k ms))
     \<and> (\<forall>k. maintains I (SMembers B k)) \<and> (\<forall>ks. maintains I (Del B ks))
     \<and> (\<forall>mk x fs nk. maintains I (AppendStage B mk x fs nk))"

lemma maintains_methods [maintains_intros]:
  assumes "store_maintains I B"
  shows "maintains I (SetBits B k os)" "maintains I (GetBits B k os)" "maintains I (HGetAll B k)" "maintains I (HSet B k fs)"
    "maintains I (Incr B k)" "maintains I (Get B k)" "maintains I (SAdd B k ms)" "maintains I (SRem B k ms)"
    "maintains I (SMembers B k)" "maintains I (Del B ks)" "maintains I (AppendStage B mk x fs nk)"
  using assms by (simp_all add: store_maintains_def)

lemma maintains_set_groups [maintains_intros]:
  assumes "store_maintains I B"
  shows "maintains I (set_groups B name i gs)"
proof (induction gs)
  case (Cons g gs)
  show ?case by (cases g) (simp only: set_groups.simps, (intro maintains_intros assms Cons.IH))
qed (simp only: set_groups.simps maintains_intros)

lemma maintains_load_stage [maintains_intros]: "store_maintains I B \<Longrightarrow> maintains I (load_stage B name i)"
  unfolding load_stage_def by (intro maintains_intros)

lemma maintains_load_loop [maintains_intros]:
  assumes "store_maintains I B"
  shows "maintains I (load_loop B name i n)"
proof (induction n arbitrary: i)
  case (Suc n)
  show ?case by (simp only: load_loop.simps) (intro maintains_intros assms Suc.IH)
qed (simp only: load_loop.simps maintains_intros)

lemma maintains_Load [maintains_intros]: "store_maintains I B \<Longrightarrow> maintains I (Load P B name)"
  unfolding Load_def by (intro maintains_intros)

lemma maintains_New [maintains_intros]: "store_maintains I B \<Longrightarrow> maintains I (New P B now name n p)"
  unfolding New_def by (intro maintains_intros)

lemma maintains_appendNewStage [maintains_intros]: "store_maintains I B \<Longrightarrow> maintains (\<lambda>x. I (snd x)) (appendNewStage P B)"
  unfolding appendNewStage_def reload_def by (intro maintains_intros)

lemma maintains_Add [maintains_intros]: "store_maintains I B \<Longrightarrow> maintains (\<lambda>x. I (snd x)) (Add P B ord item)"
  unfolding Add_def by (intro maintains_intros)

lemma maintains_groups_all_set [maintains_intros]:
  assumes "store_maintains I B"
  shows "maintains I (groups_all_set B name i gs)"
proof (induction gs)
  case (Cons g gs)
  show ?case by (cases g) (simp only: groups_all_set.simps, (intro maintains_intros assms Cons.IH))
qed (simp only: groups_all_set.simps maintains_intros)

lemma maintains_exists_loop [maintains_intros]:
  assumes "store_maintains I B"
  shows "maintains I (exists_loop B ords name h1 h2 sts)"
proof (induction sts)
  case (Cons st sts)
  show ?case by (simp only: exists_loop.simps) (intro maintains_intros assms Cons.IH)
qed (simp only: exists_loop.simps maintains_intros)

lemma maintains_service [maintains_intros]:
  assumes "store_maintains I B"
  shows "maintains (\<lambda>x. I (snd x)) (Create P B now name n p)" "maintains (\<lambda>x. I (snd x)) (SvcAdd P B ord name item)"
    "maintains (\<lambda>x. I (snd x)) (SvcExists P B ords name item)" "maintains (\<lambda>x. I (snd x)) (SvcStats P B name)"
    "maintains (\<lambda>x. I (snd x)) (Delete P B name)"
  unfolding Create_def SvcAdd_def SvcExists_def SvcStats_def Delete_def Exists_def Drop_def
  by (intro maintains_intros assms)+

section \<open>The HTTP layer\<close>

lemma maintains_answer [maintains_intros]: "maintains (\<lambda>x. I (snd x)) c \<Longrightarrow> maintains (\<lambda>x. I (snd x)) (answer E cid c f)"
  unfolding answer_def mapError_def by (intro maintains_intros)

lemma maintains_wrappers [maintains_intros]:
  "(\<And>x. maintains I (f x)) \<Longrightarrow> maintains I (bound E cid r f)"
  "(\<And>x. maintains I (f' x)) \<Longrightarrow> maintains I (bind_or_400 E cid what r' f')"
  "maintains I c \<Longrightarrow> maintains I (correlation_param E cid rq c)" "maintains I c \<Longrightarrow> maintains I (validated E cid rq c)"
  unfolding bound_def bind_or_400_def correlation_param_def validated_def
  by (auto split: res.split list.split option.split intro: maintains_intros)

lemma maintains_dispatch:
  assumes "store_maintains I B" "maintains I ping"
  shows "maintains (\<lambda>x. I (snd x)) (dispatch E P B ping ords cid rq)"
  unfolding dispatch_def HealthzHandler_def ReadyzHandler_def openapiDoc_def docsRedirect_def
    wrapCreateFilter_def wrapDeleteFilter_def wrapGetFilter_def wrapAddItem_def wrapCheckItem_def
    CreateFilter_def DeleteFilter_def GetFilter_def AddItem_def CheckItem_def
  by (cases "hr_route rq"; simp only: route.case) (intro maintains_intros assms)+

lemma maintains_serve:
  assumes "store_maintains I B" "maintains I ping" "I s"
    and "serve E P B ping ords limit rq (tm, s) = (out, (tm', t))"
  shows "I t"
proof -
  let ?d = "dispatch E P B ping ords (CorrelationID E rq) (BodyLimit limit rq)"
  obtain r tm1 u where d: "?d (tm, s) = (r, (tm1, u))" by (metis surj_pair)
  have "I u" using maintainsD [OF maintains_dispatch [OF assms(1,2)] _ d] assms(3) by simp
  moreover have "u = t"
    using assms(4) d by (cases r) (auto simp: serve_def HTTPMetrics_def RequestLogger_def recoveryHandler_def logC_def write_line_def Let_def)
  ultimately show ?thesis by simp
qed

section \<open>Clients that keep deadlines\<close>

text \<open>
  What the client library documents of the context of a call: \<open>Do\<close>, \<open>DoMulti\<close> and \<open>Exec\<close> do not go on
  after its deadline, whether they have an answer then or not.
\<close>

definition in_time :: "('s \<Rightarrow> int) \<Rightarrow> int \<Rightarrow> 's \<Rightarrow> 's \<Rightarrow> bool" where
  "in_time clock e s t \<longleftrightarrow> clock t \<le> max (clock s) e"

locale deadline_client =
  fixes C :: "deadline \<Rightarrow> ('s, 'r) valkey_client" and clock :: "'s \<Rightarrow> int"
  assumes Do_in_time: "\<And>e c s resp t. vc_Do (C (Some e)) c s = (resp, t) \<Longrightarrow> in_time clock e s t"
    and DoMulti_in_time: "\<And>e cs s resps t. vc_DoMulti (C (Some e)) cs s = (resps, t) \<Longrightarrow> in_time clock e s t"
    and Exec_in_time: "\<And>e f keys argv s resp t. vc_Exec (C (Some e)) f keys argv s = (resp, t) \<Longrightarrow> in_time clock e s t"
begin

text \<open>Then no method of \<open>ValkeyStore\<close> takes the clock past a bound that is not before the deadline.\<close>

lemma maintains_doCmd: "e \<le> b \<Longrightarrow> maintains (\<lambda>s. clock s \<le> b) (doCmd (C (Some e)) cmd parse)"
  by (rule maintainsI) (auto simp: doCmd_def in_time_def split: prod.splits dest!: Do_in_time)

lemma maintains_DoMulti:
  "e \<le> b \<Longrightarrow> maintains (\<lambda>s. clock s \<le> b) (\<lambda>s. case vc_DoMulti (C (Some e)) cs s of (resps, t) \<Rightarrow> (parse resps, t))"
  by (rule maintainsI) (auto simp: in_time_def split: prod.splits dest!: DoMulti_in_time)

lemma maintains_Exec:
  "e \<le> b \<Longrightarrow> maintains (\<lambda>s. clock s \<le> b) (\<lambda>s. case vc_Exec (C (Some e)) f keys argv s of (resp, t) \<Rightarrow> (parse resp, t))"
  by (rule maintainsI) (auto simp: in_time_def split: prod.splits dest!: Exec_in_time)

lemma maintains_startSpan:
  "maintains I c \<Longrightarrow> maintains (\<lambda>x. I (snd x)) (startSpan op c)"
  by (simp add: maintains_def startSpan_def split: prod.split) (metis snd_conv)

lemma ValkeyStore_maintains:
  "e \<le> b \<Longrightarrow> store_maintains (\<lambda>x. clock (snd x) \<le> b) (ValkeyStore (C (Some e)) R ord)"
  "e \<le> b \<Longrightarrow> maintains (\<lambda>x. clock (snd x) \<le> b) (vs_Ping (C (Some e)))"
  unfolding store_maintains_def ValkeyStore_def vs_Ping_def
  by (auto simp: vs_SetBits_def vs_GetBits_def vs_HGetAll_def vs_HSet_def vs_Incr_def vs_Get_def vs_SAdd_def
      vs_SRem_def vs_SMembers_def vs_Del_def vs_AppendStage_def Let_def
      intro!: maintains_basic maintains_onStore maintains_startSpan maintains_doCmd maintains_DoMulti maintains_Exec)

lemma request_in_time:
  assumes "NewRouter E P (\<lambda>ctx. ValkeyStore (C ctx) R ord) (\<lambda>ctx. vs_Ping (C ctx)) cfg lg ords (clock s) rq (tm, (sp, s))
      = (out, (tm', (sp', t)))"
  shows "clock t \<le> clock s + max 0 (sint (cfg_RequestTimeout cfg))"
proof -
  let ?e = "clock s + sint (cfg_RequestTimeout cfg)" and ?b = "clock s + max 0 (sint (cfg_RequestTimeout cfg))"
  have e: "?e \<le> ?b" by simp
  have run: "serve (E\<lparr>ex_enabled := Enabled lg\<rparr>) P (ValkeyStore (C (Some ?e)) R ord) (vs_Ping (C (Some ?e))) ords
      (cfg_MaxBodyBytes cfg) rq (tm, (sp, s)) = (out, (tm', (sp', t)))"
    using assms by (simp add: NewRouter_def Timeout_def WithTimeout_def)
  have "clock (snd (sp', t)) \<le> ?b"
    by (rule maintains_serve [OF ValkeyStore_maintains [OF e] _ run]) simp
  then show ?thesis by simp
qed

end

section \<open>A slow server\<close>

text \<open>
  The reference server with a clock: a command takes \<open>latency\<close>, and when the deadline is nearer than that the
  client waits for the deadline and reports an error.
\<close>

type_synonym slow_server = "int \<times> server"

definition late :: "int \<Rightarrow> deadline \<Rightarrow> int \<Rightarrow> int option" where
  "late latency ctx now = (case ctx of None \<Rightarrow> None
     | Some e \<Rightarrow> if e < now + latency then Some (max now e) else None)"

definition slow_Do :: "int \<Rightarrow> deadline \<Rightarrow> command \<Rightarrow> slow_server \<Rightarrow> resp \<times> slow_server" where
  "slow_Do latency ctx c = (\<lambda>(now, s). case late latency ctx now of
     Some e \<Rightarrow> (RespError ''context deadline exceeded'', (e, s))
   | None \<Rightarrow> (case ref_Do c s of (r, t) \<Rightarrow> (r, (now + latency, t))))"

fun slow_DoMulti :: "int \<Rightarrow> deadline \<Rightarrow> command list \<Rightarrow> slow_server \<Rightarrow> resp list \<times> slow_server" where
  "slow_DoMulti latency ctx [] s = ([], s)"
| "slow_DoMulti latency ctx (c # cs) s = (case slow_Do latency ctx c s of (r, t) \<Rightarrow>
     case slow_DoMulti latency ctx cs t of (rs, u) \<Rightarrow> (r # rs, u))"

definition slow_Exec :: "int \<Rightarrow> deadline \<Rightarrow> slow_server script \<Rightarrow> string list \<Rightarrow> string list
    \<Rightarrow> slow_server \<Rightarrow> resp \<times> slow_server" where
  "slow_Exec latency ctx f keys argv = (\<lambda>(now, s). case late latency ctx now of
     Some e \<Rightarrow> (RespError ''context deadline exceeded'', (e, s))
   | None \<Rightarrow> (case f keys argv (now, s) of (r, (_, t)) \<Rightarrow> (resp_of resp_of_lua r, (now + latency, t))))"

definition slowClient :: "int \<Rightarrow> deadline \<Rightarrow> (slow_server, resp) valkey_client" where
  "slowClient latency ctx = \<lparr>vc_Do = slow_Do latency ctx, vc_DoMulti = slow_DoMulti latency ctx,
     vc_Exec = slow_Exec latency ctx, vr_Error = resp_error,
     vr_AsInt64 = resp_as resp_int, vr_AsStrMap = resp_as resp_map, vr_ToString = resp_as resp_string,
     vr_AsStrSlice = resp_as resp_array, vc_IsValkeyNil = (\<lambda>e. e = valkey_nil)\<rparr>"

lemma slowClient_sel [simp]:
  "vc_Do (slowClient latency ctx) = slow_Do latency ctx" "vc_DoMulti (slowClient latency ctx) = slow_DoMulti latency ctx"
  "vc_Exec (slowClient latency ctx) = slow_Exec latency ctx" "vr_Error (slowClient latency ctx) = vr_Error refClient"
  "vr_AsInt64 (slowClient latency ctx) = vr_AsInt64 refClient" "vr_AsStrMap (slowClient latency ctx) = vr_AsStrMap refClient"
  "vr_ToString (slowClient latency ctx) = vr_ToString refClient"
  "vr_AsStrSlice (slowClient latency ctx) = vr_AsStrSlice refClient"
  "vc_IsValkeyNil (slowClient latency ctx) = vc_IsValkeyNil refClient"
  by (simp_all add: slowClient_def refClient_def)

lemma late_bounds: "late latency (Some e) now = Some d \<Longrightarrow> d = max now e"
  "late latency (Some e) now = None \<Longrightarrow> now + latency \<le> e"
  by (simp_all add: late_def split: if_splits)

lemma slow_Do_in_time: "slow_Do latency (Some e) c s = (r, t) \<Longrightarrow> in_time fst e s t"
  by (auto simp: slow_Do_def in_time_def split: prod.splits option.splits dest!: late_bounds)

lemma slow_DoMulti_in_time: "slow_DoMulti latency (Some e) cs s = (rs, t) \<Longrightarrow> in_time fst e s t"
proof (induction cs arbitrary: s rs)
  case (Cons c cs)
  obtain r u where c: "slow_Do latency (Some e) c s = (r, u)" by (metis surj_pair)
  obtain rest where "slow_DoMulti latency (Some e) cs u = (rest, t)"
    using Cons.prems c by (auto split: prod.splits)
  then show ?case using slow_Do_in_time [OF c] Cons.IH by (fastforce simp: in_time_def)
qed (simp add: in_time_def)

interpretation slow: deadline_client "slowClient latency" fst for latency
proof (unfold_locales, goal_cases)
  case (3 e f keys argv s resp t)
  then show ?case
    by (auto simp: slow_Exec_def in_time_def split: prod.splits option.splits dest!: late_bounds)
qed (simp_all add: slow_Do_in_time slow_DoMulti_in_time)

text \<open>
  A deadline that passes is one of the failures the contract of the client allows: whatever the deadline of a
  call, the slow server does what is documented, so what is proved of every failing store holds with timeouts.
\<close>

definition slowCalls :: "slow_server redis_calls" where
  "slowCalls = \<lparr>rc_HGET = \<lambda>k f. onStore (ref_HGET k f), rc_HSET = \<lambda>k f x. onStore (ref_HSET k f x),
     rc_HINCRBY = \<lambda>k f d. onStore (ref_HINCRBY k f d)\<rparr>"

definition slow_view :: "slow_server \<Rightarrow> view" where
  "slow_view s = ref_view (snd s)"

lemma slow_reads [simp]:
  "reports (slowClient latency ctx) = reports refClient" "replies (slowClient latency ctx) = replies refClient"
  "script_reply (slowClient latency ctx) = script_reply refClient"
proof -
  show "reports (slowClient latency ctx) = reports refClient"
    by (intro ext) (simp only: reports_def slowClient_sel)
  show "replies (slowClient latency ctx) = replies refClient"
  proof (intro ext)
    fix c v r show "replies (slowClient latency ctx) c v r = replies refClient c v r"
      by (cases c) (simp_all split: option.split del: refClient_sel)
  qed
  show "script_reply (slowClient latency ctx) = script_reply refClient"
  proof (intro ext)
    fix a r show "script_reply (slowClient latency ctx) a r = script_reply refClient a r"
      by (cases "(slowClient latency ctx, a, r)" rule: script_reply.cases) (simp_all del: refClient_sel)
  qed
qed

lemma slow_Do_law:
  assumes "slow_Do latency ctx c s = (r, t)"
  shows "outcome (slowClient latency ctx) slow_view c s r t"
proof (cases "late latency ctx (fst s)")
  case (Some e)
  then show ?thesis
    using assms refused by (cases s) (auto simp: slow_Do_def outcome_def slow_view_def)
next
  case None
  then obtain u where "ref_Do c (snd s) = (r, u)" "snd t = u"
    using assms by (cases s) (auto simp: slow_Do_def split: prod.splits)
  then show ?thesis using ref_Do_law [of c "snd s" r u] by (simp add: outcome_def slow_view_def)
qed

lemma slow_DoMulti_law: "slow_DoMulti latency ctx cs s = (rs, t) \<Longrightarrow> outcomes (slowClient latency ctx) slow_view cs s rs t"
proof (induction cs arbitrary: s rs)
  case (Cons c cs)
  obtain r u where "slow_Do latency ctx c s = (r, u)" by (metis surj_pair)
  moreover obtain rest where "slow_DoMulti latency ctx cs u = (rest, t)" "rs = r # rest"
    using Cons.prems calculation by (auto split: prod.splits)
  ultimately have "rs = r # rest \<and> outcome (slowClient latency ctx) slow_view c s r u
      \<and> outcomes (slowClient latency ctx) slow_view cs u rest t"
    using slow_Do_law Cons.IH by blast
  then show ?case unfolding outcomes.simps by blast
qed simp

lemma onStore_law: "onStore c s = (r, t) \<Longrightarrow> c (snd s) = (r, snd t)"
  by (cases s) (auto simp: onStore_def split: prod.splits)

interpretation slow_contract: valkey_client "slowClient latency ctx" slowCalls slow_view for latency ctx
proof (unfold_locales, goal_cases)
  case (1 c s resp t)
  then show ?case using slow_Do_law by simp
next
  case (2 cs s resps t)
  then show ?case using slow_DoMulti_law by simp
next
  case (3 k f s r t)
  then show ?case using ref.HGET_law [of k f "snd s" r "snd t"]
    by (auto simp: slowCalls_def slow_view_def dest!: onStore_law)
next
  case (4 k f x s r t)
  then show ?case using ref.HSET_law [of k f x "snd s" r "snd t"]
    by (auto simp: slowCalls_def slow_view_def dest!: onStore_law)
next
  case (5 k f n c s r t)
  then show ?case using ref.HINCRBY_law [of k f n "snd s" r "snd t" c]
    by (auto simp: slowCalls_def slow_view_def dest!: onStore_law)
next
  case (6 f keys argv s resp t)
  obtain r u where run: "f keys argv s = (r, u)" by (metis surj_pair)
  then show ?case using 6 refused ref_script_reply [of r]
    by (cases s; cases u) (auto simp: slow_Exec_def slow_view_def split: option.splits)
qed

section \<open>Properties\<close>


definition demo_slow :: "int \<Rightarrow> http_req \<Rightarrow> (string \<times> response) \<times> (telemetry \<times> valkey_spans \<times> slow_server)" where
  "demo_slow latency rq = NewRouter demo_ext demo (\<lambda>ctx. ValkeyStore (slowClient latency ctx) slowCalls id)
     (\<lambda>ctx. vs_Ping (slowClient latency ctx)) demo_config (pv_Log demo_providers) (\<lambda>_. id) 0 rq
     (demo_telemetry, ([], (0, (9, NewMemStore))))"

lemma default_timeout: "sint (cfg_RequestTimeout demo_config) = 5000000000"
  by code_simp


text \<open>The levels of the JSON logger, by \<open>LOG_LEVEL\<close>: a request line is written unless it is \<open>warn\<close> or \<open>error\<close>.\<close>

lemma json_writes_info: "Enabled (JSONLogger (logger_level s)) LevelInfo
    \<longleftrightarrow> map lower_char s \<noteq> ''warn'' \<and> map lower_char s \<noteq> ''error''"
  by (simp add: logger_level_def Let_def less_eq_level_def)


definition demo_logged :: "logger \<Rightarrow> (string \<times> response) \<times> (telemetry \<times> memstore)" where
  "demo_logged lg = NewRouter demo_ext demo (\<lambda>_. memStore id) (\<lambda>_. mem_Ping) demo_config lg (\<lambda>_. id) 0
     (demo_http (GetFilterName ''f'') []) (demo_telemetry, demo_corrupt)"

lemma demo_logged_500: "rp_Status (snd (fst (demo_logged lg))) = 500" "fst (fst (demo_logged lg)) = ''id-1''"
proof -
  obtain msg t where "Load demo (memStore id) ''f'' demo_corrupt = (Panic msg, t)"
    using demo_corrupt_panics by blast
  then have "SvcStats demo (memStore id) ''f'' (demo_telemetry, demo_corrupt)
      = (Panic msg, (finishSpan ''FilterService.Stats'' ''stats'' None demo_telemetry, t))"
    by (simp add: SvcStats_def traced_def mapErrC_def onStore_def bindC_def catchC_def)
  then show "rp_Status (snd (fst (demo_logged lg))) = 500" "fst (fst (demo_logged lg)) = ''id-1''"
    by (simp_all add: demo_logged_def NewRouter_def Timeout_def serve_def dispatch_def wrapGetFilter_def GetFilter_def
        demo_http_def demo_ext_def param_defs answer_def recoveryHandler_def RequestLogger_def HTTPMetrics_def
        CorrelationID_def Let_def writeError_def bindC_def catchC_def MaxBytesReader_def)
qed


end
