(* ===== verification/Spec2Isabelle.thy ===== *)
theory Spec2Isabelle
  imports ApiProps Config ValkeyServer ConcurrencyProps Process WellFormed ErrorRate Deadline
begin

text \<open>
  A verification development of toybloom, a service of scalable bloom filters over a shared bit store.

  \<^bold>\<open>The program.\<close> \<open>pkg/bloom\<close> is the filter: sizes (\<open>sizing.go\<close>), bit positions (\<open>hash.go\<close>), bitmaps cut
  into shards (\<open>shard.go\<close>), the operations on a filter and its growth by stages (\<open>filter.go\<close>) and estimates
  for the gauges (\<open>estimate.go\<close>). It keeps all state in a \<open>BitStore\<close> (\<open>pkg/store/store.go\<close>), of which
  \<open>memstore.go\<close> and \<open>valkey.go\<close> are the implementations. \<open>internal/service\<close> wraps the operations with
  spans, metrics and its own errors; \<open>internal/api\<close> serves them over HTTP behind a generated router
  (\<open>gen/gen.go\<close>) and a chain of middleware; \<open>internal/obs\<close>, \<open>internal/core\<close> and \<open>cmd/server\<close> set it up.

  \<^bold>\<open>The model.\<close> Every function of the program is a function here, with the name it has in the source where
  that is possible. A method that reads or writes the store is a call \<open>('s, 'a) call\<close> on the store's state
  (theory \<^theory_text>\<open>Prelude\<close>): it returns a value, an error or a panic, and the state it left. Go's integers are
  64-bit words or integers with explicit bounds, \<open>float64\<close> is computed exactly on integers
  (\<^theory_text>\<open>Float64\<close>), maps are finite maps or partial functions, and the order in which Go ranges over a map is an
  argument. Third-party code and the parts of the standard library whose results are not specified to the
  bit are the fields of the records \<open>platform\<close> (\<^theory_text>\<open>GoMath\<close>), \<open>external\<close> (HTTP, \<^theory_text>\<open>Api\<close>) and \<open>sdk\<close>
  (OpenTelemetry, the client and the decoders of the embedded document, \<^theory_text>\<open>Startup\<close>).

  \<^item> \<^theory_text>\<open>Strconv\<close> decimal texts and their parsers; \<^theory_text>\<open>Sizing\<close>, \<^theory_text>\<open>Hash\<close>, \<^theory_text>\<open>Shard\<close> the pure parts of the filter.
  \<^item> \<^theory_text>\<open>Store\<close> the \<open>BitStore\<close> interface: its methods as a record, and its contract as the locales
    \<open>bit_store\<close> (a store that may fail at any operation) and \<open>reliable_store\<close> (one that does not), stated over
    a \<open>view\<close> of the state and of the kinds of keys the program uses (\<open>kind_of\<close>: bits, hashes, counters, sets).
    \<^theory_text>\<open>MemStore\<close> models the in-memory store and interprets both.
  \<^item> \<^theory_text>\<open>Valkey\<close> the Valkey store with its spans and the Lua script, over a client and a server that behave as
    documented (locale \<open>valkey_client\<close>), from which the contract of the store follows; \<^theory_text>\<open>ValkeyServer\<close> is a
    server that does behave so, with calls that fail.
  \<^item> \<^theory_text>\<open>BloomFilter\<close>, \<^theory_text>\<open>Estimate\<close>, \<^theory_text>\<open>Obs\<close>, \<^theory_text>\<open>Service\<close> the filter and the service. \<^theory_text>\<open>Service\<close> ends with histories:
    \<open>svc_run\<close> is a sequence of requests with their replies.
  \<^item> \<^theory_text>\<open>Api\<close> the HTTP layer from the router to the handlers, with what it logs; \<^theory_text>\<open>Config\<close> the environment.
    \<^theory_text>\<open>Deadline\<close> is the router with the logger and the timeout of the process, over clients that keep deadlines
    (locale \<open>deadline_client\<close>). A line of the log is written when the logger's level lets it (\<open>Enabled\<close>).
  \<^item> \<^theory_text>\<open>Startup\<close> how the process comes up (\<open>internal/obs/provider.go\<close>, the instruments, \<open>main\<close> until it
    listens), and \<^theory_text>\<open>Process\<close> how it serves and stops: \<open>main_step\<close> is a step of the main goroutine, of the one
    that serves, of a request or of a signal. The shutdown after the drain goes provider by provider, so that a
    second signal, or a server that had failed, can end the process anywhere in it.

  \<^bold>\<open>The proofs.\<close> \<^theory_text>\<open>Keys\<close> separates the keys of filters, stages and shards. \<^theory_text>\<open>Evolution\<close> says how a store may
  change without a filter losing anything (\<open>keeps_filter\<close>: bits, stage count, parameters and stages); \<^theory_text>\<open>BloomSpec\<close>, \<^theory_text>\<open>BloomLaws\<close> and \<^theory_text>\<open>ServiceLaws\<close> show inside the contract that
  every operation is such an evolution, whatever it answers and wherever the store fails, from which follows
  that no filter forgets an item. \<^theory_text>\<open>AbstractSpec\<close> is a specification without keys, bits or texts;
  \<^theory_text>\<open>Refinement\<close>, \<^theory_text>\<open>RefineOps\<close> and \<^theory_text>\<open>RefineService\<close> show that on a reliable store the service implements it.
  That a filter meets the rate it was created for is arithmetic: \<^theory_text>\<open>FloatError\<close> bounds what the floats lose
  against the reals, \<^theory_text>\<open>LnBounds\<close> encloses logarithms, \<^theory_text>\<open>SizingLaws\<close> shows that the bits and hash functions
  of a stage meet its budget, and \<^theory_text>\<open>ErrorRate\<close> adds the budgets up.
  \<^theory_text>\<open>Races\<close> treats handles that race for a stage, \<^theory_text>\<open>Tracing\<close> and \<^theory_text>\<open>ApiLaws\<close> what is recorded, logged and
  answered, \<^theory_text>\<open>WellFormed\<close> the form of filter values.

  Requests that overlap are the subject of \<^theory_text>\<open>Interleaving\<close>: a request is replayed from the states that its
  store operations have found, so it is a finite program of such operations, and a configuration is the
  store with the requests in progress (\<open>sys_step\<close>). A step is one operation of the store, for bits one
  command of the pipeline; \<^theory_text>\<open>Pipeline\<close> shows that a store whose bits are set and read one by one meets the
  contract. \<^theory_text>\<open>RelyGuarantee\<close> proves for every operation of the filter
  and the service what it guarantees in each of its steps and what holds of its result when the others only
  make the store evolve; \<^theory_text>\<open>Concurrency\<close> puts the requests together, and \<^theory_text>\<open>ConcurrencyProps\<close> states what follows.
  \<^theory_text>\<open>CreateRace\<close> is the interleaving of two creations that the code does not survive. A history without overlap
  is one of the interleavings (\<open>histories_are_interleavings\<close>).

  \<^theory_text>\<open>Demo\<close> is a concrete platform with the runs the witnesses evaluate. The properties of single components
  stand in their theories, in \<^theory_text>\<open>ServiceProps\<close>, \<^theory_text>\<open>ApiProps\<close> and \<^theory_text>\<open>ConcurrencyProps\<close>; those of the whole are below.

  \<^bold>\<open>Bounds.\<close> The refinement is stated for histories of at most \<open>2^42\<close> requests: a filter then has at most
  \<open>2^42\<close> stages, whose slice fits the 48-bit address space that \<open>makeslice\<close> models. The error rate is stated for a
  last stage of at most \<open>2^50\<close> items, so that its size is below \<open>2^64\<close> bits and counts of items are exact floats,
  and for rates of at least \<open>2^-900\<close>, so that no budget is subnormal; \<open>math.Log\<close> is supposed to be within
  \<open>2^-52\<close> of the logarithm (\<open>log_close\<close>), \<open>math.Pow\<close> close at powers of 0.9 and exact at powers of two
  (\<open>pow_close\<close>). Nothing uses fuel: the
  loops of the code recurse over lists or counters, and that a request ends whatever the others do is a theorem.

  \<^bold>\<open>Not modelled.\<close> Memory that runs out below the address space; time, but for the
  deadline of a request (elsewhere a cancelled context or a timeout is an error of the store); the JSON and
  YAML encodings, the OpenAPI validator beyond its verdict, the OpenTelemetry SDK beyond the records it is given
  and the success of its constructors. Of the resource the SDK is given its options in their order, of which
  \<open>WithFromEnv\<close> lets the environment override the name and the version of the service; what it makes of them
  is its own (\<open>sdk_resource\<close>). Of the routes two kinds are left out: the Swagger UI below \<open>/docs/\<close>, a third-party
  handler, and gin's own redirections of a path that differs from a route by a slash at its end, which gin
  answers before any middleware or handler of the program runs.
\<close>

section \<open>The service\<close>

text \<open>
  C1 No false negatives. On any store that meets the contract of \<open>BitStore\<close>, failing at any point or
  not, in any history of service requests: once an \<open>Add\<close> has answered without error, no later
  \<open>Exists\<close> of the same item answers false, unless the filter was deleted in between. Requests on
  this and other filters, failed ones, growth and gauge collections may come between.
\<close>

theorem no_false_negatives:
  assumes "bit_store B view failing"
    and "svc_run P B (qs @ AddReq ord name item # qs' @ [ExistsReq ords name item]) (tm, s)
      = (rs @ AddRep (Ok ()) # rs' @ [a], u)"
    and "length rs = length qs" "length rs' = length qs'"
    and "\<forall>q \<in> set (AddReq ord name item # qs @ qs'). valid_request q"
    and "\<forall>q \<in> set qs'. name \<notin> dropped q"
    and "counts_ok (view s)"
  shows "a \<noteq> ExistsRep (Ok False)"
  using assms by (rule bit_store.no_forgotten_item)

theorem no_false_negatives_witness:
  "fst (demo_run demo_requests) =
     [CreateRep (Ok (spec_info ''f'' (demo_filter [demo_stage0 []]))), AddRep (Ok ()), AddRep (Ok ()),
      ExistsRep (Ok True)] \<and> ExistsRep (Ok True) \<noteq> ExistsRep (Ok False)"
  using demo_service no_false_negatives [OF mem.bit_store_axioms, of demo id "[demo_create_req]" id
      "''f''" item_a "[AddReq id ''f'' item_b]" "\<lambda>_. id" demo_telemetry NewMemStore
      "[CreateRep (Ok (spec_info ''f'' (demo_filter [demo_stage0 []])))]" "[AddRep (Ok ())]"
      "ExistsRep (Ok True)" "snd (demo_run demo_requests)"]
    demo_requests_ok counts_ok_NewMemStore
  by (auto simp: demo_requests_def demo_run_def valid_request_def prod_eq_iff)

text \<open>
  C2 Refinement. On a store that does not fail, the service implements the abstract specification:
  every reply of every history from an empty store is the one the specification gives, where a
  filter is its parameters and the lists of items of its stages, and the keys, shards, bitmaps,
  counters and texts in the store represent exactly that state.
\<close>

theorem service_refines_spec:
  assumes "reliable_store B view"
    and "svc_run P B qs (tm, s) = (rs, (tm', t))" "view s = empty_view"
    and "\<forall>q \<in> set qs. valid_request q \<and> typed_request q"
    and "length qs \<le> 2 ^ 42" "float_text_exact P"
  shows "\<exists>b. spec_run P qs (\<lambda>_. None) rs b \<and> sim P (length qs) (view t) b"
  using assms by (rule reliable_store.svc_run_refines)

theorem service_refines_spec_witness:
  "\<exists>b. spec_run demo demo_requests (\<lambda>_. None) (fst (demo_run demo_requests)) b
     \<and> sim demo (length demo_requests) (mem_view (snd (snd (demo_run demo_requests)))) b"
  using service_refines_spec [OF mem.reliable_store_axioms _ empty_NewMemStore, of demo id demo_requests
      demo_telemetry "fst (demo_run demo_requests)" "fst (snd (demo_run demo_requests))"
      "snd (snd (demo_run demo_requests))"] demo_requests_ok demo_text_exact
  by (simp add: demo_run_def)


text \<open>
  C7 A new filter is empty. When a \<open>Create\<close> has succeeded, at the end of any history (the same name
  may have been used and deleted before), \<open>Exists\<close> answers false for every item: nothing of an
  earlier filter is visible. (The size and the number of hash functions are ones the program can
  allocate, which the reply of \<open>Create\<close> shows.)
\<close>

theorem fresh_filter_is_empty:
  assumes "reliable_store B view" "view s = empty_view"
    and "svc_run P B (qs @ [CreateReq now name n p, ExistsReq ords name item]) (tm, s)
      = (rs @ [CreateRep (Ok info), ExistsRep r], (tm', t))" "length rs = length qs"
    and "\<forall>q \<in> set (CreateReq now name n p # qs). valid_request q \<and> typed_request q"
    and "length qs + 2 \<le> 2 ^ 42" "float_text_exact P"
    and "fi_M info \<noteq> 0" "0 < fi_K info" "8 * fi_K info \<le> 2 ^ 48"
  shows "r = Ok False"
proof -
  have "valid_request (ExistsReq ords name item)" using assms(5) by (simp add: valid_request_def)
  then obtain b where "spec_run P (qs @ [CreateReq now name n p, ExistsReq ords name item])
      (\<lambda>_. None) (rs @ [CreateRep (Ok info), ExistsRep r]) b"
    using reliable_store.svc_run_refines [OF assms(1,3,2)] assms(5,6,7) by auto
  then obtain c where "spec_run P [CreateReq now name n p, ExistsReq ords name item] c
      [CreateRep (Ok info), ExistsRep r] b"
    using spec_run_append assms(4) by blast
  then obtain F where F: "spec_create P (c name) n p = Ok F" "info = spec_info name F"
      "r = mapErrR (spec_exists P item (rev (af_stages F)))"
    by (cases "spec_create P (c name) n p") (auto simp: spec_find_def)
  then obtain st where st: "af_stages F = [empty_stage st]"
    by (auto simp: spec_create_def bindR_Ok_iff split: if_splits)
  obtain h1 h2 where h: "hashParts P item = (h1, h2)" by fastforce
  obtain ps where ps: "positions h1 h2 (st_m st) (st_k st) = Ok ps" "ps \<noteq> []"
    using assms(8-10) F(2) st by (auto simp: spec_info_def positions_Ok_iff)
  then show ?thesis using F(3) st h by (simp add: item_positions_def)
qed

theorem fresh_filter_is_empty_witness:
  "\<exists>r. fst (demo_run demo_again) ! 6 = ExistsRep r \<and> r = Ok False"
proof -
  let ?qs = "demo_requests @ [DeleteReq ''f'']" and ?rs = "demo_replies @ [DeleteRep (Ok ())]"
  let ?info = "spec_info ''f'' (demo_filter [demo_stage0 []])"
  obtain r where r: "fst (demo_run demo_again) = ?rs @ [CreateRep (Ok ?info), ExistsRep r]"
    using demo_service_again by simp
  then have run: "svc_run demo (memStore id)
      (?qs @ [CreateReq ''now'' ''f'' 1 demo_p, ExistsReq (\<lambda>_. id) ''f'' item_a]) (demo_telemetry, NewMemStore)
      = (?rs @ [CreateRep (Ok ?info), ExistsRep r],
         (fst (snd (demo_run demo_again)), snd (snd (demo_run demo_again))))"
    by (simp add: demo_run_def demo_again_def prod_eq_iff)
  have "r = Ok False"
    by (rule fresh_filter_is_empty [OF mem.reliable_store_axioms empty_NewMemStore run])
      (auto simp: demo_requests_def demo_replies_def demo_requests_ok(3) valid_request_def demo_p_ok
        demo_text_exact spec_info_def demo_filter_stages demo_stage0_def)
  then show ?thesis using r by (simp add: demo_replies_def)
qed

text \<open>
  C8 \<open>Delete\<close> is complete. After a successful \<open>Delete\<close> at the end of any history the store holds
  nothing of the filter: no metadata, no stage, no counter, no bit of any shard, no registry entry.
\<close>

theorem deleted_filter_leaves_nothing:
  assumes "reliable_store B view" "view s = empty_view"
    and "svc_run P B (qs @ [DeleteReq name]) (tm, s) = (rs @ [DeleteRep (Ok ())], (tm', t))"
    and "\<forall>q \<in> set (DeleteReq name # qs). valid_request q \<and> typed_request q"
    and "length qs + 1 \<le> 2 ^ 42" "float_text_exact P"
  shows "name \<notin> vset (view t) registryKey \<and> vhash (view t) (metaKey name) = fmempty
    \<and> vhash (view t) (stageMetaKey name i) = fmempty \<and> vctr (view t) (fillKey name i) = None
    \<and> vbits (view t) (shardKey name i sh) = {}"
proof -
  have len: "length rs = length qs" using svc_run_length [OF assms(3)] by simp
  obtain b where b: "spec_run P (qs @ [DeleteReq name]) (\<lambda>_. None) (rs @ [DeleteRep (Ok ())]) b"
      "sim P (Suc (length qs)) (view t) b"
    using reliable_store.svc_run_refines [OF assms(1,3,2)] assms(4,5,6) by auto
  then obtain c where "spec_run P [DeleteReq name] c [DeleteRep (Ok ())] b"
    using spec_run_append len by blast
  then have "b name = None" by auto
  moreover have "valid_name name" using assms(4) by (simp add: valid_request_def)
  then have "filter_sim P (view t) name (b name)" using b(2) by (simp add: sim_def)
  ultimately show ?thesis using b(2) by (auto simp: filter_sim_def meta_sim_def stages_of_def sim_def)
qed


theorem deleted_filter_leaves_nothing_witness:
  "vhash (mem_view (snd (snd (demo_run (demo_requests @ [DeleteReq ''f'']))))) (metaKey ''f'') = fmempty"
  using deleted_filter_leaves_nothing [OF mem.reliable_store_axioms empty_NewMemStore
      demo_run_eq [OF demo_delete]] demo_requests_ok demo_text_exact
  by (simp add: valid_request_def demo_requests_def)

text \<open>
  C9 Isolation. Whatever a service request answers, and wherever the store fails while it runs, no
  filter other than the one it deletes loses anything: its set bits stay set, its stage count does not
  shrink, every other field of its metadata (\<open>n\<close>, \<open>p\<close>, \<open>r\<close>, \<open>s\<close>, \<open>created_at\<close>) and the metadata of all its
  stages keep their texts, and every stored stage count keeps the form that the atomic append compares.
\<close>

theorem requests_keep_other_filters:
  assumes "bit_store B view failing" "svc_step P B q (tm, s) = (a, (tm', t))" "valid_request q"
    and "counts_ok (view s)"
  shows "counts_ok (view t)
    \<and> (\<forall>name. valid_name name \<longrightarrow> name \<notin> dropped q \<longrightarrow> keeps_filter name (view s) (view t))"
  using bit_store.svc_step_evolves [OF assms(1-3)] assms(4) by (simp add: evolves_def)

theorem requests_keep_other_filters_witness:
  "keeps_filter ''g'' (mem_view demo_created)
     (mem_view (snd (snd (svc_step demo (memStore id) (DeleteReq ''f'') (demo_telemetry, demo_created)))))"
  using requests_keep_other_filters [OF mem.bit_store_axioms, of demo id "DeleteReq ''f''" demo_telemetry
      demo_created] demo_counts demo_requests_ok(3)
  by (cases "svc_step demo (memStore id) (DeleteReq ''f'') (demo_telemetry, demo_created)")
    (auto simp: valid_request_def valid_name_def)

text \<open>
  C5 Concurrent use. A filter value may be stale: after it was loaded others may have added items and
  appended stages. An \<open>Add\<close> through it that returns without error is still seen by whoever loads the
  filter later, also after further interference, on a store that may fail.
\<close>

theorem add_through_stale_handle:
  assumes "bit_store B view failing" "handle (view s0) f" "counts_ok (view s0)"
    and "evolves {} (view s0) (view s)"
    and "Add P B ord item (f, s) = (Ok (), (f', t))"
    and "evolves {} (view t) (view t1)"
    and "Load P B (f_name f) t1 = (Ok g, t2)" "Exists P B ords item g t2 = (Ok b, u)"
  shows b
proof -
  have c: "counts_ok (view s)" "handle (view s) f"
    using counts_ok_evolves [OF assms(3,4)] handle_evolves [OF assms(2,4,3)] by auto
  then have f: "valid_name (f_name f)" "40 * int (length (f_stages f)) \<le> 2 ^ 48"
    by (simp_all add: handle_def)
  have law: "evolves {} (view s) (view t)" "present P (view t) (f_name f) item"
    using bit_store.Add_law [OF assms(1,5) f] c by auto
  have "present P (view t1) (f_name f) item"
    using present_evolves [OF law(2) assms(6) counts_ok_evolves [OF c(1) law(1)] f(1)] by simp
  moreover have g: "view t2 = view t1" "Load_view P (view t1) (f_name f) = Ok g"
    using bit_store.Load_Ok [OF assms(1,7)] by auto
  moreover have "Exists_view P (view t1) item g = Ok b"
    using readsD [OF bit_store.reads_Exists [OF assms(1)] assms(8)] g(1) by auto
  ultimately show b
    using Load_view_present Exists_view_Ok Load_view_Ok(1) [OF g(2)] by metis
qed

theorem add_through_stale_handle_witness:
  "\<exists>g t2 b u. Load demo (memStore id) ''f'' (snd (snd demo_added)) = (Ok g, t2)
     \<and> Exists demo (memStore id) (\<lambda>_. id) item_a g t2 = (Ok b, u) \<and> b"
proof -
  obtain g t2 b u where run: "Load demo (memStore id) ''f'' (snd (snd demo_added)) = (Ok g, t2)"
      "Exists demo (memStore id) (\<lambda>_. id) item_a g t2 = (Ok b, u)"
    using demo_added_read by blast
  have "Add demo (memStore id) id item_a (demo_handle, demo_created)
      = (Ok (), (fst (snd demo_added), snd (snd demo_added)))"
    using demo_added_sim(1) unfolding demo_added_def by (simp add: prod_eq_iff)
  from add_through_stale_handle [OF mem.bit_store_axioms demo_handle_ok demo_counts evolves_refl this
      evolves_refl _ run(2)] run show ?thesis by (auto simp: demo_handle_def concrete_filter_def)
qed

text \<open>
  C25 A filter reads back as it was created: after a successful \<open>New\<close> on a name with no keys, \<open>Load\<close>
  returns the very filter \<open>New\<close> returned.
\<close>

theorem load_after_create:
  assumes "reliable_store B view" "filter_sim P (view s) name None" "valid_name name"
    and "float_text_exact P" "f64_ok p"
    and "New P B now name n p s = (Ok f, t)" "Load P B name t = (r, u)"
  shows "r = Ok f"
proof -
  obtain F where F: "spec_create P None n p = Ok F" "f = concrete_filter name F"
      "filter_sim P (view t) name (Some F)"
    using reliable_store.New_sim [OF assms(1,6,2,3)] by (auto split: res.splits)
  have "Load_view P (view t) name = Ok f"
    using Load_view_filter [OF F(3) assms(3) _ assms(4), of 1] spec_create_ok [OF F(1) assms(5)] F(2)
    by simp
  moreover have "bit_store B view False" using assms(1) by (simp add: reliable_store_def)
  ultimately show ?thesis
    using readsD [OF bit_store.reads_Load assms(7)] by auto
qed


theorem load_after_create_witness:
  "fst (Load demo (memStore id) ''f'' (snd (New demo (memStore id) ''now'' ''f'' 1 demo_p NewMemStore)))
     = Ok demo_handle"
  using load_after_create [OF mem.reliable_store_axioms, of demo NewMemStore "''f''" demo_p id "''now''" 1
      demo_handle] demo_new demo_requests_ok(3) demo_text_exact demo_p_ok sim_NewMemStore
  by (metis prod.collapse sim_filter)

end
